(* ===== verification/Prelude.thy ===== *)
theory Prelude
  imports Main "HOL-Library.Word" "HOL-Library.Multiset" "HOL-Library.Monad_Syntax"
begin

text \<open>
  Shared ground of the development: the machine types of the C sources, the byte order
  of a little-endian host, the part of the C library the sources use (errno, the
  allocator, closing of descriptors, strings), and the interfaces several components
  share (a prefix-decodable framing, a byte stream drained from the front).

  Undefined behaviour of C (a write outside a block, a read through a null pointer) is
  the value \<open>None\<close> of an \<open>option\<close>; a call that returns is \<open>Some\<close>.
\<close>

unbundle bit_operations_syntax

section \<open>Machine types\<close>

type_synonym byte = "8 word"
type_synonym bytes = "byte list"
type_synonym u16 = "16 word"
type_synonym u32 = "32 word"
type_synonym size_t = "64 word"

named_theorems c_defs \<open>unfolding the small C helpers\<close>
named_theorems inv_intros \<open>an operation keeps the invariant of its component\<close>

section \<open>Byte order\<close>

text \<open>Object representation of unsigned integers on the (little-endian) host.\<close>

definition le16 :: "u16 \<Rightarrow> bytes" where
  "le16 w = [ucast w, ucast (drop_bit 8 w)]"

definition le32 :: "u32 \<Rightarrow> bytes" where
  "le32 w = [ucast w, ucast (drop_bit 8 w), ucast (drop_bit 16 w), ucast (drop_bit 24 w)]"

definition of_le16 :: "bytes \<Rightarrow> u16" where
  "of_le16 bs = ucast (bs ! 0) OR push_bit 8 (ucast (bs ! 1))"

definition of_le32 :: "bytes \<Rightarrow> u32" where
  "of_le32 bs = ucast (bs ! 0) OR push_bit 8 (ucast (bs ! 1))
     OR push_bit 16 (ucast (bs ! 2)) OR push_bit 24 (ucast (bs ! 3))"

definition htons :: "u16 \<Rightarrow> u16" where
  "htons w = push_bit 8 w OR drop_bit 8 w"

definition ntohs :: "u16 \<Rightarrow> u16" where
  "ntohs w = push_bit 8 w OR drop_bit 8 w"

lemma length_le [simp]: "length (le16 w) = 2" "length (le32 v) = 4"
  by (simp_all add: le16_def le32_def)

lemma of_le16_le16 [simp]: "of_le16 (le16 w @ r) = w"
  by (simp add: of_le16_def le16_def, rule bit_eqI)
    (auto simp: bit_simps)

lemma of_le32_le32 [simp]: "of_le32 (le32 w @ r) = w"
proof (rule bit_eqI)
  fix n
  assume "possible_bit TYPE(u32) n"
  then have "n < 32" by simp
  then consider "n < 8" | "8 \<le> n" "n < 16" | "16 \<le> n" "n < 24" | "24 \<le> n" "n < 32"
    by fastforce
  then show "bit (of_le32 (le32 w @ r)) n \<longleftrightarrow> bit w n"
    by cases (auto simp: of_le32_def le32_def bit_simps)
qed

lemma of_le16_exact [simp]: "of_le16 (le16 w) = w"
  using of_le16_le16 [of w "[]"] by simp

lemma of_le32_exact [simp]: "of_le32 (le32 w) = w"
  using of_le32_le32 [of w "[]"] by simp

lemma ntohs_htons [simp]: "ntohs (htons w) = w"
  by (rule bit_eqI) (auto simp: htons_def ntohs_def bit_simps)

lemma htons_ntohs [simp]: "htons (ntohs w) = w"
  by (rule bit_eqI) (auto simp: htons_def ntohs_def bit_simps)

section \<open>The C library\<close>

datatype errno = E0 | EAGAIN | EINTR | ENOBUFS | ENOMEM | ERANGE | EMSGSIZE | ENOENT | EOTHER nat

text \<open>
  The library state the sources touch. Allocation is an input of the environment: the
  \<open>k\<close>-th request for \<open>n\<close> bytes succeeds iff \<open>l_alloc_ok k n\<close>, and a block it
  returns holds the arbitrary bytes \<open>l_junk k\<close>. \<open>l_closed\<close> records the arguments of
  \<open>close\<close>.
\<close>

record libc =
  l_errno :: errno
  l_allocs :: nat
  l_alloc_ok :: "nat \<Rightarrow> nat \<Rightarrow> bool"
  l_junk :: "nat \<Rightarrow> nat \<Rightarrow> byte"
  l_closed :: "int list"

definition set_errno :: "errno \<Rightarrow> libc \<Rightarrow> libc" where
  "set_errno e L = L\<lparr>l_errno := e\<rparr>"

definition c_malloc :: "nat \<Rightarrow> libc \<Rightarrow> bytes option \<times> libc" where
  "c_malloc n L =
     (if l_alloc_ok L (l_allocs L) n
      then (Some (map (l_junk L (l_allocs L)) [0..<n]), L\<lparr>l_allocs := Suc (l_allocs L)\<rparr>)
      else (None, L\<lparr>l_allocs := Suc (l_allocs L), l_errno := ENOMEM\<rparr>))"

definition c_realloc :: "bytes \<Rightarrow> nat \<Rightarrow> libc \<Rightarrow> bytes option \<times> libc" where
  "c_realloc old n L =
     (if l_alloc_ok L (l_allocs L) n
      then (Some (take n old @ map (l_junk L (l_allocs L)) [length old..<n]),
            L\<lparr>l_allocs := Suc (l_allocs L)\<rparr>)
      else (None, L\<lparr>l_allocs := Suc (l_allocs L), l_errno := ENOMEM\<rparr>))"

definition c_close :: "int \<Rightarrow> libc \<Rightarrow> libc" where
  "c_close f L = L\<lparr>l_closed := l_closed L @ [f]\<rparr>"

text \<open>An allocator never returns an object larger than \<open>PTRDIFF_MAX\<close>.\<close>

definition heap_ok :: "libc \<Rightarrow> bool" where
  "heap_ok L \<longleftrightarrow> (\<forall>k n. l_alloc_ok L k n \<longrightarrow> n < 2 ^ 63)"

text \<open>A concrete library state, for evaluating the model: requests below 64 KiB succeed.\<close>

definition demo_libc :: libc where
  "demo_libc = \<lparr>l_errno = E0, l_allocs = 0, l_alloc_ok = (\<lambda>k n. n < 65536),
     l_junk = (\<lambda>k i. 0), l_closed = []\<rparr>"

lemma heap_ok_demo [simp]: "heap_ok demo_libc"
  by (simp add: heap_ok_def demo_libc_def)

text \<open>\<open>memcpy (block + pos, data, n)\<close> into a block of known length.\<close>

definition mem_write :: "bytes \<Rightarrow> nat \<Rightarrow> bytes \<Rightarrow> bytes option" where
  "mem_write blk pos data =
     (if pos + length data \<le> length blk
      then Some (take pos blk @ data @ drop (pos + length data) blk) else None)"

text \<open>\<open>memcpy (dst, block + pos, n)\<close> from a block of known length.\<close>

definition mem_read :: "bytes \<Rightarrow> nat \<Rightarrow> nat \<Rightarrow> bytes option" where
  "mem_read blk pos n = (if pos + n \<le> length blk then Some (take n (drop pos blk)) else None)"

lemma c_malloc_length [simp]: "c_malloc n L = (Some b, L') \<Longrightarrow> length b = n"
  by (auto simp: c_malloc_def split: if_splits)

lemma c_realloc_block:
  "c_realloc old n L = (Some b, L') \<Longrightarrow> length b = n \<and> take (min n (length old)) b = take n old"
  by (auto simp: c_realloc_def min_def split: if_splits)

lemma heap_ok_update [simp]:
  "heap_ok (L\<lparr>l_errno := e\<rparr>) = heap_ok L"
  "heap_ok (L\<lparr>l_allocs := k\<rparr>) = heap_ok L"
  "heap_ok (L\<lparr>l_closed := cs\<rparr>) = heap_ok L"
  "heap_ok (set_errno e L) = heap_ok L"
  "heap_ok (c_close f L) = heap_ok L"
  by (simp_all add: heap_ok_def set_errno_def c_close_def)

lemma c_malloc_heap: "c_malloc n L = (r, L') \<Longrightarrow> heap_ok L' = heap_ok L \<and> l_closed L' = l_closed L"
  by (auto simp: c_malloc_def split: if_splits)

lemma c_realloc_heap: "c_realloc b n L = (r, L') \<Longrightarrow> heap_ok L' = heap_ok L \<and> l_closed L' = l_closed L"
  by (auto simp: c_realloc_def split: if_splits)

lemma c_malloc_bound: "heap_ok L \<Longrightarrow> c_malloc n L = (Some b, L') \<Longrightarrow> n < 2 ^ 63"
  by (auto simp: c_malloc_def heap_ok_def split: if_splits)

lemma c_realloc_bound: "heap_ok L \<Longrightarrow> c_realloc old n L = (Some b, L') \<Longrightarrow> n < 2 ^ 63"
  by (auto simp: c_realloc_def heap_ok_def split: if_splits)

lemma mem_write_eq [simp]:
  "pos + length data \<le> length blk \<Longrightarrow>
   mem_write blk pos data = Some (take pos blk @ data @ drop (pos + length data) blk)"
  by (simp add: mem_write_def)

lemma mem_write_length: "mem_write blk pos data = Some b \<Longrightarrow> length b = length blk"
  by (auto simp: mem_write_def split: if_splits)

lemma unat_size_t [simp]: "n < 2 ^ 64 \<Longrightarrow> unat (word_of_nat n :: size_t) = n"
  by (simp add: unat_of_nat)

lemma unat_add_size_t:
  "unat (a :: size_t) + unat b < 2 ^ 64 \<Longrightarrow> unat (a + b) = unat a + unat b"
  using unat_add_lem [of a b] by simp

lemma unat_size_t_bound [simp]: "unat (a :: size_t) < 2 ^ 64"
  using unsigned_less [of a] by simp

lemma mem_read_length: "mem_read blk pos n = Some b \<Longrightarrow> length b = n"
  by (auto simp: mem_read_def split: if_splits)

section \<open>Interfaces\<close>

text \<open>
  A queue whose content is a byte stream from the front of which any number of bytes can
  be taken.
\<close>

locale byte_stream =
  fixes pend :: "'q \<Rightarrow> bytes" and drain :: "nat \<Rightarrow> 'q \<Rightarrow> 'q" and sinv :: "'q \<Rightarrow> bool"
  assumes drain_inv: "sinv q \<Longrightarrow> n < 2 ^ 63 \<Longrightarrow> sinv (drain n q)"
    and drain_pend: "sinv q \<Longrightarrow> n < 2 ^ 63 \<Longrightarrow> pend (drain n q) = drop n (pend q)"
begin

lemma drain_many:
  assumes "sinv q" and "\<forall>n \<in> set ns. n < 2 ^ 63"
  shows "sinv (fold drain ns q) \<and> pend (fold drain ns q) = drop (sum_list ns) (pend q)"
  using assms by (induction ns arbitrary: q) (auto simp: drain_inv drain_pend add.commute)

text \<open>The bytes taken by successive drains, in order, are a prefix of the stream.\<close>

lemma taken_prefix:
  assumes "sinv q" and "n < 2 ^ 63"
  shows "take n (pend q) @ pend (drain n q) = pend q"
  using assms by (simp add: drain_pend)

end

text \<open>
  A framing splits a byte stream into messages: decoding looks at the bytes received so
  far and finds a whole message and what follows it, or needs more bytes, or rejects them.
\<close>

datatype 'm frame_res = Frame 'm bytes | More | Bad

text \<open>
  A reader decodes whatever it has buffered after each chunk it receives, as the dispatch
  loops of the daemon do.
\<close>

function decode_all :: "(bytes \<Rightarrow> 'm frame_res) \<Rightarrow> bytes \<Rightarrow> 'm list \<times> bytes" where
  "decode_all dec bs =
     (case dec bs of
        Frame m r \<Rightarrow> (if length r < length bs
                      then case decode_all dec r of (ms, r') \<Rightarrow> (m # ms, r') else ([], bs))
      | _ \<Rightarrow> ([], bs))"
  by pat_completeness auto
termination
  by (relation "measure (\<lambda>(dec, bs). length bs)") auto

declare decode_all.simps [simp del]

lemma decode_all_rest: "decode_all dec bs = (ms, r) \<Longrightarrow> decode_all dec r = ([], r)"
proof (induction dec bs arbitrary: ms rule: decode_all.induct)
  case (1 dec bs)
  then show ?case
    by (cases "dec bs")
      (auto simp: decode_all.simps [of dec bs] decode_all.simps [of dec r]
        split: if_splits prod.splits)
qed

fun feed :: "(bytes \<Rightarrow> 'm frame_res) \<Rightarrow> bytes \<Rightarrow> bytes list \<Rightarrow> 'm list \<times> bytes" where
  "feed dec buf [] = ([], buf)"
| "feed dec buf (c # cs) =
     (case decode_all dec (buf @ c) of (ms, buf1) \<Rightarrow>
        (case feed dec buf1 cs of (ms', buf2) \<Rightarrow> (ms @ ms', buf2)))"

locale framing =
  fixes enc :: "'m \<Rightarrow> bytes" and dec :: "bytes \<Rightarrow> 'm frame_res" and wf :: "'m \<Rightarrow> bool"
  assumes dec_enc: "wf m \<Longrightarrow> dec (enc m @ r) = Frame m r"
    and dec_short: "wf m \<Longrightarrow> n < length (enc m) \<Longrightarrow> dec (take n (enc m)) = More"
    and enc_nonempty: "wf m \<Longrightarrow> enc m \<noteq> []"
    and dec_nil: "dec [] = More"
begin

lemma decode_all_step:
  assumes "wf m"
  shows "decode_all dec (enc m @ r) = (case decode_all dec r of (ms, r') \<Rightarrow> (m # ms, r'))"
  using assms enc_nonempty [OF assms] by (subst decode_all.simps) (simp add: dec_enc)

lemma decode_all_more: "dec bs = More \<Longrightarrow> decode_all dec bs = ([], bs)"
  by (simp add: decode_all.simps [of dec bs])

text \<open>A reader stopped anywhere in a stream of messages holds the whole messages before that point.\<close>

lemma decode_all_prefix:
  assumes "\<forall>m \<in> set ms. wf m" and "concat (map enc ms) = p @ q"
  shows "\<exists>ms1 ms2 t. ms = ms1 @ ms2 \<and> decode_all dec p = (ms1, t) \<and> t @ q = concat (map enc ms2)"
  using assms
proof (induction ms arbitrary: p)
  case Nil
  then have "p = []" "q = []" by simp_all
  then show ?case by (auto simp: decode_all_more dec_nil)
next
  case (Cons m ms)
  have m: "wf m" using Cons.prems(1) by simp
  show ?case
  proof (cases "length p < length (enc m)")
    case True
    have "p = take (length p) (p @ q)" by simp
    also have "\<dots> = take (length p) (enc m)"
      using True Cons.prems(2) [symmetric] by simp
    finally have "dec p = More"
      using dec_short [OF m True] by simp
    then have "decode_all dec p = ([], p)" by (rule decode_all_more)
    with Cons.prems(2) show ?thesis
      by (intro exI [of _ "[]"] exI [of _ "m # ms"] exI [of _ p]) simp
  next
    case False
    then obtain p' where p: "p = enc m @ p'"
      using Cons.prems(2) by (auto simp: append_eq_append_conv2)
    then have "concat (map enc ms) = p' @ q" using Cons.prems(2) by simp
    then obtain ms1 ms2 t where IH: "ms = ms1 @ ms2" "decode_all dec p' = (ms1, t)"
      "t @ q = concat (map enc ms2)"
      using Cons.IH [of p'] Cons.prems(1) by auto
    then have "decode_all dec p = (m # ms1, t)"
      using decode_all_step [OF m, of p'] p by simp
    with IH show ?thesis
      by (intro exI [of _ "m # ms1"] exI [of _ ms2] exI [of _ t]) simp
  qed
qed

lemma feed_chunks_from:
  assumes "\<forall>m \<in> set ms. wf m" and "t @ concat chunks = concat (map enc ms)"
    and "decode_all dec t = ([], t)"
  shows "feed dec t chunks = (ms, [])"
  using assms
proof (induction chunks arbitrary: t ms)
  case Nil
  show ?case
  proof (cases ms)
    case (Cons m ms')
    then have "decode_all dec t = (case decode_all dec (concat (map enc ms')) of (ms, r') \<Rightarrow> (m # ms, r'))"
      using Nil.prems(1,2) decode_all_step [of m] by simp
    with Nil.prems(3) show ?thesis by (simp split: prod.splits)
  qed (use Nil in simp)
next
  case (Cons c cs)
  have "concat (map enc ms) = (t @ c) @ concat cs" using Cons.prems(2) by simp
  from decode_all_prefix [OF Cons.prems(1) this]
  obtain ms1 ms2 t' where d: "ms = ms1 @ ms2" "decode_all dec (t @ c) = (ms1, t')"
    "t' @ concat cs = concat (map enc ms2)" by blast
  then have "feed dec t' cs = (ms2, [])"
    using Cons.IH [of ms2 t'] Cons.prems(1) decode_all_rest [OF d(2)] by simp
  with d show ?case by simp
qed

lemma feed_chunks:
  assumes "\<forall>m \<in> set ms. wf m" and "concat chunks = concat (map enc ms)"
  shows "feed dec [] chunks = (ms, [])"
  using assms feed_chunks_from [of ms "[]" chunks] decode_all_more [OF dec_nil] by simp

end

end
