(* ===== verification/Ibuf.thy ===== *)
theory Ibuf
  imports Prelude
begin

text \<open>
  Output buffers of the privilege-separation channel: \<open>sys/unix/imsg-buffer.c\<close> with the
  structures of \<open>include/imsg.h\<close>. An \<open>ibuf\<close> is a heap block with a write and a read
  position; a \<open>msgbuf\<close> is a queue of them that is written to a socket. Sizes are
  64-bit words, so the additions of the bound checks wrap as in C; a copy outside the
  block is \<open>None\<close>.
\<close>

section \<open>Data\<close>

record ibuf =
  ib_buf :: bytes
  ib_size :: size_t
  ib_max :: size_t
  ib_wpos :: size_t
  ib_rpos :: size_t
  ib_fd :: int

text \<open>The tail queue \<open>bufs\<close> is the list of its entries, first entry first.\<close>

record msgbuf =
  mb_bufs :: "ibuf list"
  mb_queued :: u32
  mb_fd :: int

definition IOV_MAX :: nat where
  "IOV_MAX = 1024"

text \<open>\<open>sizeof (struct ibuf)\<close> on the LP64 host.\<close>

definition sizeof_ibuf :: nat where
  "sizeof_ibuf = 64"

text \<open>Result of \<open>writev\<close> or \<open>sendmsg\<close>: the bytes taken, or -1 with an errno.\<close>

datatype io_res = Sent nat | Failed errno

section \<open>Operations on one buffer\<close>

definition ibuf_open :: "size_t \<Rightarrow> libc \<Rightarrow> ibuf option \<times> libc" where
  "ibuf_open len L =
     (case c_malloc sizeof_ibuf L of
        (None, L1) \<Rightarrow> (None, L1)
      | (Some _, L1) \<Rightarrow>
          (case c_malloc (unat len) L1 of
             (None, L2) \<Rightarrow> (None, L2)
           | (Some b, L2) \<Rightarrow>
               (Some \<lparr>ib_buf = b, ib_size = len, ib_max = len, ib_wpos = 0, ib_rpos = 0,
                      ib_fd = -1\<rparr>, L2)))"

definition ibuf_dynamic :: "size_t \<Rightarrow> size_t \<Rightarrow> libc \<Rightarrow> ibuf option \<times> libc" where
  "ibuf_dynamic len mx L =
     (if mx < len then (None, L)
      else case ibuf_open len L of
             (None, L1) \<Rightarrow> (None, L1)
           | (Some b, L1) \<Rightarrow> (Some (if mx > 0 then b\<lparr>ib_max := mx\<rparr> else b), L1))"

definition ibuf_realloc :: "ibuf \<Rightarrow> size_t \<Rightarrow> libc \<Rightarrow> int \<times> ibuf \<times> libc" where
  "ibuf_realloc b len L =
     (if ib_wpos b + len > ib_max b then (-1, b, set_errno ENOMEM L)
      else case c_realloc (ib_buf b) (unat (ib_wpos b + len)) L of
             (None, L1) \<Rightarrow> (-1, b, L1)
           | (Some blk, L1) \<Rightarrow> (0, b\<lparr>ib_buf := blk, ib_size := ib_wpos b + len\<rparr>, L1))"

text \<open>The copy at the end of \<open>ibuf_add\<close>.\<close>

definition ibuf_put :: "ibuf \<Rightarrow> bytes \<Rightarrow> ibuf option" where
  "ibuf_put b data =
     (case mem_write (ib_buf b) (unat (ib_wpos b)) data of
        None \<Rightarrow> None
      | Some blk \<Rightarrow> Some (b\<lparr>ib_buf := blk, ib_wpos := ib_wpos b + word_of_nat (length data)\<rparr>))"

definition ibuf_add :: "ibuf \<Rightarrow> bytes \<Rightarrow> libc \<Rightarrow> (int \<times> ibuf \<times> libc) option" where
  "ibuf_add b data L =
     (let len = word_of_nat (length data);
          (r, b1, L1) = (if ib_wpos b + len > ib_size b then ibuf_realloc b len L else (0, b, L))
      in if r = -1 then Some (-1, b1, L1)
         else map_option (\<lambda>b2. (0, b2, L1)) (ibuf_put b1 data))"

text \<open>The pointer \<open>ibuf_reserve\<close> and \<open>ibuf_seek\<close> return is an offset into the block.\<close>

definition ibuf_reserve :: "ibuf \<Rightarrow> size_t \<Rightarrow> libc \<Rightarrow> size_t option \<times> ibuf \<times> libc" where
  "ibuf_reserve b len L =
     (let (r, b1, L1) = (if ib_wpos b + len > ib_size b then ibuf_realloc b len L else (0, b, L))
      in if r = -1 then (None, b1, L1)
         else (Some (ib_wpos b1), b1\<lparr>ib_wpos := ib_wpos b1 + len\<rparr>, L1))"

definition ibuf_seek :: "ibuf \<Rightarrow> size_t \<Rightarrow> size_t \<Rightarrow> size_t option" where
  "ibuf_seek b pos len = (if pos + len > ib_wpos b then None else Some pos)"

definition ibuf_size :: "ibuf \<Rightarrow> size_t" where
  "ibuf_size b = ib_wpos b"

definition ibuf_left :: "ibuf \<Rightarrow> size_t" where
  "ibuf_left b = ib_max b - ib_wpos b"

section \<open>Operations on the queue\<close>

definition msgbuf_init :: "msgbuf" where
  "msgbuf_init = \<lparr>mb_bufs = [], mb_queued = 0, mb_fd = -1\<rparr>"

definition ibuf_enqueue :: "msgbuf \<Rightarrow> ibuf \<Rightarrow> msgbuf" where
  "ibuf_enqueue mb b = mb\<lparr>mb_bufs := mb_bufs mb @ [b], mb_queued := mb_queued mb + 1\<rparr>"

definition ibuf_close :: "msgbuf \<Rightarrow> ibuf \<Rightarrow> msgbuf" where
  "ibuf_close mb b = ibuf_enqueue mb b"

text \<open>\<open>ibuf_dequeue\<close> removes the entry its second argument points to: the \<open>k\<close>-th.\<close>

definition ibuf_dequeue :: "msgbuf \<Rightarrow> nat \<Rightarrow> libc \<Rightarrow> msgbuf \<times> libc" where
  "ibuf_dequeue mb k L =
     (mb\<lparr>mb_bufs := take k (mb_bufs mb) @ drop (Suc k) (mb_bufs mb),
         mb_queued := mb_queued mb - 1\<rparr>,
      if ib_fd (mb_bufs mb ! k) \<noteq> -1 then c_close (ib_fd (mb_bufs mb ! k)) L else L)"

function msgbuf_drain :: "msgbuf \<Rightarrow> size_t \<Rightarrow> libc \<Rightarrow> msgbuf \<times> libc" where
  "msgbuf_drain mb n L =
     (case mb_bufs mb of
        [] \<Rightarrow> (mb, L)
      | b # bs \<Rightarrow>
          if n = 0 then (mb, L)
          else if ib_rpos b + n \<ge> ib_wpos b then
            (let (mb1, L1) = ibuf_dequeue mb 0 L
             in msgbuf_drain mb1 (n - (ib_wpos b - ib_rpos b)) L1)
          else (mb\<lparr>mb_bufs := b\<lparr>ib_rpos := ib_rpos b + n\<rparr> # bs\<rparr>, L))"
  by pat_completeness auto
termination
  by (relation "measure (\<lambda>(mb, n, L). length (mb_bufs mb))") (auto simp: ibuf_dequeue_def)

declare msgbuf_drain.simps [simp del]

function msgbuf_clear :: "msgbuf \<Rightarrow> libc \<Rightarrow> msgbuf \<times> libc" where
  "msgbuf_clear mb L =
     (if mb_bufs mb = [] then (mb, L)
      else let (mb1, L1) = ibuf_dequeue mb 0 L in msgbuf_clear mb1 L1)"
  by pat_completeness auto
termination
  by (relation "measure (\<lambda>(mb, L). length (mb_bufs mb))")
    (auto simp: ibuf_dequeue_def neq_Nil_conv)

declare msgbuf_clear.simps [simp del]

text \<open>\<open>iov_base = buf + rpos\<close>, \<open>iov_len = wpos - rpos\<close>.\<close>

definition ib_iov :: "ibuf \<Rightarrow> bytes" where
  "ib_iov b = take (unat (ib_wpos b - ib_rpos b)) (drop (unat (ib_rpos b)) (ib_buf b))"

text \<open>The error and end-of-file handling both write functions share.\<close>

definition write_result :: "io_res \<Rightarrow> msgbuf \<Rightarrow> libc \<Rightarrow> int \<times> msgbuf \<times> libc" where
  "write_result r mb L =
     (case r of
        Failed e \<Rightarrow> (if e = EAGAIN \<or> e = ENOBUFS \<or> e = EINTR then (0, mb, set_errno e L)
                     else (-1, mb, set_errno e L))
      | Sent n \<Rightarrow> (if n = 0 then (-2, mb, set_errno E0 L)
                   else case msgbuf_drain mb (word_of_nat n) L of (mb1, L1) \<Rightarrow> (0, mb1, L1)))"

definition ibuf_write :: "(bytes list \<Rightarrow> io_res) \<Rightarrow> msgbuf \<Rightarrow> libc \<Rightarrow> int \<times> msgbuf \<times> libc" where
  "ibuf_write writev mb L =
     write_result (writev (map ib_iov (take IOV_MAX (mb_bufs mb)))) mb L"

text \<open>
  The gathering loop of \<open>msgbuf_write\<close>: the vector, and the entry the loop variable
  \<open>buf\<close> points to after the loop (\<open>None\<close>: the end of the queue).
\<close>

fun gather :: "nat \<Rightarrow> ibuf list \<Rightarrow> bytes list \<times> nat option" where
  "gather i [] = ([], None)"
| "gather i (b # bs) =
     (if i \<ge> IOV_MAX then ([], Some 0)
      else if ib_fd b \<noteq> -1 then ([ib_iov b], Some 0)
      else case gather (Suc i) bs of (v, k) \<Rightarrow> (ib_iov b # v, map_option Suc k))"

text \<open>The descriptor attached to the message, if \<open>buf\<close> points to an entry that has one.\<close>

definition attached :: "msgbuf \<Rightarrow> nat option \<Rightarrow> int option" where
  "attached mb k =
     (case k of None \<Rightarrow> None
      | Some j \<Rightarrow> if ib_fd (mb_bufs mb ! j) \<noteq> -1 then Some (ib_fd (mb_bufs mb ! j)) else None)"

definition close_attached :: "msgbuf \<Rightarrow> nat option \<Rightarrow> libc \<Rightarrow> msgbuf \<times> libc" where
  "close_attached mb k L =
     (case (k, attached mb k) of
        (Some j, Some f) \<Rightarrow>
          (mb\<lparr>mb_bufs := (mb_bufs mb)[j := (mb_bufs mb ! j)\<lparr>ib_fd := -1\<rparr>]\<rparr>, c_close f L)
      | _ \<Rightarrow> (mb, L))"

definition msgbuf_write ::
    "(bytes list \<Rightarrow> int option \<Rightarrow> io_res) \<Rightarrow> msgbuf \<Rightarrow> libc \<Rightarrow> int \<times> msgbuf \<times> libc" where
  "msgbuf_write sendmsg mb L =
     (let (iov, k) = gather 0 (mb_bufs mb);
          r = sendmsg iov (attached mb k)
      in case r of
           Sent n \<Rightarrow>
             (if n = 0 then write_result r mb L
              else let (mb1, L1) = close_attached mb k L in write_result r mb1 L1)
         | Failed e \<Rightarrow> write_result r mb L)"

section \<open>The invariant of a buffer\<close>

definition ibuf_inv :: "ibuf \<Rightarrow> bool" where
  "ibuf_inv b \<longleftrightarrow> length (ib_buf b) = unat (ib_size b) \<and> unat (ib_size b) < 2 ^ 63
     \<and> ib_size b \<le> ib_max b \<and> ib_wpos b \<le> ib_size b \<and> ib_rpos b \<le> ib_wpos b"

text \<open>What has been written to the buffer so far.\<close>

definition ib_written :: "ibuf \<Rightarrow> bytes" where
  "ib_written b = take (unat (ib_wpos b)) (ib_buf b)"

lemma ibuf_inv_bounds:
  assumes "ibuf_inv b"
  shows "unat (ib_rpos b) \<le> unat (ib_wpos b)" "unat (ib_wpos b) \<le> length (ib_buf b)"
    "unat (ib_wpos b) \<le> unat (ib_max b)" "length (ib_buf b) < 2 ^ 63"
    "unat (ib_size b) \<le> unat (ib_max b)"
  using assms by (auto simp: ibuf_inv_def word_le_nat_alt)

lemma length_ib_written: "ibuf_inv b \<Longrightarrow> length (ib_written b) = unat (ib_wpos b)"
  by (simp add: ib_written_def ibuf_inv_bounds)

lemma ib_iov_written: "ibuf_inv b \<Longrightarrow> ib_iov b = drop (unat (ib_rpos b)) (ib_written b)"
  by (simp add: ib_iov_def ib_written_def unat_sub ibuf_inv_def drop_take)

lemma length_ib_iov:
  "ibuf_inv b \<Longrightarrow> length (ib_iov b) = unat (ib_wpos b) - unat (ib_rpos b)"
  by (simp add: ib_iov_written length_ib_written)

lemma ibuf_open_inv [inv_intros]:
  assumes "ibuf_open len L = (Some b, L')" and "heap_ok L"
  shows "ibuf_inv b"
proof -
  obtain L1 blk where m: "c_malloc (unat len) L1 = (Some blk, L')" "heap_ok L1"
    and b: "b = \<lparr>ib_buf = blk, ib_size = len, ib_max = len, ib_wpos = 0, ib_rpos = 0, ib_fd = -1\<rparr>"
    using assms by (auto simp: ibuf_open_def split: prod.splits option.splits dest: c_malloc_heap)
  with c_malloc_length [OF m(1)] c_malloc_bound [OF m(2) m(1)] show ?thesis
    by (simp add: ibuf_inv_def)
qed

lemma ibuf_dynamic_inv [inv_intros]:
  assumes "ibuf_dynamic len mx L = (Some b, L')" and "heap_ok L"
  shows "ibuf_inv b"
proof -
  obtain b0 where o: "ibuf_open len L = (Some b0, L')" and le: "len \<le> mx"
    and b: "b = (if mx > 0 then b0\<lparr>ib_max := mx\<rparr> else b0)"
    using assms(1) by (auto simp: ibuf_dynamic_def not_less split: if_splits prod.splits option.splits)
  have "ib_size b0 = len"
    using o by (auto simp: ibuf_open_def split: prod.splits option.splits)
  with ibuf_open_inv [OF o assms(2)] le b show ?thesis
    by (auto simp: ibuf_inv_def)
qed

lemma ibuf_open_heap: "ibuf_open len L = (r, L') \<Longrightarrow> heap_ok L' = heap_ok L \<and> l_closed L' = l_closed L"
  by (auto simp: ibuf_open_def split: prod.splits option.splits dest!: c_malloc_heap)

lemma ibuf_dynamic_heap:
  "ibuf_dynamic len mx L = (r, L') \<Longrightarrow> heap_ok L' = heap_ok L \<and> l_closed L' = l_closed L"
  by (auto simp: ibuf_dynamic_def split: if_splits prod.splits option.splits dest!: ibuf_open_heap)

text \<open>Growing a buffer keeps what was written, and never shrinks below the write position.\<close>

lemma ibuf_realloc_ok:
  assumes inv: "ibuf_inv b" and heap: "heap_ok L"
    and nowrap: "unat (ib_wpos b) + unat len < 2 ^ 64"
    and r: "ibuf_realloc b len L = (r, b', L')"
  shows "(r = 0 \<and> ibuf_inv b' \<and> ib_written b' = ib_written b
            \<and> unat (ib_size b') = unat (ib_wpos b) + unat len
            \<and> ib_wpos b' = ib_wpos b \<and> ib_rpos b' = ib_rpos b \<and> ib_max b' = ib_max b
            \<and> ib_fd b' = ib_fd b
            \<and> unat (ib_wpos b) + unat len \<le> unat (ib_max b)
            \<and> l_alloc_ok L (l_allocs L) (unat (ib_wpos b) + unat len))
       \<or> (r = -1 \<and> b' = b
            \<and> (unat (ib_wpos b) + unat len > unat (ib_max b)
               \<or> \<not> l_alloc_ok L (l_allocs L) (unat (ib_wpos b) + unat len)))"
proof -
  have sum: "unat (ib_wpos b + len) = unat (ib_wpos b) + unat len"
    using nowrap by (rule unat_add_size_t)
  show ?thesis
  proof (cases "ib_wpos b + len > ib_max b")
    case True
    with r sum show ?thesis
      by (auto simp: ibuf_realloc_def word_less_nat_alt)
  next
    case fits: False
    show ?thesis
    proof (cases "c_realloc (ib_buf b) (unat (ib_wpos b + len)) L")
      case (Pair x L1)
      show ?thesis
      proof (cases x)
        case None
        with Pair r fits sum show ?thesis
          by (auto simp: ibuf_realloc_def c_realloc_def split: if_splits)
      next
        case (Some blk)
        note alloc = Pair [unfolded Some]
        have len: "length blk = unat (ib_wpos b + len)"
          using c_realloc_block [OF alloc] by simp
        have "take (unat (ib_wpos b)) blk = take (unat (ib_wpos b)) (ib_buf b)"
          using alloc sum ibuf_inv_bounds(2) [OF inv]
          by (auto simp: c_realloc_def min_def split: if_splits)
        moreover have "unat (ib_wpos b + len) < 2 ^ 63"
          using c_realloc_bound [OF heap alloc] .
        moreover have "ib_wpos b \<le> ib_wpos b + len"
          by (simp add: word_le_nat_alt sum)
        moreover have "l_alloc_ok L (l_allocs L) (unat (ib_wpos b) + unat len)"
          using alloc sum by (auto simp: c_realloc_def split: if_splits)
        ultimately show ?thesis
          using r fits alloc len inv sum
          by (auto simp: ibuf_realloc_def ibuf_inv_def ib_written_def word_less_nat_alt word_le_nat_alt)
      qed
    qed
  qed
qed

lemma ibuf_realloc_heap:
  "ibuf_realloc b len L = (r, b', L') \<Longrightarrow> heap_ok L' = heap_ok L \<and> l_closed L' = l_closed L"
  by (auto simp: ibuf_realloc_def set_errno_def heap_ok_def
      split: if_splits prod.splits option.splits dest!: c_realloc_heap)

lemma ibuf_put_ok:
  assumes inv: "ibuf_inv b" and fits: "unat (ib_wpos b) + length data \<le> unat (ib_size b)"
  shows "\<exists>b'. ibuf_put b data = Some b' \<and> ibuf_inv b' \<and> ib_written b' = ib_written b @ data
    \<and> ib_rpos b' = ib_rpos b \<and> ib_fd b' = ib_fd b \<and> ib_max b' = ib_max b
    \<and> ib_size b' = ib_size b"
proof -
  let ?w = "unat (ib_wpos b)"
  have n: "length data < 2 ^ 64" "?w + length data < 2 ^ 64"
    using fits unat_size_t_bound [of "ib_size b"] by linarith+
  then have sum: "unat (ib_wpos b + word_of_nat (length data)) = ?w + length data"
    by (simp add: unat_add_size_t)
  have room: "?w + length data \<le> length (ib_buf b)"
    using inv fits by (simp add: ibuf_inv_def)
  then have "ibuf_put b data = Some (b\<lparr>ib_buf := take ?w (ib_buf b) @ data @ drop (?w + length data) (ib_buf b),
      ib_wpos := ib_wpos b + word_of_nat (length data)\<rparr>)"
    by (simp add: ibuf_put_def)
  then show ?thesis
    using inv fits room sum
    by (auto simp: ibuf_inv_def ib_written_def word_le_nat_alt)
qed

lemma ibuf_add_ok:
  assumes inv: "ibuf_inv b" and heap: "heap_ok L" and small: "length data < 2 ^ 63"
  shows "\<exists>r b' L'. ibuf_add b data L = Some (r, b', L') \<and> ibuf_inv b'
    \<and> (if unat (ib_wpos b) + length data \<le> unat (ib_size b)
          \<or> unat (ib_wpos b) + length data \<le> unat (ib_max b)
            \<and> l_alloc_ok L (l_allocs L) (unat (ib_wpos b) + length data)
       then r = 0 \<and> ib_written b' = ib_written b @ data \<and> ib_rpos b' = ib_rpos b
            \<and> ib_fd b' = ib_fd b \<and> ib_max b' = ib_max b
            \<and> heap_ok L' \<and> l_closed L' = l_closed L
       else r = -1 \<and> b' = b \<and> heap_ok L' \<and> l_closed L' = l_closed L)"
proof -
  let ?n = "word_of_nat (length data) :: size_t"
  have n: "unat ?n = length data"
    using small by simp
  have nowrap: "unat (ib_wpos b) + unat ?n < 2 ^ 64"
    using small n ibuf_inv_bounds(2,4) [OF inv] by simp
  have gt: "ib_wpos b + ?n > ib_size b \<longleftrightarrow> unat (ib_size b) < unat (ib_wpos b) + length data"
    using nowrap n by (simp add: word_less_nat_alt unat_add_size_t)
  show ?thesis
  proof (cases "unat (ib_wpos b) + length data \<le> unat (ib_size b)")
    case True
    then obtain b' where "ibuf_put b data = Some b'" "ibuf_inv b'"
      "ib_written b' = ib_written b @ data" "ib_rpos b' = ib_rpos b" "ib_fd b' = ib_fd b" "ib_max b' = ib_max b"
      using ibuf_put_ok [OF inv] by blast
    then show ?thesis
      using True gt heap by (simp add: ibuf_add_def Let_def)
  next
    case False
    obtain r b1 L1 where r: "ibuf_realloc b ?n L = (r, b1, L1)"
      by (cases "ibuf_realloc b ?n L") auto
    note fr = ibuf_realloc_heap [OF r]
    note grown = ibuf_realloc_ok [OF inv heap nowrap r, unfolded n]
    show ?thesis
    proof (cases "r = -1")
      case True
      with grown False gt r inv heap fr show ?thesis
        by (auto simp: ibuf_add_def Let_def)
    next
      case ok: False
      with grown have g: "ibuf_inv b1" "unat (ib_wpos b1) + length data \<le> unat (ib_size b1)"
        by auto
      obtain b' where "ibuf_put b1 data = Some b'" "ibuf_inv b'"
        "ib_written b' = ib_written b1 @ data" "ib_rpos b' = ib_rpos b1" "ib_fd b' = ib_fd b1" "ib_max b' = ib_max b1"
        using ibuf_put_ok [OF g] by blast
      with grown False ok gt r heap fr show ?thesis
        by (auto simp: ibuf_add_def Let_def)
    qed
  qed
qed

text \<open>
  Appending to a buffer is memory safe and exact. From a buffer that satisfies
  the invariant, \<open>ibuf_add\<close> never copies outside the block, keeps the invariant, and
  returns 0 exactly when the data fits the block or the block may grow to hold it and the
  allocator gives the memory; then the written bytes are the old ones followed by the
  data. Otherwise it returns -1 and the buffer is unchanged.
\<close>

lemma ibuf_add_correct:
  assumes "ibuf_inv b" and "heap_ok L" and "length data < 2 ^ 63"
  shows "\<exists>r b' L'. ibuf_add b data L = Some (r, b', L') \<and> ibuf_inv b'
    \<and> (if unat (ib_wpos b) + length data \<le> unat (ib_size b)
          \<or> unat (ib_wpos b) + length data \<le> unat (ib_max b)
            \<and> l_alloc_ok L (l_allocs L) (unat (ib_wpos b) + length data)
       then r = 0 \<and> ib_written b' = ib_written b @ data \<and> ib_rpos b' = ib_rpos b
            \<and> ib_fd b' = ib_fd b
       else r = -1 \<and> b' = b)"
  using ibuf_add_ok [OF assms] by (elim exE conjE) (auto split: if_splits)

definition demo_ibuf :: ibuf where
  "demo_ibuf = \<lparr>ib_buf = [1, 2], ib_size = 2, ib_max = 8, ib_wpos = 2, ib_rpos = 0, ib_fd = -1\<rparr>"

lemma demo_ibuf_inv [simp]: "ibuf_inv demo_ibuf"
  by (simp add: ibuf_inv_def demo_ibuf_def)

lemma ibuf_add_correct_witness:
  "ibuf_inv demo_ibuf \<and> heap_ok demo_libc
     \<and> (\<exists>b' L'. ibuf_add demo_ibuf [7, 8] demo_libc = Some (0, b', L')
          \<and> ib_written b' = [1, 2, 7, 8])"
  using ibuf_add_correct [OF demo_ibuf_inv heap_ok_demo, of "[7, 8]"]
    demo_ibuf_inv heap_ok_demo
  by (auto simp: demo_ibuf_def demo_libc_def ib_written_def)

section \<open>The queue as a byte stream\<close>

definition mb_inv :: "msgbuf \<Rightarrow> bool" where
  "mb_inv mb \<longleftrightarrow> (\<forall>b \<in> set (mb_bufs mb). ibuf_inv b)
     \<and> mb_queued mb = word_of_nat (length (mb_bufs mb)) \<and> length (mb_bufs mb) < 2 ^ 32"

text \<open>The bytes still to be sent, in order, and the descriptors still to be passed.\<close>

definition mb_pend :: "msgbuf \<Rightarrow> bytes" where
  "mb_pend mb = concat (map ib_iov (mb_bufs mb))"

definition open_fds :: "ibuf list \<Rightarrow> int list" where
  "open_fds bs = filter (\<lambda>f. f \<noteq> -1) (map ib_fd bs)"

lemma mb_inv_init [inv_intros]: "mb_inv msgbuf_init"
  by (simp add: mb_inv_def msgbuf_init_def)

lemma ibuf_enqueue_inv [inv_intros]:
  "mb_inv mb \<Longrightarrow> ibuf_inv b \<Longrightarrow> Suc (length (mb_bufs mb)) < 2 ^ 32 \<Longrightarrow> mb_inv (ibuf_enqueue mb b)"
  by (auto simp: mb_inv_def ibuf_enqueue_def)

lemma ibuf_enqueue_pend: "mb_pend (ibuf_enqueue mb b) = mb_pend mb @ ib_iov b"
  by (simp add: mb_pend_def ibuf_enqueue_def)

lemma ibuf_enqueue_fds:
  "open_fds (mb_bufs (ibuf_enqueue mb b)) = open_fds (mb_bufs mb) @ (if ib_fd b = -1 then [] else [ib_fd b])"
  by (simp add: open_fds_def ibuf_enqueue_def)

lemma ibuf_dequeue_head:
  assumes "mb_bufs mb = b # bs"
  shows "ibuf_dequeue mb 0 L =
    (mb\<lparr>mb_bufs := bs, mb_queued := mb_queued mb - 1\<rparr>,
     if ib_fd b \<noteq> -1 then c_close (ib_fd b) L else L)"
  using assms by (simp add: ibuf_dequeue_def)

lemma dequeue_head_inv:
  assumes "mb_inv mb" and "mb_bufs mb = b # bs"
  shows "mb_inv (mb\<lparr>mb_bufs := bs, mb_queued := mb_queued mb - 1\<rparr>)"
  using assms by (auto simp: mb_inv_def)

text \<open>Taking \<open>n\<close> bytes from the head entry, when it holds more than \<open>n\<close>.\<close>

lemma ib_iov_advance:
  assumes inv: "ibuf_inv b" and lt: "ib_rpos b + n < ib_wpos b" and n: "unat n < 2 ^ 63"
  shows "ibuf_inv (b\<lparr>ib_rpos := ib_rpos b + n\<rparr>)"
    "ib_iov (b\<lparr>ib_rpos := ib_rpos b + n\<rparr>) = drop (unat n) (ib_iov b)"
    "unat n < length (ib_iov b)"
proof -
  have sum: "unat (ib_rpos b + n) = unat (ib_rpos b) + unat n"
    using n ibuf_inv_bounds(1,2,4) [OF inv] by (intro unat_add_size_t) simp
  show inv': "ibuf_inv (b\<lparr>ib_rpos := ib_rpos b + n\<rparr>)"
    using inv lt by (simp add: ibuf_inv_def less_imp_le)
  show "ib_iov (b\<lparr>ib_rpos := ib_rpos b + n\<rparr>) = drop (unat n) (ib_iov b)"
    using sum by (simp add: ib_iov_written [OF inv] ib_iov_written [OF inv'] ib_written_def
        add.commute [of "unat n"])
  show "unat n < length (ib_iov b)"
    using lt sum by (simp add: length_ib_iov [OF inv] word_less_nat_alt)
qed

lemma ib_iov_exhausted:
  assumes inv: "ibuf_inv b" and ge: "ib_rpos b + n \<ge> ib_wpos b" and n: "unat n < 2 ^ 63"
  shows "length (ib_iov b) \<le> unat n"
    "unat (n - (ib_wpos b - ib_rpos b)) = unat n - length (ib_iov b)"
proof -
  have sum: "unat (ib_rpos b + n) = unat (ib_rpos b) + unat n"
    using n ibuf_inv_bounds(1,2,4) [OF inv] by (intro unat_add_size_t) simp
  have d: "unat (ib_wpos b - ib_rpos b) = unat (ib_wpos b) - unat (ib_rpos b)"
    using inv by (simp add: ibuf_inv_def unat_sub)
  show le: "length (ib_iov b) \<le> unat n"
    using ge sum by (simp add: length_ib_iov [OF inv] word_le_nat_alt)
  then have "ib_wpos b - ib_rpos b \<le> n"
    by (simp add: word_le_nat_alt d length_ib_iov [OF inv])
  then show "unat (n - (ib_wpos b - ib_rpos b)) = unat n - length (ib_iov b)"
    by (simp add: unat_sub d length_ib_iov [OF inv])
qed

lemma msgbuf_drain_ok:
  assumes "mb_inv mb" and "unat n < 2 ^ 63" and "msgbuf_drain mb n L = (mb', L')"
  shows "mb_inv mb' \<and> mb_pend mb' = drop (unat n) (mb_pend mb)
    \<and> l_closed L' @ open_fds (mb_bufs mb') = l_closed L @ open_fds (mb_bufs mb)
    \<and> heap_ok L' = heap_ok L \<and> mb_fd mb' = mb_fd mb"
  using assms
proof (induction mb n L rule: msgbuf_drain.induct)
  case (1 mb n L)
  show ?case
  proof (cases "mb_bufs mb")
    case Nil
    with "1.prems" show ?thesis
      by (simp add: msgbuf_drain.simps [of mb n L] mb_pend_def)
  next
    case (Cons b bs)
    have inv: "ibuf_inv b"
      using "1.prems"(1) Cons by (simp add: mb_inv_def)
    consider "n = 0" | (all) "n \<noteq> 0" "ib_rpos b + n \<ge> ib_wpos b"
      | (part) "n \<noteq> 0" "ib_rpos b + n < ib_wpos b"
      by (meson not_le)
    then show ?thesis
    proof cases
      case 1
      with "1.prems" Cons show ?thesis
        by (simp add: msgbuf_drain.simps [of mb 0 L])
    next
      case all
      let ?mb = "mb\<lparr>mb_bufs := bs, mb_queued := mb_queued mb - 1\<rparr>"
      let ?L = "if ib_fd b \<noteq> -1 then c_close (ib_fd b) L else L"
      let ?n = "n - (ib_wpos b - ib_rpos b)"
      have rec: "msgbuf_drain ?mb ?n ?L = (mb', L')"
        using "1.prems"(3) Cons all
        by (simp add: msgbuf_drain.simps [of mb n L] ibuf_dequeue_head [OF Cons] del: not_None_eq)
      note ex = ib_iov_exhausted [OF inv all(2) "1.prems"(2)]
      have "unat ?n < 2 ^ 63"
        using "1.prems"(2) ex(2) by linarith
      then have IH: "mb_inv mb' \<and> mb_pend mb' = drop (unat ?n) (mb_pend ?mb)
          \<and> l_closed L' @ open_fds (mb_bufs mb') = l_closed ?L @ open_fds (mb_bufs ?mb)
          \<and> heap_ok L' = heap_ok ?L \<and> mb_fd mb' = mb_fd ?mb"
        using "1.IH" [OF Cons all(1) all(2) refl, of ?mb ?L] ibuf_dequeue_head [OF Cons, of L]
          dequeue_head_inv [OF "1.prems"(1) Cons] rec by simp
      have "drop (unat ?n) (mb_pend ?mb) = drop (unat n) (mb_pend mb)"
        using Cons ex by (simp add: mb_pend_def)
      moreover have "l_closed ?L @ open_fds (mb_bufs ?mb) = l_closed L @ open_fds (mb_bufs mb)"
        using Cons by (simp add: open_fds_def c_close_def)
      ultimately show ?thesis using IH by auto
    next
      case part
      note adv = ib_iov_advance [OF inv part(2) "1.prems"(2)]
      have "mb' = mb\<lparr>mb_bufs := b\<lparr>ib_rpos := ib_rpos b + n\<rparr> # bs\<rparr> \<and> L' = L"
        using "1.prems"(3) Cons part(1) part(2) [unfolded not_le [symmetric]]
        by (simp add: msgbuf_drain.simps [of mb n L])
      then show ?thesis
        using "1.prems"(1) Cons adv
        by (auto simp: mb_inv_def mb_pend_def open_fds_def)
    qed
  qed
qed

text \<open>The queue, with the library state its entries' descriptors are closed in, is a byte stream.\<close>

interpretation mbs: byte_stream "\<lambda>(mb, L). mb_pend mb"
  "\<lambda>n (mb, L). msgbuf_drain mb (word_of_nat n) L" "\<lambda>(mb, L). mb_inv mb"
proof unfold_locales
  fix q :: "msgbuf \<times> libc" and n :: nat
  obtain mb L mb' L' where q: "q = (mb, L)" "msgbuf_drain mb (word_of_nat n) L = (mb', L')"
    by (metis surj_pair)
  assume "case q of (mb, L) \<Rightarrow> mb_inv mb" and "n < 2 ^ 63"
  with q msgbuf_drain_ok [of mb "word_of_nat n" L mb' L']
  show "case case q of (mb, L) \<Rightarrow> msgbuf_drain mb (word_of_nat n) L of (mb, L) \<Rightarrow> mb_inv mb"
    and "(case case q of (mb, L) \<Rightarrow> msgbuf_drain mb (word_of_nat n) L of (mb, L) \<Rightarrow> mb_pend mb) =
      drop n (case q of (mb, L) \<Rightarrow> mb_pend mb)"
    by auto
qed

text \<open>
  Claim C19. Draining refines taking bytes off a stream: any sequence of partial writes of
  \<open>n1, n2, ...\<close> bytes leaves exactly the unsent suffix of the queued bytes, whatever the
  boundaries of the buffers, and keeps the queue well formed with \<open>queued\<close> equal to the
  number of entries.
\<close>

theorem msgbuf_drain_stream:
  assumes "mb_inv mb" and "\<forall>n \<in> set ns. n < 2 ^ 63"
    and "fold (\<lambda>n (mb, L). msgbuf_drain mb (word_of_nat n) L) ns (mb, L) = (mb', L')"
  shows "mb_pend mb' = drop (sum_list ns) (mb_pend mb)
    \<and> mb_queued mb' = word_of_nat (length (mb_bufs mb')) \<and> mb_inv mb'"
  using mbs.drain_many [of "(mb, L)" ns] assms by (simp add: mb_inv_def)

definition demo_msgbuf :: msgbuf where
  "demo_msgbuf = \<lparr>mb_bufs = [demo_ibuf, demo_ibuf\<lparr>ib_rpos := 1, ib_fd := 9\<rparr>], mb_queued = 2, mb_fd = 3\<rparr>"

lemma demo_msgbuf_inv [simp]: "mb_inv demo_msgbuf"
  by (simp add: mb_inv_def demo_msgbuf_def demo_ibuf_def ibuf_inv_def)

theorem msgbuf_drain_stream_witness:
  "mb_inv demo_msgbuf \<and> mb_pend demo_msgbuf = [1, 2, 2]
   \<and> mb_pend (fst (fold (\<lambda>n (mb, L). msgbuf_drain mb (word_of_nat n) L) [1, 1] (demo_msgbuf, demo_libc))) = [2]"
proof -
  have p: "mb_pend demo_msgbuf = [1, 2, 2]"
    by (simp add: mb_pend_def demo_msgbuf_def ib_iov_def demo_ibuf_def)
  have "\<forall>n \<in> set [1, 1]. n < (2 ^ 63 :: nat)" by simp
  moreover obtain mb' L' where
    "fold (\<lambda>n (mb, L). msgbuf_drain mb (word_of_nat n) L) [1, 1] (demo_msgbuf, demo_libc) = (mb', L')"
    by (metis surj_pair)
  ultimately show ?thesis
    using msgbuf_drain_stream [OF demo_msgbuf_inv, of "[1, 1]" demo_libc mb' L'] p by auto
qed

section \<open>Writing the queue to the socket\<close>

lemma gather_ok:
  assumes "gather i bs = (v, k)"
  shows "v = map ib_iov (take (length v) bs)"
    and "case k of None \<Rightarrow> length v = length bs \<and> (\<forall>b \<in> set bs. ib_fd b = -1)
         | Some j \<Rightarrow> j < length bs \<and> (\<forall>b \<in> set (take j bs). ib_fd b = -1)"
  using assms
proof (induction i bs arbitrary: v k rule: gather.induct)
  case (2 i b bs)
  {
    case 1
    with "2.IH" show ?case by (auto split: if_splits prod.splits)
  next
    case 2
    with "2.IH" show ?case by (fastforce split: if_splits prod.splits option.splits)
  }
qed auto

lemma concat_gather:
  assumes "gather 0 (mb_bufs mb) = (v, k)"
  shows "mb_pend mb = concat v @ concat (map ib_iov (drop (length v) (mb_bufs mb)))"
proof -
  have "mb_bufs mb = take (length v) (mb_bufs mb) @ drop (length v) (mb_bufs mb)"
    by simp
  then have "mb_pend mb = concat (map ib_iov (take (length v) (mb_bufs mb)))
      @ concat (map ib_iov (drop (length v) (mb_bufs mb)))"
    unfolding mb_pend_def by (metis concat_append map_append)
  then show ?thesis using gather_ok(1) [OF assms] by simp
qed

text \<open>Only the first descriptor of the queue is ever attached, and it is closed once sent.\<close>

lemma open_fds_skip: "\<forall>b \<in> set bs. ib_fd b = -1 \<Longrightarrow> open_fds bs = []"
  by (auto simp: open_fds_def)

lemma open_fds_append: "open_fds (xs @ ys) = open_fds xs @ open_fds ys"
  by (simp add: open_fds_def)

lemma attached_first:
  assumes "gather 0 (mb_bufs mb) = (v, k)" and "attached mb k = Some f"
  shows "open_fds (mb_bufs mb) = f # tl (open_fds (mb_bufs mb))"
proof -
  from assms(2) obtain j where j: "k = Some j" "ib_fd (mb_bufs mb ! j) = f" "f \<noteq> -1"
    by (auto simp: attached_def split: option.splits if_splits)
  with gather_ok(2) [OF assms(1)] have lt: "j < length (mb_bufs mb)"
    and pre: "\<forall>b \<in> set (take j (mb_bufs mb)). ib_fd b = -1" by auto
  have "mb_bufs mb = take j (mb_bufs mb) @ mb_bufs mb ! j # drop (Suc j) (mb_bufs mb)"
    using lt by (rule id_take_nth_drop)
  then have "open_fds (mb_bufs mb) = open_fds (mb_bufs mb ! j # drop (Suc j) (mb_bufs mb))"
    using open_fds_skip [OF pre] by (metis append_Nil open_fds_append)
  with j show ?thesis by (simp add: open_fds_def)
qed

lemma close_attached_ok:
  assumes g: "gather 0 (mb_bufs mb) = (v, k)" and c: "close_attached mb k L = (mb', L')"
    and inv: "mb_inv mb"
  shows "mb_inv mb' \<and> mb_pend mb' = mb_pend mb \<and> mb_fd mb' = mb_fd mb
    \<and> heap_ok L' = heap_ok L
    \<and> l_closed L' @ open_fds (mb_bufs mb') = l_closed L @ open_fds (mb_bufs mb)"
proof (cases "attached mb k")
  case None
  with c inv show ?thesis
    by (auto simp: close_attached_def split: option.splits)
next
  case (Some f)
  then obtain j where j: "k = Some j" "ib_fd (mb_bufs mb ! j) = f" "f \<noteq> -1"
    by (auto simp: attached_def split: option.splits if_splits)
  let ?b = "mb_bufs mb ! j"
  from gather_ok(2) [OF g] j(1) have lt: "j < length (mb_bufs mb)"
    and pre: "\<forall>b \<in> set (take j (mb_bufs mb)). ib_fd b = -1" by auto
  have res: "mb' = mb\<lparr>mb_bufs := (mb_bufs mb)[j := ?b\<lparr>ib_fd := -1\<rparr>]\<rparr>" "L' = c_close f L"
    using c Some j by (auto simp: close_attached_def)
  have iov: "map ib_iov ((mb_bufs mb)[j := ?b\<lparr>ib_fd := -1\<rparr>]) = map ib_iov (mb_bufs mb)"
    using lt by (simp add: map_update ib_iov_def list_update_same_conv)
  have split: "mb_bufs mb = take j (mb_bufs mb) @ ?b # drop (Suc j) (mb_bufs mb)"
    using lt by (rule id_take_nth_drop)
  have "open_fds ((mb_bufs mb)[j := ?b\<lparr>ib_fd := -1\<rparr>]) = open_fds (drop (Suc j) (mb_bufs mb))"
    using lt open_fds_skip [OF pre]
    by (simp add: upd_conv_take_nth_drop open_fds_append) (simp add: open_fds_def)
  moreover have "open_fds (mb_bufs mb) = f # open_fds (drop (Suc j) (mb_bufs mb))"
    by (subst split) (simp only: open_fds_append open_fds_skip [OF pre], simp add: open_fds_def j)
  moreover have "ibuf_inv (?b\<lparr>ib_fd := -1\<rparr>)"
    using inv lt by (simp add: mb_inv_def ibuf_inv_def)
  then have "\<forall>b \<in> set (mb_bufs mb'). ibuf_inv b"
    using inv res(1) set_update_subset_insert [of "mb_bufs mb" j "?b\<lparr>ib_fd := -1\<rparr>"]
    by (auto simp: mb_inv_def)
  ultimately show ?thesis
    using inv res iov by (auto simp: mb_inv_def mb_pend_def c_close_def)
qed

lemma msgbuf_drain_closes:
  "msgbuf_drain mb n L = (mb', L') \<Longrightarrow> \<exists>cs. l_closed L' = l_closed L @ cs"
proof (induction mb n L rule: msgbuf_drain.induct)
  case (1 mb n L)
  show ?case
  proof (cases "mb_bufs mb")
    case Nil
    with "1.prems" show ?thesis by (simp add: msgbuf_drain.simps [of mb n L])
  next
    case (Cons b bs)
    let ?L = "if ib_fd b \<noteq> -1 then c_close (ib_fd b) L else L"
    have step: "\<exists>cs. l_closed ?L = l_closed L @ cs"
      by (simp add: c_close_def)
    show ?thesis
    proof (cases "n \<noteq> 0 \<and> ib_rpos b + n \<ge> ib_wpos b")
      case True
      then have "\<exists>cs. l_closed L' = l_closed ?L @ cs"
        using "1.IH" [OF Cons _ _ refl] "1.prems" Cons
        by (simp add: msgbuf_drain.simps [of mb n L] ibuf_dequeue_head [OF Cons] split: if_splits)
      with step show ?thesis by (metis append_assoc)
    next
      case False
      with "1.prems" Cons show ?thesis
        by (auto simp: msgbuf_drain.simps [of mb n L] split: if_splits)
    qed
  qed
qed

text \<open>Draining never leaves an entry with nothing to send at the head of the queue.\<close>

definition no_empty :: "msgbuf \<Rightarrow> bool" where
  "no_empty mb \<longleftrightarrow> (\<forall>b \<in> set (mb_bufs mb). ib_iov b \<noteq> [])"

lemma msgbuf_drain_no_empty:
  assumes "mb_inv mb" and "unat n < 2 ^ 63" and "no_empty mb"
  shows "no_empty (fst (msgbuf_drain mb n L))"
  using assms
proof (induction mb n L rule: msgbuf_drain.induct)
  case (1 mb n L)
  show ?case
  proof (cases "mb_bufs mb")
    case Nil
    with "1.prems" show ?thesis by (simp add: msgbuf_drain.simps [of mb n L])
  next
    case (Cons b bs)
    have inv: "ibuf_inv b" using "1.prems"(1) Cons by (simp add: mb_inv_def)
    consider "n = 0" | (all) "n \<noteq> 0" "ib_rpos b + n \<ge> ib_wpos b"
      | (part) "n \<noteq> 0" "ib_rpos b + n < ib_wpos b"
      by (meson not_le)
    then show ?thesis
    proof cases
      case 1
      with "1.prems" Cons show ?thesis by (simp add: msgbuf_drain.simps [of mb 0 L])
    next
      case all
      have "unat (n - (ib_wpos b - ib_rpos b)) < 2 ^ 63"
        using ib_iov_exhausted(2) [OF inv all(2) "1.prems"(2)] "1.prems"(2) by linarith
      then show ?thesis
        using "1.IH" [OF Cons all refl] dequeue_head_inv [OF "1.prems"(1) Cons] "1.prems"(3) Cons all
        by (simp add: msgbuf_drain.simps [of mb n L] ibuf_dequeue_head [OF Cons] no_empty_def)
    next
      case part
      note adv = ib_iov_advance [OF inv part(2) "1.prems"(2)]
      then show ?thesis
        using "1.prems"(3) Cons part(1) part(2) [unfolded not_le [symmetric]]
        by (auto simp: msgbuf_drain.simps [of mb n L] no_empty_def)
    qed
  qed
qed

text \<open>What POSIX promises of \<open>sendmsg\<close>: it takes at most the bytes it was given.\<close>

definition sendmsg_ok :: "(bytes list \<Rightarrow> int option \<Rightarrow> io_res) \<Rightarrow> bool" where
  "sendmsg_ok K \<longleftrightarrow> (\<forall>iov f n. K iov f = Sent n \<longrightarrow> n \<le> length (concat iov) \<and> n < 2 ^ 63)"

lemma write_result_sent:
  assumes "mb_inv mb" and "n < 2 ^ 63" and "n \<noteq> 0" and "write_result (Sent n) mb L = (r, mb', L')"
  shows "r = 0 \<and> mb_inv mb' \<and> mb_pend mb' = drop n (mb_pend mb) \<and> mb_fd mb' = mb_fd mb
    \<and> heap_ok L' = heap_ok L
    \<and> l_closed L' @ open_fds (mb_bufs mb') = l_closed L @ open_fds (mb_bufs mb)
    \<and> (\<exists>cs. l_closed L' = l_closed L @ cs)"
proof -
  have d: "msgbuf_drain mb (word_of_nat n) L = (mb', L')" and r: "r = 0"
    using assms(3,4) by (auto simp: write_result_def split: prod.splits)
  have "unat (word_of_nat n :: size_t) = n" using assms(2) by simp
  with msgbuf_drain_ok [OF assms(1) _ d] msgbuf_drain_closes [OF d] assms(2) r show ?thesis
    by simp
qed

lemma msgbuf_write_ok:
  assumes inv: "mb_inv mb" and kern: "sendmsg_ok sendmsg"
    and res: "msgbuf_write sendmsg mb L = (r, mb', L')" and g: "gather 0 (mb_bufs mb) = (iov, k)"
  shows "mb_inv mb' \<and> heap_ok L' = heap_ok L \<and> (\<exists>rest. mb_pend mb = concat iov @ rest)
    \<and> l_closed L' @ open_fds (mb_bufs mb') = l_closed L @ open_fds (mb_bufs mb)
    \<and> (case sendmsg iov (attached mb k) of
         Sent n \<Rightarrow> r = (if n = 0 then -2 else 0) \<and> mb_pend mb' = drop n (mb_pend mb)
           \<and> (n > 0 \<longrightarrow> (\<forall>f. attached mb k = Some f \<longrightarrow> (\<exists>cs. l_closed L' = l_closed L @ f # cs)))
       | Failed e \<Rightarrow> mb' = mb \<and> l_errno L' = e
           \<and> r = (if e \<in> {EAGAIN, ENOBUFS, EINTR} then 0 else -1))"
proof (cases "sendmsg iov (attached mb k)")
  case (Failed e)
  with res g inv concat_gather [OF g] show ?thesis
    by (auto simp: msgbuf_write_def write_result_def set_errno_def split: if_splits)
next
  case (Sent n)
  show ?thesis
  proof (cases "n = 0")
    case True
    with Sent res g inv concat_gather [OF g] show ?thesis
      by (auto simp: msgbuf_write_def write_result_def set_errno_def)
  next
    case False
    obtain mb1 L1 where c: "close_attached mb k L = (mb1, L1)"
      by (metis surj_pair)
    with Sent res g False have w: "write_result (Sent n) mb1 L1 = (r, mb', L')"
      by (simp add: msgbuf_write_def)
    have n: "n < 2 ^ 63"
      using kern Sent by (auto simp: sendmsg_ok_def)
    note cl = close_attached_ok [OF g c inv]
    have "\<forall>f. attached mb k = Some f \<longrightarrow> l_closed L1 = l_closed L @ [f]"
      using c by (auto simp: close_attached_def attached_def c_close_def split: option.splits if_splits)
    with cl write_result_sent [OF _ n False w] Sent concat_gather [OF g] False show ?thesis
      by auto
  qed
qed

lemma close_attached_no_empty:
  assumes "no_empty mb" and "gather 0 (mb_bufs mb) = (iov, k)"
  shows "no_empty (fst (close_attached mb k L))"
proof -
  have j: "\<And>j. k = Some j \<Longrightarrow> j < length (mb_bufs mb)"
    using gather_ok [OF assms(2)] by auto
  then have "\<And>j. k = Some j \<Longrightarrow> ib_iov (mb_bufs mb ! j) \<noteq> []"
    using assms(1) by (simp add: no_empty_def)
  moreover have "\<And>b. ib_iov (b\<lparr>ib_fd := -1\<rparr>) = ib_iov b" by (simp add: ib_iov_def)
  ultimately show ?thesis
    using assms(1) j
    by (cases k) (auto simp: close_attached_def no_empty_def all_set_conv_all_nth nth_list_update
        split: option.splits if_splits)
qed

lemma msgbuf_write_no_empty:
  assumes inv: "mb_inv mb" and kern: "sendmsg_ok sendmsg" and ne: "no_empty mb"
  shows "no_empty (fst (snd (msgbuf_write sendmsg mb L)))"
proof -
  obtain iov k where g: "gather 0 (mb_bufs mb) = (iov, k)" by (metis surj_pair)
  show ?thesis
  proof (cases "sendmsg iov (attached mb k)")
    case (Failed e)
    with g ne show ?thesis by (simp add: msgbuf_write_def write_result_def)
  next
    case (Sent n)
    obtain mb1 L1 where c: "close_attached mb k L = (mb1, L1)" by (metis surj_pair)
    have n: "n < 2 ^ 63" using kern Sent by (auto simp: sendmsg_ok_def)
    then have u: "unat (word_of_nat n :: size_t) < 2 ^ 63" by simp
    have "mb_inv mb1" "no_empty mb1"
      using close_attached_ok [OF g c inv] close_attached_no_empty [OF ne g, of L] c by auto
    from msgbuf_drain_no_empty [OF this(1) u this(2), of L1] Sent g ne c show ?thesis
      by (cases "n = 0") (auto simp: msgbuf_write_def write_result_def Let_def split: prod.splits)
  qed
qed

text \<open>
  Claim C17. One write of the queue. The vector handed to \<open>sendmsg\<close> is a prefix of the
  queued bytes. If \<open>n > 0\<close> bytes were taken the result is 0, exactly the first \<open>n\<close>
  bytes leave the queue, and an attached descriptor is closed; if nothing was taken the
  result is -2; a transient error gives 0 and any other error -1, the queue unchanged.
  Descriptors are conserved: those closed so far followed by those still queued is always
  the same sequence, so none is closed twice or skipped.
\<close>

theorem msgbuf_write_correct:
  assumes "mb_inv mb" and "sendmsg_ok sendmsg"
    and "msgbuf_write sendmsg mb L = (r, mb', L')" and "gather 0 (mb_bufs mb) = (iov, k)"
  shows "mb_inv mb' \<and> (\<exists>rest. mb_pend mb = concat iov @ rest)
    \<and> l_closed L' @ open_fds (mb_bufs mb') = l_closed L @ open_fds (mb_bufs mb)
    \<and> (case sendmsg iov (attached mb k) of
         Sent n \<Rightarrow> r = (if n = 0 then -2 else 0) \<and> mb_pend mb' = drop n (mb_pend mb)
           \<and> (n > 0 \<longrightarrow> (\<forall>f. attached mb k = Some f \<longrightarrow> (\<exists>cs. l_closed L' = l_closed L @ f # cs)))
       | Failed e \<Rightarrow> mb' = mb \<and> l_errno L' = e
           \<and> r = (if e \<in> {EAGAIN, ENOBUFS, EINTR} then 0 else -1))"
  using msgbuf_write_ok [OF assms] by simp

definition demo_sendmsg :: "bytes list \<Rightarrow> int option \<Rightarrow> io_res" where
  "demo_sendmsg iov f = Sent (min (length (concat iov)) 65536)"

lemma demo_sendmsg_ok [simp]: "sendmsg_ok demo_sendmsg"
  by (auto simp: sendmsg_ok_def demo_sendmsg_def)

theorem msgbuf_write_correct_witness:
  "gather 0 (mb_bufs demo_msgbuf) = ([[1, 2], [2]], Some 1)
   \<and> attached demo_msgbuf (Some 1) = Some 9
   \<and> (\<exists>mb' L'. msgbuf_write demo_sendmsg demo_msgbuf demo_libc = (0, mb', L')
        \<and> mb_pend mb' = [] \<and> (\<exists>cs. l_closed L' = l_closed demo_libc @ 9 # cs))"
proof -
  have g: "gather 0 (mb_bufs demo_msgbuf) = ([[1, 2], [2]], Some 1)"
    by (simp add: demo_msgbuf_def demo_ibuf_def IOV_MAX_def ib_iov_def)
  have a: "attached demo_msgbuf (Some 1) = Some 9"
    by (simp add: attached_def demo_msgbuf_def)
  obtain r mb' L' where w: "msgbuf_write demo_sendmsg demo_msgbuf demo_libc = (r, mb', L')"
    by (metis surj_pair)
  have p: "mb_pend demo_msgbuf = [1, 2, 2]"
    by (simp add: mb_pend_def demo_msgbuf_def ib_iov_def demo_ibuf_def)
  show ?thesis
    using msgbuf_write_correct [OF demo_msgbuf_inv demo_sendmsg_ok w g] w g a p
    by (simp add: demo_sendmsg_def)
qed

end
