(* ===== verification/Imsg.thy ===== *)
theory Imsg
  imports Ibuf
begin

text \<open>
  The message channel between the privileged and the unprivileged process:
  \<open>sys/unix/imsg.c\<close> with the structures of \<open>include/imsg.h\<close>. A message is a 16-byte
  header, whose \<open>len\<close> counts header and data, followed by its data; a descriptor may
  travel with it. The receive buffer \<open>r\<close> is represented by its first \<open>wpos\<close> bytes,
  the only ones the code reads.
\<close>

section \<open>Data\<close>

record imsg_hdr =
  h_type :: u32
  h_len :: u16
  h_flags :: u16
  h_peerid :: u32
  h_pid :: u32

record imsg =
  i_hdr :: imsg_hdr
  i_fd :: int
  i_data :: bytes

record imsgbuf =
  im_fds :: "int list"
  im_r :: bytes
  im_w :: msgbuf
  im_fd :: int
  im_pid :: u32

definition IMSG_HEADER_SIZE :: nat where
  "IMSG_HEADER_SIZE = 16"

definition MAX_IMSGSIZE :: nat where
  "MAX_IMSGSIZE = 16384"

definition IBUF_READ_SIZE :: nat where
  "IBUF_READ_SIZE = 65535"

definition IMSGF_HASFD :: u16 where
  "IMSGF_HASFD = 1"

text \<open>\<open>sizeof (struct imsg_fd)\<close> on the LP64 host.\<close>

definition sizeof_imsg_fd :: nat where
  "sizeof_imsg_fd = 24"

text \<open>The object representation of a header.\<close>

definition hdr_bytes :: "imsg_hdr \<Rightarrow> bytes" where
  "hdr_bytes h = le32 (h_type h) @ le16 (h_len h) @ le16 (h_flags h) @ le32 (h_peerid h) @ le32 (h_pid h)"

definition hdr_of :: "bytes \<Rightarrow> imsg_hdr" where
  "hdr_of bs = \<lparr>h_type = of_le32 bs, h_len = of_le16 (drop 4 bs), h_flags = of_le16 (drop 6 bs),
     h_peerid = of_le32 (drop 8 bs), h_pid = of_le32 (drop 12 bs)\<rparr>"

section \<open>Receiving\<close>

text \<open>
  A control message: descriptors (the code takes the first one), or data of another level
  or type. \<open>recv_res\<close> is what \<open>recvmsg\<close> did.
\<close>

datatype cmsg = Rights int "int list" | Other_cmsg

datatype recv_res = Received bytes "cmsg list" | Recv_failed errno

definition imsg_init :: "int \<Rightarrow> u32 \<Rightarrow> imsgbuf" where
  "imsg_init fd getpid =
     \<lparr>im_fds = [], im_r = [], im_w = msgbuf_init\<lparr>mb_fd := fd\<rparr>, im_fd = fd, im_pid = getpid\<rparr>"

text \<open>The loop over the control messages; \<open>False\<close> is the early \<open>return (-1)\<close>.\<close>

fun read_cmsgs :: "cmsg list \<Rightarrow> imsgbuf \<Rightarrow> libc \<Rightarrow> bool \<times> imsgbuf \<times> libc" where
  "read_cmsgs [] ib L = (True, ib, L)"
| "read_cmsgs (Other_cmsg # cs) ib L = read_cmsgs cs ib L"
| "read_cmsgs (Rights fd _ # cs) ib L =
     (case c_malloc sizeof_imsg_fd L of
        (None, L1) \<Rightarrow> (False, ib, c_close fd L1)
      | (Some _, L1) \<Rightarrow> read_cmsgs cs (ib\<lparr>im_fds := im_fds ib @ [fd]\<rparr>) L1)"

definition imsg_read :: "recv_res \<Rightarrow> imsgbuf \<Rightarrow> libc \<Rightarrow> int \<times> imsgbuf \<times> libc" where
  "imsg_read recvmsg ib L =
     (case recvmsg of
        Recv_failed e \<Rightarrow> (if e \<noteq> EINTR \<and> e \<noteq> EAGAIN then (-1, ib, set_errno e L)
                          else (-2, ib, set_errno e L))
      | Received d cs \<Rightarrow>
          (case read_cmsgs cs (ib\<lparr>im_r := im_r ib @ d\<rparr>) L of
             (ok, ib1, L1) \<Rightarrow> (if ok then int (length d) else -1, ib1, L1)))"

definition imsg_get_fd :: "imsgbuf \<Rightarrow> int \<times> imsgbuf" where
  "imsg_get_fd ib =
     (case im_fds ib of [] \<Rightarrow> (-1, ib) | f # fs \<Rightarrow> (f, ib\<lparr>im_fds := fs\<rparr>))"

definition imsg_get :: "imsgbuf \<Rightarrow> libc \<Rightarrow> int \<times> imsg option \<times> imsgbuf \<times> libc" where
  "imsg_get ib L =
     (let av = length (im_r ib) in
      if IMSG_HEADER_SIZE > av then (0, None, ib, L)
      else
        let hdr = hdr_of (im_r ib); len = unat (h_len hdr) in
        if len < IMSG_HEADER_SIZE \<or> len > MAX_IMSGSIZE then (-1, None, ib, set_errno ERANGE L)
        else if len > av then (0, None, ib, L)
        else
          let datalen = len - IMSG_HEADER_SIZE in
          case c_malloc datalen L of
            (None, L1) \<Rightarrow> (-1, None, ib, L1)
          | (Some _, L1) \<Rightarrow>
              let (fd, ib1) = (if h_flags hdr AND IMSGF_HASFD \<noteq> 0 then imsg_get_fd ib else (-1, ib));
                  data = take datalen (drop IMSG_HEADER_SIZE (im_r ib1));
                  ib2 = (if len < av then ib1\<lparr>im_r := drop len (im_r ib1)\<rparr> else ib1\<lparr>im_r := []\<rparr>)
              in (int (datalen + IMSG_HEADER_SIZE),
                  Some \<lparr>i_hdr = hdr, i_fd = fd, i_data = data\<rparr>, ib2, L1))"

section \<open>Sending\<close>

text \<open>
  \<open>imsg_add\<close> gets the bytes at \<open>data\<close> and a 16-bit count of them; on failure the buffer
  is freed, here \<open>None\<close>.
\<close>

definition imsg_add :: "ibuf \<Rightarrow> bytes \<Rightarrow> u16 \<Rightarrow> libc \<Rightarrow> (int \<times> ibuf option \<times> libc) option" where
  "imsg_add msg data datalen L =
     (if datalen = 0 then Some (0, Some msg, L)
      else if length data < unat datalen then None
      else case ibuf_add msg (take (unat datalen) data) L of
             None \<Rightarrow> None
           | Some (r, msg1, L1) \<Rightarrow>
               (if r = -1 then Some (-1, None, L1) else Some (int (unat datalen), Some msg1, L1)))"

text \<open>
  The field \<open>len\<close> of the header is not set before \<open>imsg_close\<close>: it is indeterminate,
  two arbitrary bytes.
\<close>

definition imsg_create ::
    "imsgbuf \<Rightarrow> u32 \<Rightarrow> u32 \<Rightarrow> u32 \<Rightarrow> u16 \<Rightarrow> libc \<Rightarrow> (ibuf option \<times> libc) option" where
  "imsg_create ib type peerid pid datalen L =
     (let datalen1 = datalen + word_of_nat IMSG_HEADER_SIZE in
      if unat datalen1 > MAX_IMSGSIZE then Some (None, set_errno ERANGE L)
      else
        let hdr = \<lparr>h_type = type, h_len = of_le16 [l_junk L (l_allocs L) 0, l_junk L (l_allocs L) 1],
                   h_flags = 0, h_peerid = peerid, h_pid = (if pid = 0 then im_pid ib else pid)\<rparr> in
        case ibuf_dynamic (ucast datalen1) (word_of_nat MAX_IMSGSIZE) L of
          (None, L1) \<Rightarrow> Some (None, L1)
        | (Some wbuf, L1) \<Rightarrow>
            (case imsg_add wbuf (hdr_bytes hdr) (word_of_nat IMSG_HEADER_SIZE) L1 of
               None \<Rightarrow> None
             | Some (r, wbuf1, L2) \<Rightarrow> Some (if r = -1 then None else wbuf1, L2)))"

definition imsg_close :: "imsgbuf \<Rightarrow> ibuf \<Rightarrow> imsgbuf option" where
  "imsg_close ib msg =
     (if length (ib_buf msg) < IMSG_HEADER_SIZE then None
      else
        let hdr = hdr_of (ib_buf msg);
            flags = h_flags hdr AND NOT IMSGF_HASFD;
            flags1 = (if ib_fd msg \<noteq> -1 then flags OR IMSGF_HASFD else flags);
            hdr1 = hdr\<lparr>h_flags := flags1, h_len := ucast (ib_wpos msg)\<rparr>;
            msg1 = msg\<lparr>ib_buf := hdr_bytes hdr1 @ drop IMSG_HEADER_SIZE (ib_buf msg)\<rparr>
        in Some (ib\<lparr>im_w := ibuf_close (im_w ib) msg1\<rparr>))"

definition imsg_compose ::
    "imsgbuf \<Rightarrow> u32 \<Rightarrow> u32 \<Rightarrow> u32 \<Rightarrow> int \<Rightarrow> bytes \<Rightarrow> u16 \<Rightarrow> libc \<Rightarrow> (int \<times> imsgbuf \<times> libc) option" where
  "imsg_compose ib type peerid pid fd data datalen L =
     (case imsg_create ib type peerid pid datalen L of
        None \<Rightarrow> None
      | Some (None, L1) \<Rightarrow> Some (-1, ib, L1)
      | Some (Some wbuf, L1) \<Rightarrow>
          (case imsg_add wbuf data datalen L1 of
             None \<Rightarrow> None
           | Some (r, None, L2) \<Rightarrow> Some (-1, ib, L2)
           | Some (r, Some wbuf1, L2) \<Rightarrow>
               map_option (\<lambda>ib1. (1, ib1, L2)) (imsg_close ib (wbuf1\<lparr>ib_fd := fd\<rparr>))))"

text \<open>The copying loop of \<open>imsg_composev\<close>: each \<open>iov_len\<close> is narrowed to 16 bits by the call.\<close>

fun add_iovs :: "ibuf \<Rightarrow> bytes list \<Rightarrow> libc \<Rightarrow> (ibuf option \<times> libc) option" where
  "add_iovs wbuf [] L = Some (Some wbuf, L)"
| "add_iovs wbuf (v # vs) L =
     (case imsg_add wbuf v (word_of_nat (length v)) L of
        None \<Rightarrow> None
      | Some (r, None, L1) \<Rightarrow> Some (None, L1)
      | Some (r, Some wbuf1, L1) \<Rightarrow> add_iovs wbuf1 vs L1)"

definition imsg_composev ::
    "imsgbuf \<Rightarrow> u32 \<Rightarrow> u32 \<Rightarrow> u32 \<Rightarrow> int \<Rightarrow> bytes list \<Rightarrow> libc \<Rightarrow> (int \<times> imsgbuf \<times> libc) option" where
  "imsg_composev ib type peerid pid fd iov L =
     (let datalen = word_of_nat (sum_list (map length iov)) :: u32 in
      case imsg_create ib type peerid pid (ucast datalen) L of
        None \<Rightarrow> None
      | Some (None, L1) \<Rightarrow> Some (-1, ib, L1)
      | Some (Some wbuf, L1) \<Rightarrow>
          (case add_iovs wbuf iov L1 of
             None \<Rightarrow> None
           | Some (None, L2) \<Rightarrow> Some (-1, ib, L2)
           | Some (Some wbuf1, L2) \<Rightarrow>
               map_option (\<lambda>ib1. (1, ib1, L2)) (imsg_close ib (wbuf1\<lparr>ib_fd := fd\<rparr>))))"

text \<open>
  The loop of \<open>imsg_flush\<close> over the kernel's answers to its successive \<open>sendmsg\<close> calls;
  \<open>None\<close>: it has not returned when the answers given are used up.
\<close>

fun imsg_flush ::
    "(bytes list \<Rightarrow> int option \<Rightarrow> io_res) list \<Rightarrow> imsgbuf \<Rightarrow> libc \<Rightarrow> (int \<times> imsgbuf \<times> libc) option" where
  "imsg_flush [] ib L = (if mb_queued (im_w ib) = 0 then Some (0, ib, L) else None)"
| "imsg_flush (K # ks) ib L =
     (if mb_queued (im_w ib) = 0 then Some (0, ib, L)
      else case msgbuf_write K (im_w ib) L of
             (r, w1, L1) \<Rightarrow>
               (if r < 0 then Some (-1, ib\<lparr>im_w := w1\<rparr>, L1)
                else imsg_flush ks (ib\<lparr>im_w := w1\<rparr>) L1))"

text \<open>The second loop of \<open>imsg_clear\<close> stops at the first -1 it gets.\<close>

fun close_fds :: "int list \<Rightarrow> libc \<Rightarrow> int list \<times> libc" where
  "close_fds [] L = ([], L)"
| "close_fds (f # fs) L = (if f = -1 then (fs, L) else close_fds fs (c_close f L))"

definition imsg_clear :: "imsgbuf \<Rightarrow> libc \<Rightarrow> imsgbuf \<times> libc" where
  "imsg_clear ib L =
     (let (w1, L1) = msgbuf_clear (im_w ib) L; (fs, L2) = close_fds (im_fds ib) L1
      in (ib\<lparr>im_w := w1, im_fds := fs\<rparr>, L2))"

section \<open>The wire format\<close>

lemma length_hdr_bytes [simp]: "length (hdr_bytes h) = 16"
  by (simp add: hdr_bytes_def)

lemma hdr_of_bytes [simp]: "hdr_of (hdr_bytes h @ r) = h"
  by (simp add: hdr_of_def hdr_bytes_def)

lemma hdr_of_exact [simp]: "hdr_of (hdr_bytes h) = h"
  using hdr_of_bytes [of h "[]"] by simp

text \<open>The message a stream starts with: the specification of \<open>imsg_get\<close> on bytes alone.\<close>

definition imsg_next :: "bytes \<Rightarrow> (imsg_hdr \<times> bytes) frame_res" where
  "imsg_next bs =
     (if length bs < IMSG_HEADER_SIZE then More
      else let h = hdr_of bs; len = unat (h_len h) in
        if len < IMSG_HEADER_SIZE \<or> len > MAX_IMSGSIZE then Bad
        else if length bs < len then More
        else Frame (h, take (len - IMSG_HEADER_SIZE) (drop IMSG_HEADER_SIZE bs)) (drop len bs))"

definition imsg_enc :: "imsg_hdr \<times> bytes \<Rightarrow> bytes" where
  "imsg_enc m = hdr_bytes (fst m) @ snd m"

definition imsg_wf :: "imsg_hdr \<times> bytes \<Rightarrow> bool" where
  "imsg_wf m \<longleftrightarrow> unat (h_len (fst m)) = IMSG_HEADER_SIZE + length (snd m)
     \<and> IMSG_HEADER_SIZE + length (snd m) \<le> MAX_IMSGSIZE"

lemmas imsg_consts = IMSG_HEADER_SIZE_def MAX_IMSGSIZE_def IBUF_READ_SIZE_def IMSGF_HASFD_def

interpretation imsgs: framing imsg_enc imsg_next imsg_wf
proof unfold_locales
  fix m :: "imsg_hdr \<times> bytes" and r :: bytes and n :: nat
  assume wf: "imsg_wf m"
  then show "imsg_next (imsg_enc m @ r) = Frame m r"
    by (auto simp: imsg_next_def imsg_enc_def imsg_wf_def imsg_consts)
  show "imsg_enc m \<noteq> []"
    by (metis append_is_Nil_conv imsg_enc_def length_hdr_bytes list.size(3) zero_neq_numeral)
  assume n: "n < length (imsg_enc m)"
  show "imsg_next (take n (imsg_enc m)) = More"
  proof (cases "n < IMSG_HEADER_SIZE")
    case True
    with n show ?thesis by (simp add: imsg_next_def)
  next
    case False
    then have "take n (imsg_enc m) = hdr_bytes (fst m) @ take (n - 16) (snd m)"
      by (simp add: imsg_enc_def imsg_consts)
    with False wf n show ?thesis
      by (simp add: imsg_next_def imsg_wf_def imsg_enc_def imsg_consts)
  qed
next
  show "imsg_next [] = More"
    by (simp add: imsg_next_def imsg_consts)
qed

section \<open>Receiving: functional behaviour\<close>

text \<open>The descriptor a message carries is the oldest one received.\<close>

definition fd_of :: "imsg_hdr \<Rightarrow> int list \<Rightarrow> int \<times> int list" where
  "fd_of h fds = (if h_flags h AND IMSGF_HASFD \<noteq> 0
     then (case fds of [] \<Rightarrow> (-1, []) | f # fs \<Rightarrow> (f, fs)) else (-1, fds))"

lemma imsg_get_ok:
  "imsg_get ib L =
     (case imsg_next (im_r ib) of
        More \<Rightarrow> (0, None, ib, L)
      | Bad \<Rightarrow> (-1, None, ib, set_errno ERANGE L)
      | Frame (h, d) r \<Rightarrow>
          (case c_malloc (length d) L of
             (None, L1) \<Rightarrow> (-1, None, ib, L1)
           | (Some _, L1) \<Rightarrow>
               (int (length d + IMSG_HEADER_SIZE),
                Some \<lparr>i_hdr = h, i_fd = fst (fd_of h (im_fds ib)), i_data = d\<rparr>,
                ib\<lparr>im_r := r, im_fds := snd (fd_of h (im_fds ib))\<rparr>, L1)))"
proof (cases "imsg_next (im_r ib)")
  case (Frame hd' r)
  then obtain h d where f: "imsg_next (im_r ib) = Frame (h, d) r" by (cases hd') auto
  let ?n = "unat (h_len h)"
  have h: "h = hdr_of (im_r ib)" "IMSG_HEADER_SIZE \<le> length (im_r ib)" "IMSG_HEADER_SIZE \<le> ?n"
    "?n \<le> MAX_IMSGSIZE" "?n \<le> length (im_r ib)"
    "d = take (?n - IMSG_HEADER_SIZE) (drop IMSG_HEADER_SIZE (im_r ib))" "r = drop ?n (im_r ib)"
    using f by (auto simp: imsg_next_def Let_def split: if_splits)
  have len: "length d = ?n - IMSG_HEADER_SIZE" using h by simp
  show ?thesis
    unfolding f
    using h len
    by (auto simp: imsg_get_def Let_def fd_of_def imsg_get_fd_def
        split: option.splits prod.splits list.splits)
next
  case More
  then show ?thesis
    by (auto simp: imsg_get_def imsg_next_def Let_def split: if_splits)
next
  case Bad
  then show ?thesis
    by (auto simp: imsg_get_def imsg_next_def Let_def split: if_splits)
qed

text \<open>A reader that waits for more bytes always has room for them.\<close>

lemma imsg_next_more_bound: "imsg_next bs = More \<Longrightarrow> length bs < MAX_IMSGSIZE"
  by (auto simp: imsg_next_def imsg_consts Let_def split: if_splits)

section \<open>Sending: functional behaviour\<close>

lemma imsg_add_ok:
  assumes inv: "ibuf_inv b" and heap: "heap_ok L" and n: "unat n \<le> length data"
  shows "\<exists>r m L'. imsg_add b data n L = Some (r, m, L') \<and> heap_ok L' \<and> l_closed L' = l_closed L
    \<and> (case m of
         None \<Rightarrow> r = -1
       | Some b' \<Rightarrow> r = int (unat n) \<and> ibuf_inv b' \<and> ib_written b' = ib_written b @ take (unat n) data
           \<and> ib_rpos b' = ib_rpos b \<and> ib_fd b' = ib_fd b \<and> ib_max b' = ib_max b)"
proof (cases "n = 0")
  case True
  with assms show ?thesis by (simp add: imsg_add_def)
next
  case False
  let ?d = "take (unat n) data"
  have "unat n < 2 ^ 16"
    using unsigned_less [of n] by simp
  then have "length ?d < 2 ^ 63" by simp
  from ibuf_add_ok [OF inv heap this] obtain r b' L' where
    add: "ibuf_add b ?d L = Some (r, b', L')" "ibuf_inv b'" "heap_ok L'" "l_closed L' = l_closed L"
    and res: "r = 0 \<and> ib_written b' = ib_written b @ ?d \<and> ib_rpos b' = ib_rpos b \<and> ib_fd b' = ib_fd b
        \<and> ib_max b' = ib_max b \<or> r = -1"
    by (elim exE conjE) (simp split: if_splits)
  then show ?thesis
    using n False by (auto simp: imsg_add_def)
qed

text \<open>The header of a message as \<open>imsg_close\<close> leaves it.\<close>

definition compose_hdr :: "imsgbuf \<Rightarrow> u32 \<Rightarrow> u32 \<Rightarrow> u32 \<Rightarrow> int \<Rightarrow> nat \<Rightarrow> imsg_hdr" where
  "compose_hdr ib type peerid pid fd n =
     \<lparr>h_type = type, h_len = word_of_nat (IMSG_HEADER_SIZE + n),
      h_flags = (if fd \<noteq> -1 then IMSGF_HASFD else 0), h_peerid = peerid,
      h_pid = (if pid = 0 then im_pid ib else pid)\<rparr>"

lemma ibuf_dynamic_fields:
  "ibuf_dynamic len mx L = (Some b, L') \<Longrightarrow> mx > 0 \<Longrightarrow>
   ib_max b = mx \<and> ib_wpos b = 0 \<and> ib_rpos b = 0 \<and> ib_fd b = -1"
  by (auto simp: ibuf_dynamic_def ibuf_open_def split: if_splits prod.splits option.splits)

lemma imsg_create_ok:
  assumes heap: "heap_ok L"
  shows "\<exists>m L'. imsg_create ib type peerid pid datalen L = Some (m, L') \<and> heap_ok L'
    \<and> l_closed L' = l_closed L
    \<and> (case m of
         None \<Rightarrow> True
       | Some b \<Rightarrow> ibuf_inv b \<and> ib_rpos b = 0 \<and> ib_fd b = -1
           \<and> unat (ib_max b) = MAX_IMSGSIZE
           \<and> unat (datalen + word_of_nat IMSG_HEADER_SIZE) \<le> MAX_IMSGSIZE
           \<and> (\<exists>len. ib_written b = hdr_bytes (compose_hdr ib type peerid pid (-1) 0\<lparr>h_len := len\<rparr>)))"
proof -
  let ?d = "datalen + word_of_nat IMSG_HEADER_SIZE"
  let ?hdr = "\<lparr>h_type = type, h_len = of_le16 [l_junk L (l_allocs L) 0, l_junk L (l_allocs L) 1],
                   h_flags = 0, h_peerid = peerid, h_pid = (if pid = 0 then im_pid ib else pid)\<rparr>"
  show ?thesis
  proof (cases "unat ?d > MAX_IMSGSIZE")
    case True
    with heap show ?thesis by (simp add: imsg_create_def set_errno_def heap_ok_def)
  next
    case False
    obtain m L1 where dyn: "ibuf_dynamic (ucast ?d) (word_of_nat MAX_IMSGSIZE) L = (m, L1)"
      by (metis surj_pair)
    note fr = ibuf_dynamic_heap [OF dyn]
    show ?thesis
    proof (cases m)
      case None
      with False dyn fr heap show ?thesis by (simp add: imsg_create_def Let_def)
    next
      case (Some b)
      note dyn = dyn [unfolded Some]
      have inv: "ibuf_inv b" using ibuf_dynamic_inv [OF dyn heap] .
      have pos: "(0 :: size_t) < word_of_nat MAX_IMSGSIZE" by (simp add: imsg_consts)
      note fields = ibuf_dynamic_fields [OF dyn pos]
      have "unat (word_of_nat IMSG_HEADER_SIZE :: u16) \<le> length (hdr_bytes ?hdr)"
        by (simp add: imsg_consts)
      from imsg_add_ok [OF inv _ this, of L1] fr heap obtain r m' L2 where
        add: "imsg_add b (hdr_bytes ?hdr) (word_of_nat IMSG_HEADER_SIZE) L1 = Some (r, m', L2)"
          "heap_ok L2" "l_closed L2 = l_closed L1"
        and m': "case m' of None \<Rightarrow> r = -1
          | Some b' \<Rightarrow> r = int (unat (word_of_nat IMSG_HEADER_SIZE :: u16)) \<and> ibuf_inv b'
              \<and> ib_written b' = ib_written b @ take (unat (word_of_nat IMSG_HEADER_SIZE :: u16)) (hdr_bytes ?hdr)
              \<and> ib_rpos b' = ib_rpos b \<and> ib_fd b' = ib_fd b \<and> ib_max b' = ib_max b"
        by blast
      have e: "imsg_create ib type peerid pid datalen L = Some (if r = -1 then None else m', L2)"
        using False dyn add by (simp add: imsg_create_def Let_def)
      have w0: "ib_written b = []" using fields by (simp add: ib_written_def)
      have h: "?hdr = compose_hdr ib type peerid pid (-1) 0\<lparr>h_len := of_le16 [l_junk L (l_allocs L) 0, l_junk L (l_allocs L) 1]\<rparr>"
        by (simp add: compose_hdr_def)
      show ?thesis
        using e m' add fr False fields w0 heap
        by (cases m') (auto simp: imsg_consts compose_hdr_def
            intro!: exI [of _ "of_le16 [l_junk L (l_allocs L) 0, l_junk L (l_allocs L) 1]"])
    qed
  qed
qed

lemma imsg_close_ok:
  assumes inv: "ibuf_inv b" and w: "ib_written b = hdr_bytes h @ d" and r: "ib_rpos b = 0"
    and small: "IMSG_HEADER_SIZE + length d < 2 ^ 16" and fl: "h_flags h = 0"
  shows "\<exists>b'. imsg_close ib b = Some (ib\<lparr>im_w := ibuf_enqueue (im_w ib) b'\<rparr>) \<and> ibuf_inv b'
    \<and> ib_fd b' = ib_fd b
    \<and> ib_iov b' = imsg_enc (h\<lparr>h_flags := if ib_fd b \<noteq> -1 then IMSGF_HASFD else 0,
                                 h_len := word_of_nat (IMSG_HEADER_SIZE + length d)\<rparr>, d)"
proof -
  have wp: "unat (ib_wpos b) = IMSG_HEADER_SIZE + length d"
    using length_ib_written [OF inv] w by (simp add: imsg_consts)
  then have len: "ucast (ib_wpos b) = (word_of_nat (IMSG_HEADER_SIZE + length d) :: u16)"
    by (simp add: unsigned_ucast_eq word_eq_iff_unsigned flip: wp)
  have long: "16 \<le> length (ib_buf b)"
    using ibuf_inv_bounds(2) [OF inv] wp by (simp add: imsg_consts)
  have split: "take (16 + length d) (ib_buf b) = hdr_bytes h @ d"
    using w wp by (simp add: ib_written_def imsg_consts)
  have buf: "take 16 (ib_buf b) = hdr_bytes h" "take (length d) (drop 16 (ib_buf b)) = d"
    using arg_cong [OF split, of "take 16"] arg_cong [OF split, of "drop 16"] long
    by (simp_all add: min_def drop_take)
  then have h: "hdr_of (ib_buf b) = h"
    by (metis append_take_drop_id hdr_of_bytes)
  let ?h = "h\<lparr>h_flags := if ib_fd b \<noteq> -1 then IMSGF_HASFD else 0,
              h_len := word_of_nat (IMSG_HEADER_SIZE + length d)\<rparr>"
  let ?b = "b\<lparr>ib_buf := hdr_bytes ?h @ drop IMSG_HEADER_SIZE (ib_buf b)\<rparr>"
  have "imsg_close ib b = Some (ib\<lparr>im_w := ibuf_enqueue (im_w ib) ?b\<rparr>)"
    using long h fl len by (simp add: imsg_close_def ibuf_close_def IMSG_HEADER_SIZE_def Let_def)
  moreover have "ibuf_inv ?b"
    using inv long by (auto simp: ibuf_inv_def imsg_consts)
  moreover from this have "ib_iov ?b = imsg_enc (?h, d)"
    using r wp buf by (simp add: ib_iov_written ib_written_def imsg_enc_def imsg_consts)
  ultimately show ?thesis by fastforce
qed

text \<open>
  \<open>imsg_compose\<close> never leaves a partial message behind: it queues the whole message, or it
  returns -1 and the queue is as before. Either way no descriptor is closed.
\<close>

lemma imsg_compose_ok:
  assumes heap: "heap_ok L" and n: "unat n \<le> length data" and w: "mb_inv (im_w ib)"
    and room: "Suc (length (mb_bufs (im_w ib))) < 2 ^ 32"
  shows "\<exists>r ib' L'. imsg_compose ib type peerid pid fd data n L = Some (r, ib', L') \<and> heap_ok L'
    \<and> l_closed L' = l_closed L \<and> mb_inv (im_w ib')
    \<and> (r = 1 \<and> IMSG_HEADER_SIZE + unat n \<le> MAX_IMSGSIZE \<and> ib' = ib\<lparr>im_w := im_w ib'\<rparr>
         \<and> mb_pend (im_w ib') = mb_pend (im_w ib)
             @ imsg_enc (compose_hdr ib type peerid pid fd (unat n), take (unat n) data)
         \<and> open_fds (mb_bufs (im_w ib')) = open_fds (mb_bufs (im_w ib)) @ (if fd = -1 then [] else [fd])
       \<or> r = -1 \<and> ib' = ib)"
proof -
  from imsg_create_ok [OF heap, of ib type peerid pid n] obtain m L1 where
    cr: "imsg_create ib type peerid pid n L = Some (m, L1)" "heap_ok L1" "l_closed L1 = l_closed L"
    and m: "case m of None \<Rightarrow> True
       | Some b \<Rightarrow> ibuf_inv b \<and> ib_rpos b = 0 \<and> ib_fd b = -1
           \<and> unat (ib_max b) = MAX_IMSGSIZE
           \<and> unat (n + word_of_nat IMSG_HEADER_SIZE) \<le> MAX_IMSGSIZE
           \<and> (\<exists>len. ib_written b = hdr_bytes (compose_hdr ib type peerid pid (-1) 0\<lparr>h_len := len\<rparr>))"
    by blast
  show ?thesis
  proof (cases m)
    case None
    with cr w show ?thesis by (simp add: imsg_compose_def)
  next
    case (Some b)
    with m obtain len where b: "ibuf_inv b" "ib_rpos b = 0" "ib_fd b = -1" "unat (ib_max b) = MAX_IMSGSIZE"
      and wr: "ib_written b = hdr_bytes (compose_hdr ib type peerid pid (-1) 0\<lparr>h_len := len\<rparr>)"
      by auto
    from imsg_add_ok [OF b(1) cr(2) n] obtain r m' L2 where
      add: "imsg_add b data n L1 = Some (r, m', L2)" "heap_ok L2" "l_closed L2 = l_closed L1"
      and m': "case m' of None \<Rightarrow> r = -1
         | Some b' \<Rightarrow> r = int (unat n) \<and> ibuf_inv b' \<and> ib_written b' = ib_written b @ take (unat n) data
           \<and> ib_rpos b' = ib_rpos b \<and> ib_fd b' = ib_fd b \<and> ib_max b' = ib_max b"
      by blast
    show ?thesis
    proof (cases m')
      case None
      with Some cr add w show ?thesis by (simp add: imsg_compose_def)
    next
      case (Some b')
      let ?h = "compose_hdr ib type peerid pid (-1) 0\<lparr>h_len := len\<rparr>"
      let ?b = "b'\<lparr>ib_fd := fd\<rparr>"
      have b': "ibuf_inv ?b" "ib_written ?b = hdr_bytes ?h @ take (unat n) data" "ib_rpos ?b = 0"
        using m' Some b wr by (auto simp: ibuf_inv_def ib_written_def)
      have "length (ib_written ?b) \<le> unat (ib_max ?b)"
        using length_ib_written [OF b'(1)] ibuf_inv_bounds(3) [OF b'(1)] by simp
      then have fit: "IMSG_HEADER_SIZE + unat n \<le> MAX_IMSGSIZE"
        using b' m' Some b n by (simp add: imsg_consts)
      then have "IMSG_HEADER_SIZE + length (take (unat n) data) < 2 ^ 16" "h_flags ?h = 0"
        using n by (simp_all add: imsg_consts compose_hdr_def)
      from imsg_close_ok [OF b'(1,2,3) this, of ib] obtain c where
        c: "imsg_close ib ?b = Some (ib\<lparr>im_w := ibuf_enqueue (im_w ib) c\<rparr>)" "ibuf_inv c" "ib_fd c = fd"
          "ib_iov c = imsg_enc (compose_hdr ib type peerid pid fd (unat n), take (unat n) data)"
        using n by (auto simp: compose_hdr_def)
      have "imsg_compose ib type peerid pid fd data n L =
              Some (1, ib\<lparr>im_w := ibuf_enqueue (im_w ib) c\<rparr>, L2)"
        using cr add \<open>m = Some b\<close> Some c by (simp add: imsg_compose_def)
      moreover have "mb_inv (ibuf_enqueue (im_w ib) c)"
        using ibuf_enqueue_inv w c(2) room by blast
      ultimately show ?thesis
        using cr add c fit by (auto simp: ibuf_enqueue_pend ibuf_enqueue_fds)
    qed
  qed
qed

section \<open>Flushing\<close>

text \<open>
  An answer of the kernel either takes at least one byte of a non-empty vector, or is one of
  the transient errors \<open>msgbuf_write\<close> ignores.
\<close>

definition takes :: "(bytes list \<Rightarrow> int option \<Rightarrow> io_res) \<Rightarrow> bool" where
  "takes K \<longleftrightarrow> (\<forall>iov f. concat iov \<noteq> [] \<longrightarrow> (\<exists>n > 0. K iov f = Sent n))"

definition busy :: "(bytes list \<Rightarrow> int option \<Rightarrow> io_res) \<Rightarrow> bool" where
  "busy K \<longleftrightarrow> (\<forall>iov f. \<exists>e \<in> {EAGAIN, ENOBUFS, EINTR}. K iov f = Failed e)"

lemma gather_offers:
  assumes "no_empty mb" and "mb_bufs mb \<noteq> []" and "gather 0 (mb_bufs mb) = (iov, k)"
  shows "concat iov \<noteq> []"
proof -
  obtain b bs where b: "mb_bufs mb = b # bs" using assms(2) by (cases "mb_bufs mb") auto
  then have "ib_iov b \<noteq> []" using assms(1) by (simp add: no_empty_def)
  with b assms(3) show ?thesis
    by (auto simp: IOV_MAX_def split: if_splits prod.splits)
qed

lemma mb_inv_queued: "mb_inv mb \<Longrightarrow> mb_queued mb = 0 \<longleftrightarrow> mb_bufs mb = []"
  by (auto simp: mb_inv_def unat_word_ariths word_of_nat_eq_0_iff dest: nat_dvd_not_less)

lemma msgbuf_write_takes:
  assumes inv: "mb_inv mb" and ne: "no_empty mb" "mb_bufs mb \<noteq> []" and K: "sendmsg_ok K" "takes K"
    and w: "msgbuf_write K mb L = (r, mb', L')"
  shows "r = 0 \<and> length (mb_pend mb') < length (mb_pend mb)"
proof -
  obtain iov k where g: "gather 0 (mb_bufs mb) = (iov, k)" by (metis surj_pair)
  from gather_offers [OF ne g] K(2) obtain n where n: "n > 0" "K iov (attached mb k) = Sent n"
    by (auto simp: takes_def)
  have "n \<le> length (concat iov)" using K(1) n(2) by (auto simp: sendmsg_ok_def)
  then show ?thesis
    using msgbuf_write_ok [OF inv K(1) w g] n by (auto simp del: length_concat)
qed

lemma msgbuf_write_busy:
  assumes "mb_inv mb" and "sendmsg_ok K" and "busy K" and "msgbuf_write K mb L = (r, mb', L')"
  shows "r = 0 \<and> mb' = mb"
proof -
  obtain iov k where g: "gather 0 (mb_bufs mb) = (iov, k)" by (metis surj_pair)
  from assms(3) obtain e where "e \<in> {EAGAIN, ENOBUFS, EINTR}" "K iov (attached mb k) = Failed e"
    unfolding busy_def by blast
  then show ?thesis
    using msgbuf_write_ok [OF assms(1,2,4) g] by auto
qed

lemma imsg_flush_ok:
  assumes "mb_inv (im_w ib)" and "no_empty (im_w ib)"
    and "\<forall>K \<in> set ks. sendmsg_ok K \<and> (takes K \<or> busy K)"
    and "length (mb_pend (im_w ib)) \<le> length (filter takes ks)"
  shows "\<exists>w L'. imsg_flush ks ib L = Some (0, ib\<lparr>im_w := w\<rparr>, L') \<and> mb_bufs w = []
    \<and> l_closed L' = l_closed L @ open_fds (mb_bufs (im_w ib))"
  using assms
proof (induction ks arbitrary: ib L)
  case Nil
  then have "mb_bufs (im_w ib) = []"
    by (cases "mb_bufs (im_w ib)") (auto simp: mb_pend_def no_empty_def)
  moreover from this have "mb_queued (im_w ib) = 0"
    using Nil.prems(1) mb_inv_queued by blast
  ultimately show ?case by (auto simp: open_fds_def intro!: exI [of _ "im_w ib"])
next
  case (Cons K ks)
  show ?case
  proof (cases "mb_bufs (im_w ib) = []")
    case True
    then have "mb_queued (im_w ib) = 0" using Cons.prems(1) mb_inv_queued by blast
    with True show ?thesis by (auto simp: open_fds_def intro!: exI [of _ "im_w ib"])
  next
    case False
    then have q: "mb_queued (im_w ib) \<noteq> 0" using Cons.prems(1) mb_inv_queued by blast
    obtain r w L1 where w: "msgbuf_write K (im_w ib) L = (r, w, L1)" by (metis surj_pair)
    obtain iov k where g: "gather 0 (mb_bufs (im_w ib)) = (iov, k)" by (metis surj_pair)
    have K: "sendmsg_ok K" "takes K \<or> busy K" using Cons.prems(3) by auto
    note ok = msgbuf_write_ok [OF Cons.prems(1) K(1) w g]
    have ne: "no_empty w" using msgbuf_write_no_empty [OF Cons.prems(1) K(1) Cons.prems(2), of L] w by simp
    have "r = 0 \<and> length (mb_pend w) \<le> length (filter takes ks)"
    proof (cases "takes K")
      case True
      with msgbuf_write_takes [OF Cons.prems(1,2) False K(1) _ w] Cons.prems(4) show ?thesis by simp
    next
      case False
      with K(2) msgbuf_write_busy [OF Cons.prems(1) K(1) _ w] Cons.prems(4) show ?thesis by simp
    qed
    with Cons.IH [of "ib\<lparr>im_w := w\<rparr>" L1] ok ne Cons.prems(3) q w show ?thesis by auto
  qed
qed

text \<open>
  Claim C15. \<open>imsg_flush\<close> returns: if every \<open>sendmsg\<close> takes at least one byte or fails with
  a transient error, and at least as many of them take bytes as bytes are queued, the loop
  ends with 0, the queue empty, and every queued descriptor closed, once and in order.
\<close>

theorem imsg_flush_terminates:
  assumes "mb_inv (im_w ib)" and "no_empty (im_w ib)"
    and "\<forall>K \<in> set ks. sendmsg_ok K \<and> (takes K \<or> busy K)"
    and "length (mb_pend (im_w ib)) \<le> length (filter takes ks)"
  shows "\<exists>w L'. imsg_flush ks ib L = Some (0, ib\<lparr>im_w := w\<rparr>, L') \<and> mb_bufs w = []
    \<and> l_closed L' = l_closed L @ open_fds (mb_bufs (im_w ib))"
  using imsg_flush_ok [OF assms] .

definition demo_imsgbuf :: imsgbuf where
  "demo_imsgbuf = \<lparr>im_fds = [], im_r = [], im_w = demo_msgbuf, im_fd = 3, im_pid = 77\<rparr>"

definition one_byte :: "bytes list \<Rightarrow> int option \<Rightarrow> io_res" where
  "one_byte iov f = Sent (if concat iov = [] then 0 else 1)"

lemma one_byte_ok: "sendmsg_ok one_byte" "takes one_byte"
  by (auto simp: sendmsg_ok_def takes_def one_byte_def Suc_le_eq simp del: length_concat
      split: if_splits)

theorem imsg_flush_terminates_witness:
  "\<exists>w L'. imsg_flush [one_byte, (\<lambda>_ _. Failed EAGAIN), one_byte, one_byte] demo_imsgbuf demo_libc
       = Some (0, demo_imsgbuf\<lparr>im_w := w\<rparr>, L') \<and> mb_bufs w = [] \<and> l_closed L' = [9]"
proof -
  have b: "busy (\<lambda>_ _. Failed EAGAIN)" "sendmsg_ok (\<lambda>_ _. Failed EAGAIN)"
    by (simp_all add: busy_def sendmsg_ok_def)
  have m: "im_w demo_imsgbuf = demo_msgbuf" by (simp add: demo_imsgbuf_def)
  have "no_empty demo_msgbuf" "length (mb_pend demo_msgbuf) = 3" "open_fds (mb_bufs demo_msgbuf) = [9]"
    by (simp_all add: no_empty_def mb_pend_def open_fds_def demo_msgbuf_def demo_ibuf_def ib_iov_def)
  with imsg_flush_terminates [of demo_imsgbuf "[one_byte, (\<lambda>_ _. Failed EAGAIN), one_byte, one_byte]" demo_libc]
  show ?thesis
    using b one_byte_ok m by (simp add: demo_libc_def)
qed

section \<open>From composing to receiving\<close>

text \<open>
  Claim C11. \<open>imsg_compose\<close> is atomic and never undefined. It returns 1 and the queue grows by
  exactly the encoding of the message (the header with the caller's type, peer id and pid,
  or the process's own pid if that was 0, the length set and the descriptor flag set if and
  only if a descriptor is passed, then \<open>datalen\<close> bytes of data); or it returns -1 and the
  queue is unchanged. It never succeeds for a message longer than \<open>MAX_IMSGSIZE\<close>, although
  the size is computed in 16 bits and wraps.
\<close>

theorem imsg_compose_correct:
  assumes "heap_ok L" and "unat n \<le> length data" and "mb_inv (im_w ib)"
    and "Suc (length (mb_bufs (im_w ib))) < 2 ^ 32"
  shows "\<exists>r ib' L'. imsg_compose ib type peerid pid fd data n L = Some (r, ib', L')
    \<and> l_closed L' = l_closed L \<and> mb_inv (im_w ib')
    \<and> (r = 1 \<and> IMSG_HEADER_SIZE + unat n \<le> MAX_IMSGSIZE \<and> ib' = ib\<lparr>im_w := im_w ib'\<rparr>
         \<and> mb_pend (im_w ib') = mb_pend (im_w ib)
             @ imsg_enc (compose_hdr ib type peerid pid fd (unat n), take (unat n) data)
         \<and> open_fds (mb_bufs (im_w ib')) = open_fds (mb_bufs (im_w ib)) @ (if fd = -1 then [] else [fd])
       \<or> r = -1 \<and> ib' = ib)"
  using imsg_compose_ok [OF assms, of type peerid pid fd] by blast

lemma demo_imsgbuf_ok: "mb_inv (im_w demo_imsgbuf)" "Suc (length (mb_bufs (im_w demo_imsgbuf))) < 2 ^ 32"
  by (simp_all add: demo_imsgbuf_def) (simp add: demo_msgbuf_def)

theorem imsg_compose_correct_witness:
  "\<exists>r ib' L'. imsg_compose demo_imsgbuf 3 0 0 5 [10, 20] 2 demo_libc = Some (r, ib', L')
    \<and> mb_inv (im_w ib') \<and> (r = 1 \<or> r = -1)"
  using imsg_compose_correct [OF heap_ok_demo _ demo_imsgbuf_ok, of 2 "[10, 20]" 3 0 0 5]
  by auto

text \<open>
  The loop the dispatchers run after a read: \<open>imsg_get\<close> until it finds no whole message
  (or fails). Every message it returns is at least a header long, so the loop ends.
\<close>

lemma imsg_next_frame:
  "imsg_next bs = Frame m r \<Longrightarrow> length r < length bs \<and> length (snd m) \<le> MAX_IMSGSIZE"
  by (auto simp: imsg_next_def imsg_consts Let_def split: if_splits)

lemma imsg_get_shrinks:
  assumes "imsg_get ib L = (n, Some m, ib', L')"
  shows "length (im_r ib') < length (im_r ib)"
  using assms unfolding imsg_get_ok
  by (auto split: frame_res.splits prod.splits option.splits dest: imsg_next_frame)

function imsg_get_all :: "imsgbuf \<Rightarrow> libc \<Rightarrow> imsg list \<times> imsgbuf \<times> libc" where
  "imsg_get_all ib L =
     (case imsg_get ib L of
        (n, Some m, ib1, L1) \<Rightarrow> (case imsg_get_all ib1 L1 of (ms, ib2, L2) \<Rightarrow> (m # ms, ib2, L2))
      | (n, None, ib1, L1) \<Rightarrow> ([], ib1, L1))"
  by pat_completeness auto
termination
  by (relation "measure (\<lambda>(ib, L). length (im_r ib))") (auto dest!: imsg_get_shrinks [OF sym])

declare imsg_get_all.simps [simp del]

fun imsg_recv :: "bytes list \<Rightarrow> imsgbuf \<Rightarrow> libc \<Rightarrow> imsg list \<times> imsgbuf \<times> libc" where
  "imsg_recv [] ib L = ([], ib, L)"
| "imsg_recv (c # cs) ib L =
     (let (_, ib1, L1) = imsg_read (Received c []) ib L;
          (ms, ib2, L2) = imsg_get_all ib1 L1;
          (ms', ib3, L3) = imsg_recv cs ib2 L2
      in (ms @ ms', ib3, L3))"

text \<open>Messages as delivered: the ones that announce a descriptor get the oldest ones received.\<close>

fun deliver :: "(imsg_hdr \<times> bytes) list \<Rightarrow> int list \<Rightarrow> imsg list \<times> int list" where
  "deliver [] fds = ([], fds)"
| "deliver ((h, d) # ms) fds =
     (case deliver ms (snd (fd_of h fds)) of
        (is, fds') \<Rightarrow> (\<lparr>i_hdr = h, i_fd = fst (fd_of h fds), i_data = d\<rparr> # is, fds'))"

text \<open>Memory for a message is never refused.\<close>

definition alloc_total :: "libc \<Rightarrow> bool" where
  "alloc_total L \<longleftrightarrow> (\<forall>k n. n \<le> MAX_IMSGSIZE \<longrightarrow> l_alloc_ok L k n)"

lemma c_malloc_total: "alloc_total L \<Longrightarrow> n \<le> MAX_IMSGSIZE \<Longrightarrow> \<exists>b L'. c_malloc n L = (Some b, L') \<and> alloc_total L'"
  by (simp add: c_malloc_def alloc_total_def)

lemma imsg_get_all_ok:
  assumes "alloc_total L" and "decode_all imsg_next (im_r ib) = (ms, r)"
  shows "\<exists>L'. imsg_get_all ib L = (fst (deliver ms (im_fds ib)),
      ib\<lparr>im_r := r, im_fds := snd (deliver ms (im_fds ib))\<rparr>, L') \<and> alloc_total L'"
  using assms
proof (induction "im_r ib" arbitrary: ib L ms rule: measure_induct_rule [of length])
  case less
  show ?case
  proof (cases "imsg_next (im_r ib)")
    case (Frame m rest)
    obtain h d where m: "m = (h, d)" by (metis surj_pair)
    obtain b L1 where L1: "c_malloc (length d) L = (Some b, L1)" "alloc_total L1"
      using c_malloc_total [OF less.prems(1), of "length d"] imsg_next_frame [OF Frame] m by auto
    let ?ib = "ib\<lparr>im_r := rest, im_fds := snd (fd_of h (im_fds ib))\<rparr>"
    have get: "imsg_get ib L = (int (length d + IMSG_HEADER_SIZE),
        Some \<lparr>i_hdr = h, i_fd = fst (fd_of h (im_fds ib)), i_data = d\<rparr>, ?ib, L1)"
      using Frame m L1 by (simp add: imsg_get_ok)
    have short: "length rest < length (im_r ib)"
      using imsg_get_shrinks [OF get] by simp
    then obtain ms' where ms: "ms = m # ms'" "decode_all imsg_next rest = (ms', r)"
      using less.prems(2) Frame
      by (auto simp: decode_all.simps [of imsg_next "im_r ib"] split: prod.splits)
    with less.hyps [of ?ib L1 ms'] short L1 obtain L' where
      "imsg_get_all ?ib L1 = (fst (deliver ms' (im_fds ?ib)),
        ?ib\<lparr>im_r := r, im_fds := snd (deliver ms' (im_fds ?ib))\<rparr>, L')" "alloc_total L'"
      by auto
    with get ms m show ?thesis
      by (simp add: imsg_get_all.simps [of ib L] split: prod.splits)
  next
    case More
    with less.prems show ?thesis
      by (auto simp: imsg_get_all.simps [of ib L] decode_all.simps [of imsg_next "im_r ib"] imsg_get_ok)
  next
    case Bad
    with less.prems show ?thesis
      by (auto simp: imsg_get_all.simps [of ib L] decode_all.simps [of imsg_next "im_r ib"] imsg_get_ok
          alloc_total_def set_errno_def)
  qed
qed

lemma deliver_append:
  "deliver (ms @ ms') fds =
     (case deliver ms fds of (xs, fds1) \<Rightarrow> case deliver ms' fds1 of (ys, fds2) \<Rightarrow> (xs @ ys, fds2))"
  by (induction ms fds rule: deliver.induct) (auto split: prod.splits)

lemma imsg_recv_ok:
  assumes "alloc_total L" and "feed imsg_next (im_r ib) cs = (ms, r)"
  shows "\<exists>L'. imsg_recv cs ib L = (fst (deliver ms (im_fds ib)),
      (if cs = [] then ib else ib\<lparr>im_r := r, im_fds := snd (deliver ms (im_fds ib))\<rparr>), L')"
  using assms
proof (induction cs arbitrary: ib L ms)
  case (Cons c cs)
  obtain ms1 r1 where d: "decode_all imsg_next (im_r ib @ c) = (ms1, r1)" by (metis surj_pair)
  obtain ms2 where f: "feed imsg_next r1 cs = (ms2, r)" "ms = ms1 @ ms2"
    using Cons.prems(2) d by (auto split: prod.splits)
  let ?ib = "ib\<lparr>im_r := r1, im_fds := snd (deliver ms1 (im_fds ib))\<rparr>"
  obtain L1 where g: "imsg_get_all (ib\<lparr>im_r := im_r ib @ c\<rparr>) L = (fst (deliver ms1 (im_fds ib)), ?ib, L1)"
    and L1: "alloc_total L1"
    using imsg_get_all_ok [of L "ib\<lparr>im_r := im_r ib @ c\<rparr>" ms1 r1] Cons.prems(1) d by auto
  with Cons.IH [OF L1, of ?ib ms2] f(1) obtain L' where
    rec: "imsg_recv cs ?ib L1 = (fst (deliver ms2 (im_fds ?ib)),
      (if cs = [] then ?ib else ?ib\<lparr>im_r := r, im_fds := snd (deliver ms2 (im_fds ?ib))\<rparr>), L')"
    by auto
  show ?case
  proof (cases "cs = []")
    case True
    with g rec f show ?thesis by (auto simp: imsg_read_def deliver_append split: prod.splits)
  next
    case False
    with g rec f show ?thesis by (auto simp: imsg_read_def deliver_append split: prod.splits)
  qed
qed simp


definition demo_msg :: "imsg_hdr \<times> bytes" where
  "demo_msg = (\<lparr>h_type = 1, h_len = 18, h_flags = 1, h_peerid = 0, h_pid = 7\<rparr>, [10, 20])"


text \<open>
  Claim C13. End to end: when \<open>imsg_compose\<close> on an empty queue returns 1, a process that
  reads the queued bytes in any chunks obtains exactly one message, with the caller's type,
  peer id, pid and data.
\<close>

theorem imsg_compose_received:
  assumes "heap_ok L" and "unat n \<le> length data" and "im_w ib = msgbuf_init\<lparr>mb_fd := fd0\<rparr>"
    and "imsg_compose ib type peerid pid fd data n L = Some (1, ib', L1)"
    and "concat chunks = mb_pend (im_w ib')" and "im_r peer = []" and "alloc_total L2"
  shows "map (\<lambda>m. (i_hdr m, i_data m)) (fst (imsg_recv chunks peer L2))
    = [(compose_hdr ib type peerid pid fd (unat n), take (unat n) data)]"
proof -
  let ?m = "(compose_hdr ib type peerid pid fd (unat n), take (unat n) data)"
  have w: "mb_inv (im_w ib)" "Suc (length (mb_bufs (im_w ib))) < 2 ^ 32" "mb_pend (im_w ib) = []"
    using assms(3) by (simp_all add: mb_inv_def msgbuf_init_def mb_pend_def)
  from imsg_compose_ok [OF assms(1,2) w(1,2), of type peerid pid fd] assms(4) w(3)
  have p: "mb_pend (im_w ib') = imsg_enc ?m" and le: "IMSG_HEADER_SIZE + unat n \<le> MAX_IMSGSIZE"
    by auto
  have wf: "\<forall>m \<in> set [?m]. imsg_wf m"
    using le assms(2) by (simp add: imsg_wf_def compose_hdr_def imsg_consts unat_word_ariths)
  have "feed imsg_next (im_r peer) chunks = ([?m], [])"
    using imsgs.feed_chunks [OF wf, of chunks] assms(5,6) p by simp
  from imsg_recv_ok [OF assms(7) this] show ?thesis by auto
qed

theorem imsg_compose_received_witness:
  "\<exists>ib' L1. imsg_compose (imsg_init 4 77) 3 0 0 (-1) [10, 20] 2 demo_libc = Some (1, ib', L1)
    \<and> map (\<lambda>m. (i_hdr m, i_data m)) (fst (imsg_recv [mb_pend (im_w ib')] demo_imsgbuf demo_libc))
      = [(compose_hdr (imsg_init 4 77) 3 0 0 (-1) 2, [10, 20])]"
proof -
  obtain ib' L1 where c: "imsg_compose (imsg_init 4 77) 3 0 0 (-1) [10, 20] 2 demo_libc = Some (1, ib', L1)"
    by (simp add: imsg_compose_def imsg_create_def imsg_add_def imsg_close_def ibuf_dynamic_def ibuf_open_def
        ibuf_add_def ibuf_put_def c_malloc_def demo_libc_def imsg_consts sizeof_ibuf_def Let_def
        ibuf_realloc_def c_realloc_def)
  have w: "im_w (imsg_init 4 77) = msgbuf_init\<lparr>mb_fd := 4\<rparr>" by (simp add: imsg_init_def)
  have a: "alloc_total demo_libc" "im_r demo_imsgbuf = []"
    by (simp_all add: alloc_total_def demo_libc_def demo_imsgbuf_def imsg_consts)
  from imsg_compose_received [OF heap_ok_demo _ w c _ a(2,1), of "[mb_pend (im_w ib')]"] c
  show ?thesis by auto
qed

text \<open>
  \<open>imsg_composev\<close> narrows lengths to 16 bits: handed one vector of 65536 bytes it
  reports success and queues a message with no data, so the caller's bytes are lost without
  an error. (\<open>imsg_compose\<close>, whose length is 16 bits wide already, cannot do this.)
\<close>

lemma imsg_composev_truncates:
  assumes "length v = 65536" and "imsg_compose ib type peerid pid fd [] 0 L = Some (1, ib', L')"
  shows "imsg_composev ib type peerid pid fd [v] L = Some (1, ib', L')"
proof -
  have z: "ucast (word_of_nat (sum_list (map length [v])) :: u32) = (0 :: u16)"
    using assms(1) by simp
  have "add_iovs b [v] M = Some (Some b, M)" for b M
    using assms(1) by (simp add: imsg_add_def)
  with assms(2) show ?thesis
    unfolding imsg_composev_def Let_def z
    by (auto simp: imsg_compose_def imsg_add_def split: option.splits prod.splits)
qed

lemma imsg_composev_truncates_witness:
  "\<exists>ib' L'. imsg_compose (imsg_init 4 77) 3 0 0 (-1) [] 0 demo_libc = Some (1, ib', L')
    \<and> imsg_composev (imsg_init 4 77) 3 0 0 (-1) [replicate 65536 1] demo_libc = Some (1, ib', L')"
proof -
  obtain ib' L' where c: "imsg_compose (imsg_init 4 77) 3 0 0 (-1) [] 0 demo_libc = Some (1, ib', L')"
    by (simp add: imsg_compose_def imsg_create_def imsg_add_def imsg_close_def ibuf_dynamic_def ibuf_open_def
        ibuf_add_def ibuf_put_def c_malloc_def demo_libc_def imsg_consts sizeof_ibuf_def Let_def)
  have "length (replicate 65536 1 :: bytes) = 65536" by (simp only: length_replicate)
  from imsg_composev_truncates [OF this c] c show ?thesis by blast
qed

end
