(* ===== verification/Cstring.thy ===== *)
theory Cstring
  imports Prelude
begin

text \<open>
  The string functions of the C library the daemon uses, on memory blocks: a block is the
  list of the characters from the pointer to the end of the object. Reading past the end of
  the object is \<open>None\<close>.
\<close>

section \<open>Definitions\<close>

definition NUL :: char where
  "NUL = CHR 0x00"

text \<open>The object a string literal denotes.\<close>

definition cstr :: "string \<Rightarrow> string" where
  "cstr s = s @ [NUL]"

text \<open>\<open>strncmp (a, b, n) == 0\<close>\<close>

fun strncmp_eq :: "string \<Rightarrow> string \<Rightarrow> nat \<Rightarrow> bool option" where
  "strncmp_eq a b 0 = Some True"
| "strncmp_eq (x # a) (y # b) (Suc n) =
     (if x \<noteq> y then Some False else if x = NUL then Some True else strncmp_eq a b n)"
| "strncmp_eq _ _ (Suc n) = None"

text \<open>\<open>strlen\<close>\<close>

fun c_strlen :: "string \<Rightarrow> nat option" where
  "c_strlen [] = None"
| "c_strlen (c # s) = (if c = NUL then Some 0 else map_option Suc (c_strlen s))"

text \<open>\<open>strndup (s, n)\<close> reads up to \<open>n\<close> characters and stops at a terminator.\<close>

definition c_strndup :: "string \<Rightarrow> nat \<Rightarrow> string" where
  "c_strndup s n = takeWhile (\<lambda>c. c \<noteq> NUL) (take n s)"

definition is_space :: "char \<Rightarrow> bool" where
  "is_space c \<longleftrightarrow> c = CHR '' '' \<or> (9 \<le> (of_char c :: nat) \<and> (of_char c :: nat) \<le> 13)"

definition is_digit :: "char \<Rightarrow> bool" where
  "is_digit c \<longleftrightarrow> 48 \<le> (of_char c :: nat) \<and> (of_char c :: nat) \<le> 57"

definition digit_val :: "char \<Rightarrow> nat" where
  "digit_val c = of_char c - 48"

fun skip_space :: "string \<Rightarrow> string option" where
  "skip_space [] = None"
| "skip_space (c # s) = (if is_space c then skip_space s else Some (c # s))"

fun read_digits :: "nat \<Rightarrow> string \<Rightarrow> (nat \<times> string) option" where
  "read_digits v [] = None"
| "read_digits v (c # s) = (if is_digit c then read_digits (10 * v + digit_val c) s else Some (v, c # s))"

definition LONG_MAX :: int where
  "LONG_MAX = 2 ^ 63 - 1"

definition clamp_long :: "int \<Rightarrow> int" where
  "clamp_long v = max (- LONG_MAX - 1) (min LONG_MAX v)"

text \<open>\<open>strtol (s, &end, 10)\<close>: the value and what \<open>end\<close> points to.\<close>

definition c_strtol :: "string \<Rightarrow> (int \<times> string) option" where
  "c_strtol s =
     do { t \<leftarrow> skip_space s;
          let neg = (hd t = CHR ''-'');
          let u = (if hd t = CHR ''-'' \<or> hd t = CHR ''+'' then tl t else t);
          (v, e) \<leftarrow> read_digits 0 u;
          if length e = length u then Some (0, s)
          else Some (clamp_long (if neg then - int v else int v), e) }"

text \<open>\<open>atoi (s)\<close> is \<open>(int) strtol (s, NULL, 10)\<close>.\<close>

definition c_atoi :: "string \<Rightarrow> int option" where
  "c_atoi s = map_option (\<lambda>(v, _). sint (word_of_int v :: 32 word)) (c_strtol s)"

text \<open>\<open>printf ("%d")\<close> of a number that is not negative.\<close>

definition digit_char :: "nat \<Rightarrow> char" where
  "digit_char d = char_of (48 + d)"

fun show_nat :: "nat \<Rightarrow> string" where
  "show_nat n = (if n < 10 then [digit_char n] else show_nat (n div 10) @ [digit_char (n mod 10)])"

declare show_nat.simps [simp del]

definition show_int :: "int \<Rightarrow> string" where
  "show_int v = (if v < 0 then CHR ''-'' # show_nat (nat (- v)) else show_nat (nat v))"

section \<open>Comparisons by prefix\<close>

lemma strncmp_key:
  assumes "NUL \<notin> set s" and "NUL \<notin> set k"
  shows "strncmp_eq (cstr s) k (length k) = Some (\<exists>r. s = k @ r)"
  using assms
proof (induction k arbitrary: s)
  case (Cons c k)
  then show ?case by (cases s) (auto simp: cstr_def)
qed simp

text \<open>A comparison limited to the length of its second argument never leaves it.\<close>

lemma strncmp_total: "strncmp_eq (cstr s) k (length k) \<noteq> None"
proof (induction k arbitrary: s)
  case (Cons c k)
  show ?case
  proof (cases s)
    case Nil
    then show ?thesis by (simp add: cstr_def del: not_None_eq)
  next
    case (Cons d t)
    with Cons.IH [of t] show ?thesis by (simp add: cstr_def del: not_None_eq)
  qed
qed simp

section \<open>Numbers\<close>

lemma digit_facts [simp]:
  assumes "d < 10"
  shows "is_digit (digit_char d)" "digit_val (digit_char d) = d"
    "\<not> is_space (digit_char d)" "digit_char d \<noteq> CHR ''-''" "digit_char d \<noteq> CHR ''+''"
    "digit_char d \<noteq> NUL"
proof -
  have v: "(of_char (digit_char d) :: nat) = 48 + d"
    using assms by (simp add: digit_char_def)
  have ne: "of_char c \<noteq> 48 + d \<Longrightarrow> digit_char d \<noteq> c" for c
    using v by metis
  show "is_digit (digit_char d)" "digit_val (digit_char d) = d"
    "\<not> is_space (digit_char d)" "digit_char d \<noteq> CHR ''-''" "digit_char d \<noteq> CHR ''+''"
    "digit_char d \<noteq> NUL"
    using assms by (simp_all add: is_digit_def digit_val_def is_space_def v NUL_def ne)
qed

lemma show_nat_nonempty [simp]: "show_nat n \<noteq> []"
  by (subst show_nat.simps) simp

lemma show_nat_digits: "c \<in> set (show_nat n) \<Longrightarrow> \<exists>d < 10. c = digit_char d"
proof (induction n rule: show_nat.induct)
  case (1 n)
  then show ?case
    by (cases "n < 10") (auto simp: show_nat.simps [of n] intro: exI [of _ "n mod 10"])
qed

lemma read_digits_chain:
  "read_digits v (show_nat n @ s) = read_digits (10 ^ length (show_nat n) * v + n) s"
proof (induction n arbitrary: v s rule: show_nat.induct)
  case (1 n)
  show ?case
  proof (cases "n < 10")
    case False
    with 1 [OF False] show ?thesis by (simp add: show_nat.simps [of n] algebra_simps)
  qed (simp add: show_nat.simps [of n])
qed

lemma read_digits_show:
  "\<not> is_digit t \<Longrightarrow> read_digits 0 (show_nat n @ t # r) = Some (n, t # r)"
  by (simp add: read_digits_chain)

lemma strtol_show:
  assumes "\<not> is_digit t" and "int n \<le> LONG_MAX"
  shows "c_strtol (show_nat n @ t # r) = Some (int n, t # r)"
proof -
  obtain c s where cs: "show_nat n = c # s" by (cases "show_nat n") auto
  then obtain d where d: "d < 10" "c = digit_char d"
    using show_nat_digits [of c n] by auto
  have "skip_space (show_nat n @ t # r) = Some (show_nat n @ t # r)"
    using cs d by simp
  moreover have "hd (show_nat n @ t # r) \<noteq> CHR ''-''" "hd (show_nat n @ t # r) \<noteq> CHR ''+''"
    using cs d by simp_all
  moreover have "length (t # r) \<noteq> length (show_nat n @ t # r)"
    using cs by simp
  ultimately show ?thesis
    using read_digits_show [OF assms(1), of n r] assms(2)
    by (auto simp: c_strtol_def clamp_long_def LONG_MAX_def)
qed

text \<open>Printing a port and reading it back.\<close>

lemma atoi_show:
  assumes "n < 2 ^ 31"
  shows "c_atoi (cstr (show_nat n)) = Some (int n)"
proof -
  have "\<not> is_digit NUL" by (simp add: is_digit_def NUL_def)
  moreover have "int n \<le> LONG_MAX" using assms by (simp add: LONG_MAX_def)
  ultimately have "c_strtol (show_nat n @ [NUL]) = Some (int n, [NUL])"
    using strtol_show by blast
  moreover have "sint (word_of_int (int n) :: 32 word) = int n"
    using assms by (simp add: sint_sbintrunc' signed_take_bit_int_eq_self del: of_int_of_nat_eq)
  ultimately show ?thesis
    by (simp add: c_atoi_def cstr_def del: of_int_of_nat_eq)
qed

end
