(* ===== verification/Endpoint.thy ===== *)
theory Endpoint
  imports Cstring
begin

text \<open>
  Socket addresses (\<open>src/endpoint.c\<close>) and the zeroing allocator (\<open>src/subset.c\<close>). A
  \<open>sockaddr_storage\<close> is its 128 bytes: family and port are 16-bit fields at offsets 0 and
  2, the port in network byte order; an IPv4 address is at offset 4, an IPv6 address at
  offset 8. Parsing, printing and comparing addresses are libevent's and are arguments.
\<close>

section \<open>Definitions\<close>

definition AF_UNSPEC :: u16 where "AF_UNSPEC = 0"
definition AF_INET :: u16 where "AF_INET = 2"
definition AF_INET6 :: u16 where "AF_INET6 = 10"

definition sizeof_storage :: nat where "sizeof_storage = 128"
definition sizeof_sin :: nat where "sizeof_sin = 16"
definition sizeof_sin6 :: nat where "sizeof_sin6 = 28"
definition sizeof_endpoint :: nat where "sizeof_endpoint = 136"
definition INET6_ADDRSTRLEN :: nat where "INET6_ADDRSTRLEN = 46"

record endpoint =
  e_addr :: bytes
  e_addrlen :: u32

definition tnt_new_impl :: "nat \<Rightarrow> libc \<Rightarrow> bytes option \<times> libc" where
  "tnt_new_impl n L =
     (case c_malloc n L of (None, L1) \<Rightarrow> (None, L1) | (Some _, L1) \<Rightarrow> (Some (replicate n 0), L1))"

definition ss_family :: "bytes \<Rightarrow> u16" where
  "ss_family a = of_le16 a"

definition raw_port :: "bytes \<Rightarrow> u16" where
  "raw_port a = of_le16 (drop 2 a)"

definition put_port :: "u16 \<Rightarrow> bytes \<Rightarrow> bytes" where
  "put_port p a = take 2 a @ le16 p @ drop 4 a"

text \<open>
  Copying \<open>n\<close> bytes to the start of a \<open>struct endpoint\<close>: the first 128 are the address;
  the few after that are padding and the field \<open>addrlen\<close>, which every caller then sets.
\<close>

definition copy_addr :: "endpoint \<Rightarrow> bytes \<Rightarrow> nat \<Rightarrow> endpoint option" where
  "copy_addr e src n =
     (if n \<le> sizeof_endpoint
      then Some (e\<lparr>e_addr := take (length (e_addr e)) (take n src @ drop n (e_addr e))\<rparr>) else None)"

definition endpoint_init :: "bytes \<Rightarrow> u32 \<Rightarrow> endpoint option" where
  "endpoint_init addr addrlen =
     (if length addr < unat addrlen then None
      else map_option (\<lambda>e. e\<lparr>e_addrlen := addrlen\<rparr>)
             (copy_addr \<lparr>e_addr = replicate sizeof_storage 0, e_addrlen = 0\<rparr> addr (unat addrlen)))"

text \<open>The result of the allocation is not checked: writing through it is undefined if it failed.\<close>

definition endpoint_new :: "libc \<Rightarrow> (endpoint \<times> libc) option" where
  "endpoint_new L =
     (case tnt_new_impl sizeof_endpoint L of
        (None, _) \<Rightarrow> None
      | (Some b, L1) \<Rightarrow>
          Some (\<lparr>e_addr = take sizeof_storage b, e_addrlen = word_of_nat sizeof_storage\<rparr>, L1))"

text \<open>\<open>evutil_parse_sockaddr_port\<close>: the bytes it stores, or failure.\<close>

type_synonym parse_sockaddr = "string \<Rightarrow> nat \<Rightarrow> bytes option"

definition endpoint_set_ipport :: "parse_sockaddr \<Rightarrow> endpoint \<Rightarrow> string \<Rightarrow> (int \<times> endpoint) option" where
  "endpoint_set_ipport parse e ip =
     (case parse ip (unat (e_addrlen e)) of
        None \<Rightarrow> Some (-1, e)
      | Some b \<Rightarrow>
          map_option (\<lambda>a. (0, e\<lparr>e_addr := a, e_addrlen := word_of_nat (length b)\<rparr>))
            (mem_write (e_addr e) 0 b))"

text \<open>For another family the variable \<open>port\<close> is read uninitialised.\<close>

definition endpoint_port :: "endpoint \<Rightarrow> int option" where
  "endpoint_port e =
     (if ss_family (e_addr e) = AF_INET \<or> ss_family (e_addr e) = AF_INET6
      then Some (int (unat (ntohs (raw_port (e_addr e))))) else None)"

definition endpoint_set_port :: "endpoint \<Rightarrow> int \<Rightarrow> endpoint" where
  "endpoint_set_port e port =
     (if ss_family (e_addr e) = AF_INET \<or> ss_family (e_addr e) = AF_INET6
      then e\<lparr>e_addr := put_port (htons (word_of_int port)) (e_addr e)\<rparr> else e)"

definition endpoint_addr :: "endpoint \<Rightarrow> bytes" where
  "endpoint_addr e = e_addr e"

definition endpoint_addrlen :: "endpoint \<Rightarrow> u32" where
  "endpoint_addrlen e = e_addrlen e"

definition endpoint_copy :: "endpoint \<Rightarrow> endpoint \<Rightarrow> endpoint option" where
  "endpoint_copy dst src =
     map_option (\<lambda>e. e\<lparr>e_addrlen := e_addrlen src\<rparr>) (copy_addr dst (e_addr src) (unat (e_addrlen src)))"

definition endpoint_clone :: "endpoint \<Rightarrow> libc \<Rightarrow> (endpoint \<times> libc) option" where
  "endpoint_clone src L =
     (case tnt_new_impl sizeof_endpoint L of
        (None, _) \<Rightarrow> None
      | (Some b, L1) \<Rightarrow>
          map_option (\<lambda>e. (e, L1)) (endpoint_copy \<lparr>e_addr = take sizeof_storage b, e_addrlen = 0\<rparr> src))"

text \<open>
  \<open>getsockname\<close> stores as much of the address as fits in the length it is given, and the
  whole length of the address; its failure is ignored.
\<close>

definition endpoint_assign_sockname :: "bytes option \<Rightarrow> endpoint \<Rightarrow> endpoint" where
  "endpoint_assign_sockname getsockname e =
     (case getsockname of
        None \<Rightarrow> e
      | Some b \<Rightarrow>
          (let n = min (unat (e_addrlen e)) (length b)
           in e\<lparr>e_addr := take n b @ drop n (e_addr e), e_addrlen := word_of_nat (length b)\<rparr>))"

text \<open>
  The printed address is in a static buffer, which keeps its content for an unknown family;
  \<open>evutil_snprintf\<close> cuts it off at the buffer's size.
\<close>

definition endpoint_presentation :: "(u16 \<Rightarrow> bytes \<Rightarrow> string) \<Rightarrow> string \<Rightarrow> endpoint \<Rightarrow> string" where
  "endpoint_presentation inet_ntop name e =
     (if ss_family (e_addr e) = AF_INET then
        take (INET6_ADDRSTRLEN - 1)
          (inet_ntop AF_INET (take 4 (drop 4 (e_addr e))) @ '':'' @ show_nat (unat (ntohs (raw_port (e_addr e)))))
      else if ss_family (e_addr e) = AF_INET6 then
        take (INET6_ADDRSTRLEN - 1)
          (inet_ntop AF_INET6 (take 16 (drop 8 (e_addr e))) @ '':'' @ show_nat (unat (ntohs (raw_port (e_addr e)))))
      else name)"

text \<open>\<open>evutil_sockaddr_cmp\<close> with the port taken into account is the argument.\<close>

type_synonym sockaddr_cmp = "bytes \<Rightarrow> bytes \<Rightarrow> int"

definition endpoint_cmp :: "sockaddr_cmp \<Rightarrow> endpoint \<Rightarrow> endpoint \<Rightarrow> int" where
  "endpoint_cmp cmp a b =
     (if e_addrlen a \<noteq> e_addrlen b then -1 else cmp (endpoint_addr a) (endpoint_addr b))"

section \<open>What libevent documents\<close>

text \<open>The part of an address that identifies it: family, port and IP address.\<close>

definition sa_key :: "bytes \<Rightarrow> u16 \<times> u16 \<times> bytes" where
  "sa_key a = (ss_family a, raw_port a,
     if ss_family a = AF_INET then take 4 (drop 4 a) else take 16 (drop 8 a))"

definition is_inet :: "bytes \<Rightarrow> bool" where
  "is_inet a \<longleftrightarrow> ss_family a = AF_INET \<or> ss_family a = AF_INET6"

definition sockaddr_cmp_ok :: "sockaddr_cmp \<Rightarrow> bool" where
  "sockaddr_cmp_ok cmp \<longleftrightarrow>
     (\<forall>a b. is_inet a \<longrightarrow> is_inet b \<longrightarrow> (cmp a b = 0 \<longleftrightarrow> sa_key a = sa_key b))"

definition demo_cmp :: sockaddr_cmp where
  "demo_cmp a b = (if sa_key a = sa_key b then 0 else 1)"

lemma demo_cmp_ok [simp]: "sockaddr_cmp_ok demo_cmp"
  by (simp add: sockaddr_cmp_ok_def demo_cmp_def)

section \<open>Well-formed addresses\<close>

definition ep_ok :: "endpoint \<Rightarrow> bool" where
  "ep_ok e \<longleftrightarrow> length (e_addr e) = sizeof_storage
     \<and> (ss_family (e_addr e) = AF_INET \<and> unat (e_addrlen e) = sizeof_sin
        \<or> ss_family (e_addr e) = AF_INET6 \<and> unat (e_addrlen e) = sizeof_sin6)"

lemmas ep_consts = sizeof_storage_def sizeof_sin_def sizeof_sin6_def sizeof_endpoint_def
  AF_UNSPEC_def AF_INET_def AF_INET6_def INET6_ADDRSTRLEN_def

lemma of_le16_cong:
  assumes "take 2 a = take 2 b"
  shows "of_le16 a = of_le16 b"
proof -
  have "take 2 a ! 0 = take 2 b ! 0" "take 2 a ! 1 = take 2 b ! 1"
    using assms by simp_all
  then show ?thesis by (simp add: of_le16_def)
qed

lemma ss_family_cong: "take 2 a = take 2 b \<Longrightarrow> ss_family a = ss_family b"
  unfolding ss_family_def by (rule of_le16_cong)

lemma raw_port_cong: "take 2 (drop 2 a) = take 2 (drop 2 b) \<Longrightarrow> raw_port a = raw_port b"
  unfolding raw_port_def by (rule of_le16_cong)

lemma take_take_eq:
  assumes "take n a = take n b" and "k + m \<le> n"
  shows "take m (drop k a) = take m (drop k b)"
proof -
  have "take (k + m) (take n a) = take (k + m) (take n b)" using assms(1) by simp
  then have "take (k + m) a = take (k + m) b" using assms(2) by (simp add: min_absorb1)
  then have "drop k (take (k + m) a) = drop k (take (k + m) b)" by simp
  then show ?thesis by (simp add: drop_take)
qed

text \<open>Addresses that agree on the bytes their family uses are the same address.\<close>

lemma sa_key_prefix:
  assumes "take n a = take n b"
    and "ss_family a = AF_INET \<and> n = sizeof_sin \<or> ss_family a = AF_INET6 \<and> n = sizeof_sin6"
  shows "sa_key a = sa_key b"
proof -
  have n: "16 \<le> n" "ss_family a \<noteq> AF_INET \<Longrightarrow> n = 28"
    using assms(2) by (auto simp: ep_consts)
  have t: "take m (drop k a) = take m (drop k b)" if "k + m \<le> n" for k m
    using take_take_eq [OF assms(1) that] .
  have f: "ss_family a = ss_family b" using t [of 0 2] n by (intro ss_family_cong) simp
  have p: "raw_port a = raw_port b" using t [of 2 2] n by (intro raw_port_cong) simp
  show ?thesis
    using f p n t [of 4 4] t [of 8 16] by (auto simp: sa_key_def)
qed

section \<open>Ports\<close>

lemma put_port_facts:
  assumes "4 \<le> length a"
  shows "ss_family (put_port p a) = ss_family a" "raw_port (put_port p a) = p"
    "drop 4 (put_port p a) = drop 4 a" "length (put_port p a) = length a"
proof -
  have l: "length (take 2 a) = 2" using assms by simp
  show "ss_family (put_port p a) = ss_family a"
    using assms by (intro ss_family_cong) (simp add: put_port_def)
  have "drop 2 (put_port p a) = le16 p @ drop 4 a" using assms l by (simp add: put_port_def)
  then show "raw_port (put_port p a) = p" by (simp add: raw_port_def)
  show "drop 4 (put_port p a) = drop 4 a" "length (put_port p a) = length a"
    using assms by (simp_all add: put_port_def)
qed

lemma uint_word_of_int16: "uint (word_of_int v :: u16) = v mod 65536"
  by (simp add: unsigned_of_int take_bit_eq_mod)

lemma endpoint_set_port_ok:
  assumes "ep_ok e"
  shows "ep_ok (endpoint_set_port e p)" "endpoint_port (endpoint_set_port e p) = Some (p mod 65536)"
    "drop 4 (e_addr (endpoint_set_port e p)) = drop 4 (e_addr e)"
    "e_addrlen (endpoint_set_port e p) = e_addrlen e"
    "ss_family (e_addr (endpoint_set_port e p)) = ss_family (e_addr e)"
proof -
  have l: "4 \<le> length (e_addr e)" and f: "is_inet (e_addr e)"
    using assms by (auto simp: ep_ok_def ep_consts is_inet_def)
  note pp = put_port_facts [OF l]
  have e: "endpoint_set_port e p = e\<lparr>e_addr := put_port (htons (word_of_int p)) (e_addr e)\<rparr>"
    using f by (simp add: endpoint_set_port_def is_inet_def)
  show "ep_ok (endpoint_set_port e p)" using assms pp by (simp add: e ep_ok_def)
  show "endpoint_port (endpoint_set_port e p) = Some (p mod 65536)"
    using f pp by (auto simp: e endpoint_port_def is_inet_def uint_word_of_int16)
  show "drop 4 (e_addr (endpoint_set_port e p)) = drop 4 (e_addr e)"
    "e_addrlen (endpoint_set_port e p) = e_addrlen e"
    "ss_family (e_addr (endpoint_set_port e p)) = ss_family (e_addr e)"
    using pp by (simp_all add: e)
qed

section \<open>Comparing and copying\<close>

lemma ep_ok_inet: "ep_ok e \<Longrightarrow> is_inet (e_addr e)"
  by (auto simp: ep_ok_def is_inet_def)

lemma endpoint_cmp_ok:
  assumes "sockaddr_cmp_ok cmp" and "ep_ok a" and "ep_ok b"
  shows "endpoint_cmp cmp a b = 0 \<longleftrightarrow> sa_key (e_addr a) = sa_key (e_addr b)"
proof (cases "e_addrlen a = e_addrlen b")
  case True
  then show ?thesis
    using assms ep_ok_inet by (simp add: endpoint_cmp_def endpoint_addr_def sockaddr_cmp_ok_def)
next
  case False
  then have "ss_family (e_addr a) \<noteq> ss_family (e_addr b)"
    using assms(2,3) by (auto simp: ep_ok_def ep_consts word_unat_eq_iff)
  with False show ?thesis by (simp add: endpoint_cmp_def sa_key_def)
qed

lemma endpoint_copy_ok:
  assumes src: "ep_ok src" and dst: "length (e_addr dst) = sizeof_storage"
  shows "\<exists>d. endpoint_copy dst src = Some d \<and> ep_ok d \<and> e_addrlen d = e_addrlen src
    \<and> sa_key (e_addr d) = sa_key (e_addr src) \<and> raw_port (e_addr d) = raw_port (e_addr src)
    \<and> drop (unat (e_addrlen src)) (e_addr d) = drop (unat (e_addrlen src)) (e_addr dst)"
proof -
  let ?n = "unat (e_addrlen src)"
  have n: "?n \<le> 28" "16 \<le> ?n" "length (e_addr src) = 128" "length (e_addr dst) = 128"
    using src dst by (auto simp: ep_ok_def ep_consts)
  let ?a = "take ?n (e_addr src) @ drop ?n (e_addr dst)"
  have c: "endpoint_copy dst src = Some (dst\<lparr>e_addr := ?a, e_addrlen := e_addrlen src\<rparr>)"
    using n by (simp add: endpoint_copy_def copy_addr_def ep_consts)
  have pre: "take ?n (e_addr src) = take ?n ?a" using n by simp
  have key: "sa_key (e_addr src) = sa_key ?a"
    using src by (intro sa_key_prefix [OF pre]) (auto simp: ep_ok_def)
  then have "ss_family ?a = ss_family (e_addr src)" "raw_port ?a = raw_port (e_addr src)"
    by (auto simp: sa_key_def)
  with c key n src show ?thesis by (auto simp: ep_ok_def ep_consts)
qed

text \<open>
  Claim C35. Setting and reading a port is a round trip for every address the daemon uses:
  the port read back is the one set (modulo 65536), the family, the IP address and the
  length are unchanged.
\<close>

theorem endpoint_port_roundtrip:
  assumes "ep_ok e"
  shows "endpoint_port (endpoint_set_port e p) = Some (p mod 65536)
    \<and> drop 4 (e_addr (endpoint_set_port e p)) = drop 4 (e_addr e)
    \<and> ss_family (e_addr (endpoint_set_port e p)) = ss_family (e_addr e)
    \<and> e_addrlen (endpoint_set_port e p) = e_addrlen e \<and> ep_ok (endpoint_set_port e p)"
  using endpoint_set_port_ok [OF assms] by simp

definition demo_ep :: endpoint where
  "demo_ep = \<lparr>e_addr = [2, 0, 0x10, 0x92, 10, 0, 0, 1] @ replicate 120 0, e_addrlen = 16\<rparr>"

lemma demo_ep_ok [simp]: "ep_ok demo_ep"
  by (simp add: ep_ok_def demo_ep_def ep_consts ss_family_def of_le16_def)

theorem endpoint_port_roundtrip_witness:
  "ep_ok demo_ep \<and> endpoint_port (endpoint_set_port demo_ep 7676) = Some 7676"
  using endpoint_port_roundtrip [OF demo_ep_ok, of 7676] by simp

text \<open>
  A copied endpoint is the same peer: whatever the destination held, copying is
  defined, the copy compares equal to the source and to exactly the endpoints the source
  compares equal to, and has the same port; the bytes after the address are the destination's.
\<close>

lemma endpoint_copy_same_peer:
  assumes "sockaddr_cmp_ok cmp" and "ep_ok src" and "length (e_addr dst) = sizeof_storage"
    and "ep_ok other"
  shows "\<exists>d. endpoint_copy dst src = Some d \<and> endpoint_cmp cmp d src = 0
    \<and> (endpoint_cmp cmp d other = 0 \<longleftrightarrow> endpoint_cmp cmp src other = 0)
    \<and> endpoint_port d = endpoint_port src
    \<and> drop (unat (e_addrlen src)) (e_addr d) = drop (unat (e_addrlen src)) (e_addr dst)"
proof -
  from endpoint_copy_ok [OF assms(2,3)] obtain d where
    d: "endpoint_copy dst src = Some d" "ep_ok d" "sa_key (e_addr d) = sa_key (e_addr src)"
      "drop (unat (e_addrlen src)) (e_addr d) = drop (unat (e_addrlen src)) (e_addr dst)" by blast
  then have "endpoint_port d = endpoint_port src" by (simp add: sa_key_def endpoint_port_def)
  with d assms endpoint_cmp_ok show ?thesis by simp
qed

lemma endpoint_copy_same_peer_witness:
  "\<exists>d. endpoint_copy demo_ep (endpoint_set_port demo_ep 7) = Some d
    \<and> endpoint_cmp demo_cmp d (endpoint_set_port demo_ep 7) = 0"
proof -
  have "ep_ok (endpoint_set_port demo_ep 7)" "length (e_addr demo_ep) = sizeof_storage"
    using endpoint_set_port_ok(1) [OF demo_ep_ok] by (simp_all add: demo_ep_def sizeof_storage_def)
  from endpoint_copy_same_peer [OF demo_cmp_ok this demo_ep_ok] show ?thesis by blast
qed

end
