(* ===== verification/Conf.thy ===== *)
theory Conf
  imports Endpoint
begin

text \<open>
  The configuration (\<open>src/conf.c\<close>, \<open>include/options.h\<close>). The JSON parser yajl is an
  argument: for an input, the callbacks it makes and the status of the completed parse. The
  key a callback refers to is the one of the last \<open>yajl_map_key\<close>; it is a block of
  characters without a terminator. Parsing an address and appending to a vector are
  arguments too.
\<close>

section \<open>State\<close>

definition TNETACLE_DEFAULT_PORT :: int where "TNETACLE_DEFAULT_PORT = 4242"
definition CLIENT_DEFAULT_PORT :: int where "CLIENT_DEFAULT_PORT = 4243"
definition TNETACLE_MAX_PORTS :: nat where "TNETACLE_MAX_PORTS = 256"

definition TNT_TUNMODE_TUNNEL :: int where "TNT_TUNMODE_TUNNEL = 0"
definition TNT_TUNMODE_ETHERNET :: int where "TNT_TUNMODE_ETHERNET = 1"
definition TNT_DAEMONMODE_ROUTER :: int where "TNT_DAEMONMODE_ROUTER = 0"
definition TNT_DAEMONMODE_SWITCH :: int where "TNT_DAEMONMODE_SWITCH = 1"
definition TNT_DAEMONMODE_HUB :: int where "TNT_DAEMONMODE_HUB = 2"

record cfg_sockaddress =
  cs_len :: int
  cs_sockaddr :: bytes

record options =
  o_tunnel :: int
  o_tunnel_index :: int
  o_mode :: int
  o_debug :: int
  o_compression :: int
  o_encryption :: int
  o_ports :: "int list"
  o_cports :: "int list"
  o_addr_family :: u16
  o_listen_addrs :: "cfg_sockaddress list"
  o_client_addrs :: "cfg_sockaddress list"
  o_peer_addrs :: "cfg_sockaddress list"
  o_addr :: "string option"
  o_key_path :: "string option"
  o_cert_path :: "string option"

text \<open>What the parser callbacks use: the vector operation, the address parser, the allocator.\<close>

record cenv =
  c_push :: "cfg_sockaddress list \<Rightarrow> cfg_sockaddress \<Rightarrow> cfg_sockaddress list"
  c_parse :: parse_sockaddr
  c_alloc :: bool

record conf =
  c_opts :: options
  c_key :: "string option"

definition init_options :: options where
  "init_options =
     \<lparr>o_tunnel = TNT_TUNMODE_TUNNEL, o_tunnel_index = -1, o_mode = TNT_DAEMONMODE_ROUTER, o_debug = 0,
      o_compression = 1, o_encryption = 1,
      o_ports = replicate TNETACLE_MAX_PORTS (-1), o_cports = replicate TNETACLE_MAX_PORTS (-1),
      o_addr_family = AF_UNSPEC, o_listen_addrs = [], o_client_addrs = [], o_peer_addrs = [],
      o_addr = None, o_key_path = None, o_cert_path = None\<rparr>"

section \<open>Addresses and ports\<close>

text \<open>The string at \<open>bufaddr\<close> is the part of the block before its terminator.\<close>

definition block_string :: "string \<Rightarrow> string option" where
  "block_string b = map_option (\<lambda>n. take n b) (c_strlen b)"

definition add_sockaddr :: "cenv \<Rightarrow> cfg_sockaddress list \<Rightarrow> string \<Rightarrow> (int \<times> cfg_sockaddress list) option" where
  "add_sockaddr C vsp bufaddr =
     do { s \<leftarrow> block_string bufaddr;
          case c_parse C s sizeof_storage of
            None \<Rightarrow> Some (-1, vsp)
          | Some b \<Rightarrow>
              do { a \<leftarrow> mem_write (replicate sizeof_storage 0) 0 b;
                   Some (0, c_push C vsp \<lparr>cs_len = int (length b), cs_sockaddr = a\<rparr>) } }"

text \<open>
  The address stored for a port: the wildcard address, all zero, after the family and port.
  \<open>inet_pton\<close> of the two literals succeeds. The second address overwrites the first, of
  which no byte but the family and the port is set.
\<close>

definition wild_sockaddr :: "u16 \<Rightarrow> int \<Rightarrow> bytes" where
  "wild_sockaddr family port =
     le16 family @ le16 (htons (word_of_int port)) @ replicate (sizeof_storage - 4) 0"

fun add_addrs_ports ::
    "cenv \<Rightarrow> u16 \<Rightarrow> int list \<Rightarrow> cfg_sockaddress list \<Rightarrow> cfg_sockaddress list" where
  "add_addrs_ports C family [] vsp = vsp"
| "add_addrs_ports C family (p # ps) vsp =
     (if p = -1 then vsp
      else
        let v4 = (if family = AF_INET \<or> family = AF_UNSPEC
                  then c_push C vsp \<lparr>cs_len = int sizeof_sin, cs_sockaddr = wild_sockaddr AF_INET p\<rparr> else vsp);
            v6 = (if family = AF_INET6 \<or> family = AF_UNSPEC
                  then c_push C v4 \<lparr>cs_len = int sizeof_sin6, cs_sockaddr = wild_sockaddr AF_INET6 p\<rparr> else v4)
        in add_addrs_ports C family ps v6)"

definition add_listen_addrs_ports :: "cenv \<Rightarrow> u16 \<Rightarrow> int list \<Rightarrow> options \<Rightarrow> options" where
  "add_listen_addrs_ports C family ports opt =
     opt\<lparr>o_listen_addrs := add_addrs_ports C family ports (o_listen_addrs opt)\<rparr>"

definition add_client_addrs_ports :: "cenv \<Rightarrow> u16 \<Rightarrow> int list \<Rightarrow> options \<Rightarrow> options" where
  "add_client_addrs_ports C family ports opt =
     opt\<lparr>o_client_addrs := add_addrs_ports C family ports (o_client_addrs opt)\<rparr>"

section \<open>The callbacks of the parser\<close>

text \<open>A callback that refuses a value returns -1, which yajl does not take as a request to stop.\<close>

type_synonym cb = "conf \<Rightarrow> (int \<times> conf) option"

definition key_is :: "string \<Rightarrow> string \<Rightarrow> bool" where
  "key_is name key \<longleftrightarrow> strncmp_eq (cstr name) key (length key) = Some True"

text \<open>
  An unknown key is copied to a buffer of exactly its length, and the terminator is written
  after the end of that buffer.
\<close>

definition str_put :: "string \<Rightarrow> nat \<Rightarrow> char \<Rightarrow> string option" where
  "str_put s i ch = (if i < length s then Some (s[i := ch]) else None)"

definition unknown_key :: "string \<Rightarrow> conf \<Rightarrow> (int \<times> conf) option" where
  "unknown_key key c = do { s \<leftarrow> str_put key (length key) NUL; Some (-1, c) }"

lemma unknown_key_overflow [simp]: "unknown_key key c = None"
  by (simp add: unknown_key_def str_put_def)

definition yajl_null :: cb where "yajl_null c = Some (-1, c)"
definition yajl_integer :: cb where "yajl_integer c = Some (-1, c)"
definition yajl_double :: cb where "yajl_double c = Some (-1, c)"
definition yajl_start_map :: cb where "yajl_start_map c = Some (-1, c)"
definition yajl_start_array :: cb where "yajl_start_array c = Some (-1, c)"
definition yajl_end_map :: cb where "yajl_end_map c = Some (-1, c\<lparr>c_key := None\<rparr>)"
definition yajl_end_array :: cb where "yajl_end_array c = Some (-1, c\<lparr>c_key := None\<rparr>)"

definition yajl_map_key :: "string \<Rightarrow> cb" where
  "yajl_map_key key c = Some (1, c\<lparr>c_key := Some key\<rparr>)"

definition yajl_boolean :: "int \<Rightarrow> cb" where
  "yajl_boolean v c =
     (case c_key c of
        None \<Rightarrow> Some (-1, c)
      | Some k \<Rightarrow>
          if key_is ''Compression'' k then Some (1, c\<lparr>c_opts := (c_opts c)\<lparr>o_compression := v\<rparr>\<rparr>)
          else if key_is ''Encryption'' k then Some (1, c\<lparr>c_opts := (c_opts c)\<lparr>o_encryption := v\<rparr>\<rparr>)
          else if key_is ''Debug'' k then Some (1, c\<lparr>c_opts := (c_opts c)\<lparr>o_debug := v\<rparr>\<rparr>)
          else unknown_key k c)"

text \<open>The first free slot of a port table; one past the end if it is full.\<close>

fun free_slot :: "int list \<Rightarrow> nat" where
  "free_slot [] = 0"
| "free_slot (p # ps) = (if p = -1 then 0 else Suc (free_slot ps))"

definition put_slot :: "int list \<Rightarrow> int \<Rightarrow> int list option" where
  "put_slot ps v = (if free_slot ps < length ps then Some (ps[free_slot ps := v]) else None)"

definition yajl_number :: "string \<Rightarrow> cb" where
  "yajl_number num c =
     (case c_key c of
        None \<Rightarrow> Some (-1, c)
      | Some k \<Rightarrow>
          if length num > 20 then Some (-1, c)
          else
            do { let nptr = num @ replicate (20 - length num) NUL;
                 (ret, errstr) \<leftarrow> c_strtol nptr;
                 if errstr = [] then None
                 else if hd errstr \<noteq> NUL \<or> ret < 0 \<or> ret > 65535 then Some (-1, c)
                 else if key_is ''TunnelIndex'' k then Some (1, c\<lparr>c_opts := (c_opts c)\<lparr>o_tunnel_index := ret\<rparr>\<rparr>)
                 else if key_is ''Port'' k then
                   do { ps \<leftarrow> put_slot (o_ports (c_opts c)) ret; Some (1, c\<lparr>c_opts := (c_opts c)\<lparr>o_ports := ps\<rparr>\<rparr>) }
                 else if key_is ''ClientPort'' k then
                   do { ps \<leftarrow> put_slot (o_cports (c_opts c)) ret; Some (1, c\<lparr>c_opts := (c_opts c)\<lparr>o_cports := ps\<rparr>\<rparr>) }
                 else unknown_key k c })"

text \<open>\<open>memcpy\<close> of the value into a cleared buffer of \<open>INET6_ADDRSTRLEN\<close> characters.\<close>

definition addr_buf :: "string \<Rightarrow> string option" where
  "addr_buf str =
     (if length str \<le> INET6_ADDRSTRLEN then Some (str @ replicate (INET6_ADDRSTRLEN - length str) NUL) else None)"

definition yajl_string :: "cenv \<Rightarrow> string \<Rightarrow> cb" where
  "yajl_string C str c =
     (let n = length str; opt = c_opts c; set = (\<lambda>opt. Some (1, c\<lparr>c_opts := opt\<rparr>)) in
      case c_key c of
        None \<Rightarrow> Some (-1, c)
      | Some k \<Rightarrow>
          if key_is ''Address'' k then
            (if c_alloc C then set (opt\<lparr>o_addr := Some (c_strndup str n)\<rparr>)
             else Some (-1, c\<lparr>c_opts := opt\<lparr>o_addr := None\<rparr>\<rparr>))
          else if key_is ''AddressFamily'' k then
            (if key_is ''inet6'' str then set (opt\<lparr>o_addr_family := AF_INET\<rparr>)
             else if key_is ''inet'' str then set (opt\<lparr>o_addr_family := AF_INET6\<rparr>)
             else if key_is ''any'' str then set (opt\<lparr>o_addr_family := AF_UNSPEC\<rparr>)
             else Some (-1, c))
          else if key_is ''Mode'' k then
            (if key_is ''router'' str then set (opt\<lparr>o_tunnel := TNT_DAEMONMODE_ROUTER\<rparr>)
             else if key_is ''switch'' str then set (opt\<lparr>o_tunnel := TNT_DAEMONMODE_SWITCH\<rparr>)
             else if key_is ''hub'' str then set (opt\<lparr>o_tunnel := TNT_DAEMONMODE_HUB\<rparr>)
             else Some (-1, c))
          else if key_is ''Tunnel'' k then
            (if key_is ''point-to-point'' str then set (opt\<lparr>o_tunnel := TNT_TUNMODE_TUNNEL\<rparr>)
             else if key_is ''ethernet'' str then set (opt\<lparr>o_tunnel := TNT_TUNMODE_ETHERNET\<rparr>)
             else Some (-1, c))
          else if key_is ''PrivateKey'' k then
            (if c_alloc C then set (opt\<lparr>o_key_path := Some (c_strndup str n)\<rparr>)
             else Some (-1, c\<lparr>c_opts := opt\<lparr>o_key_path := None\<rparr>\<rparr>))
          else if key_is ''CertFile'' k then
            (if c_alloc C then set (opt\<lparr>o_cert_path := Some (c_strndup str n)\<rparr>)
             else Some (-1, c\<lparr>c_opts := opt\<lparr>o_cert_path := None\<rparr>\<rparr>))
          else if key_is ''PeerAddress'' k then
            do { b \<leftarrow> addr_buf str;
                 (_, v) \<leftarrow> add_sockaddr C (o_peer_addrs opt) b;
                 set (opt\<lparr>o_peer_addrs := v\<rparr>) }
          else if key_is ''ListenAddress'' k then
            do { b \<leftarrow> addr_buf str;
                 opt1 \<leftarrow> (if key_is ''any'' str
                          then Some (add_listen_addrs_ports C (o_addr_family opt) (o_ports opt) opt)
                          else do { (_, v) \<leftarrow> add_sockaddr C (o_listen_addrs opt) b;
                                    Some (opt\<lparr>o_listen_addrs := v\<rparr>) });
                 set (add_client_addrs_ports C (o_addr_family opt1) (o_cports opt1) opt1) }
          else unknown_key k c)"

section \<open>Parsing\<close>

datatype yevent =
    Ynull | Yboolean int | Yinteger | Ydouble | Ynumber string | Ystring string
  | Ystart_map | Ymap_key string | Yend_map | Ystart_array | Yend_array

fun callbacks :: "cenv \<Rightarrow> yevent \<Rightarrow> cb" where
  "callbacks C Ynull = yajl_null"
| "callbacks C (Yboolean v) = yajl_boolean v"
| "callbacks C Yinteger = yajl_integer"
| "callbacks C Ydouble = yajl_double"
| "callbacks C (Ynumber s) = yajl_number s"
| "callbacks C (Ystring s) = yajl_string C s"
| "callbacks C Ystart_map = yajl_start_map"
| "callbacks C (Ymap_key k) = yajl_map_key k"
| "callbacks C Yend_map = yajl_end_map"
| "callbacks C Ystart_array = yajl_start_array"
| "callbacks C Yend_array = yajl_end_array"

text \<open>
  yajl makes the callbacks in order and cancels the parse when one returns 0; the flag is
  whether it did.
\<close>

fun run_callbacks :: "cenv \<Rightarrow> yevent list \<Rightarrow> conf \<Rightarrow> (bool \<times> conf) option" where
  "run_callbacks C [] c = Some (False, c)"
| "run_callbacks C (e # es) c =
     do { (r, c1) \<leftarrow> callbacks C e c; if r = 0 then Some (True, c1) else run_callbacks C es c1 }"

text \<open>
  \<open>yajl\<close> gives the callbacks for the input and whether \<open>yajl_complete_parse\<close> succeeds for an
  input that was not cancelled. The last component is the global \<open>debug\<close>.
\<close>

definition tnt_parse_buf ::
    "cenv \<Rightarrow> (string \<Rightarrow> yevent list \<times> bool) \<Rightarrow> string \<Rightarrow> int \<Rightarrow> (int \<times> options \<times> int) option" where
  "tnt_parse_buf C yajl p debug =
     do { let (es, complete) = yajl p;
          (cancelled, c) \<leftarrow> run_callbacks C es \<lparr>c_opts = init_options, c_key = None\<rparr>;
          let opt = c_opts c;
          if cancelled \<or> \<not> complete then Some (-1, opt, debug)
          else
            let ports = (if o_ports opt ! 0 = -1 then (o_ports opt)[0 := TNETACLE_DEFAULT_PORT] else o_ports opt);
                cports = (if o_cports opt ! 0 = -1 then (o_cports opt)[0 := CLIENT_DEFAULT_PORT] else o_cports opt)
            in Some (0, opt\<lparr>o_ports := ports, o_cports := cports\<rparr>, o_debug opt) }"

section \<open>The invariant of the options\<close>

text \<open>A port table: the ports given so far, then free slots.\<close>

definition packed :: "int list \<Rightarrow> bool" where
  "packed ps \<longleftrightarrow> length ps = TNETACLE_MAX_PORTS \<and>
     (\<exists>qs. ps = qs @ replicate (TNETACLE_MAX_PORTS - length qs) (-1) \<and> (\<forall>q \<in> set qs. 0 \<le> q \<and> q \<le> 65535))"

lemma free_slot_packed: "-1 \<notin> set qs \<Longrightarrow> free_slot (qs @ replicate n (-1)) = length qs"
proof (induction qs)
  case Nil
  show ?case by (cases n) simp_all
qed auto

lemma packed_init: "packed (replicate TNETACLE_MAX_PORTS (-1))"
  unfolding packed_def by (auto intro: exI [of _ "[]"])

lemma put_slot_ok:
  assumes "ps = qs @ replicate (TNETACLE_MAX_PORTS - length qs) (-1)" and "-1 \<notin> set qs"
    and "length qs < TNETACLE_MAX_PORTS"
  shows "put_slot ps v = Some ((qs @ [v]) @ replicate (TNETACLE_MAX_PORTS - length (qs @ [v])) (-1))"
proof -
  obtain n where n: "TNETACLE_MAX_PORTS - length qs = Suc n"
    using assms(3) by (metis Suc_diff_Suc)
  then have "free_slot ps = length qs" "ps = qs @ -1 # replicate n (-1)"
    using free_slot_packed [OF assms(2), of "Suc n"] assms(1) by auto
  with n show ?thesis by (simp add: put_slot_def)
qed

lemma put_slot_packed:
  assumes "packed ps" and "0 \<le> v" "v \<le> 65535" and "put_slot ps v = Some ps'"
  shows "packed ps'"
proof -
  obtain qs where qs: "ps = qs @ replicate (TNETACLE_MAX_PORTS - length qs) (-1)"
    "\<forall>q \<in> set qs. 0 \<le> q \<and> q \<le> 65535" "length ps = TNETACLE_MAX_PORTS"
    using assms(1) by (auto simp: packed_def)
  have nq: "-1 \<notin> set qs" using qs(2) by auto
  have "length qs < TNETACLE_MAX_PORTS"
  proof (rule ccontr)
    assume "\<not> ?thesis"
    then have "ps = qs" using qs(1) by simp
    then have "free_slot ps = length ps" using free_slot_packed [OF nq, of 0] by simp
    with assms(4) show False by (simp add: put_slot_def)
  qed
  with put_slot_ok [OF qs(1) nq this, of v] assms qs(2) show ?thesis
    unfolding packed_def by (auto intro!: exI [of _ "qs @ [v]"])
qed

definition opts_inv :: "options \<Rightarrow> bool" where
  "opts_inv opt \<longleftrightarrow> packed (o_ports opt) \<and> packed (o_cports opt) \<and> o_mode opt = TNT_DAEMONMODE_ROUTER"

lemma opts_inv_init: "opts_inv init_options"
  by (simp add: opts_inv_def init_options_def packed_init)

lemma yajl_number_ok:
  assumes "yajl_number num c = Some (r, c')"
  shows "r \<noteq> 0 \<and> (opts_inv (c_opts c) \<longrightarrow> opts_inv (c_opts c'))
    \<and> o_addr_family (c_opts c') = o_addr_family (c_opts c)"
proof (cases "c_key c")
  case (Some k)
  show ?thesis
  proof (cases "length num > 20")
    case False
    then obtain v e where v: "c_strtol (num @ replicate (20 - length num) NUL) = Some (v, e)"
      using assms Some by (auto simp: yajl_number_def bind_eq_Some_conv)
    note eq = assms [unfolded yajl_number_def Let_def Some v, simplified]
    show ?thesis
    proof (cases "e = [] \<or> hd e \<noteq> NUL \<or> v < 0 \<or> 65535 < v")
      case True
      with False eq show ?thesis by (auto split: if_splits)
    next
      case ok: False
      then have pk: "put_slot ps v = Some ps' \<Longrightarrow> packed ps \<Longrightarrow> packed ps'" for ps ps'
        using put_slot_packed [of ps v ps'] by simp
      from ok False eq show ?thesis
        by (auto simp: opts_inv_def bind_eq_Some_conv dest: pk split: if_splits)
    qed
  qed (use assms Some in \<open>simp add: yajl_number_def\<close>)
qed (use assms in \<open>simp add: yajl_number_def\<close>)

lemma yajl_boolean_ok:
  assumes "yajl_boolean v c = Some (r, c')"
  shows "r \<noteq> 0 \<and> (opts_inv (c_opts c) \<longrightarrow> opts_inv (c_opts c'))
    \<and> o_addr_family (c_opts c') = o_addr_family (c_opts c)"
  using assms unfolding yajl_boolean_def 
  by (auto simp: opts_inv_def split: option.splits if_splits)

text \<open>The string callback changes neither the port tables nor the mode.\<close>

lemma yajl_string_ok:
  assumes "yajl_string C str c = Some (r, c')"
  shows "r \<noteq> 0 \<and> o_ports (c_opts c') = o_ports (c_opts c) \<and> o_cports (c_opts c') = o_cports (c_opts c)
    \<and> o_mode (c_opts c') = o_mode (c_opts c)"
  using assms unfolding yajl_string_def Let_def
  by (auto simp: bind_eq_Some_conv add_listen_addrs_ports_def add_client_addrs_ports_def
      split: option.splits if_splits)

lemma callbacks_ok:
  assumes "callbacks C e c = Some (r, c')"
  shows "r \<noteq> 0 \<and> (opts_inv (c_opts c) \<longrightarrow> opts_inv (c_opts c'))"
proof (cases e)
  case (Ystring s)
  with assms yajl_string_ok [of C s c r c'] show ?thesis by (simp add: opts_inv_def)
qed (use assms yajl_number_ok yajl_boolean_ok in \<open>auto simp: yajl_null_def yajl_integer_def yajl_double_def
    yajl_start_map_def yajl_map_key_def yajl_end_map_def yajl_start_array_def yajl_end_array_def\<close>)

lemma run_callbacks_ok:
  "run_callbacks C es c = Some (b, c') \<Longrightarrow> \<not> b \<and> (opts_inv (c_opts c) \<longrightarrow> opts_inv (c_opts c'))"
proof (induction es arbitrary: c)
  case (Cons e es)
  then obtain r c1 where c1: "callbacks C e c = Some (r, c1)"
    by (auto simp: bind_eq_Some_conv)
  with Cons.prems callbacks_ok [OF c1] have "run_callbacks C es c1 = Some (b, c')" by simp
  with Cons.IH callbacks_ok [OF c1] show ?case by blast
qed simp

lemma max_ports_pos: "0 < TNETACLE_MAX_PORTS"
  by (simp add: TNETACLE_MAX_PORTS_def)

lemma packed_first:
  assumes "packed ps" and "ps ! 0 = -1"
  shows "ps = replicate TNETACLE_MAX_PORTS (-1)"
proof -
  obtain qs where qs: "ps = qs @ replicate (TNETACLE_MAX_PORTS - length qs) (-1)" "\<forall>q \<in> set qs. 0 \<le> q"
    using assms(1) by (auto simp: packed_def)
  with assms(2) have "qs = []" by (cases qs) auto
  with qs(1) show ?thesis by simp
qed

lemma packed_single:
  assumes "0 \<le> v" "v \<le> 65535"
  shows "packed ((replicate TNETACLE_MAX_PORTS (-1))[0 := v])" "(replicate TNETACLE_MAX_PORTS (-1))[0 := v] ! 0 = v"
proof -
  obtain n where n: "TNETACLE_MAX_PORTS = Suc n" using max_ports_pos gr0_implies_Suc by blast
  show "packed ((replicate TNETACLE_MAX_PORTS (-1))[0 := v])"
    using assms unfolding packed_def n by (auto intro!: exI [of _ "[v]"])
  show "(replicate TNETACLE_MAX_PORTS (-1))[0 := v] ! 0 = v" by (simp add: n)
qed

lemma packed_set_first:
  assumes "packed ps" and "0 \<le> v" "v \<le> 65535"
  shows "packed (if ps ! 0 = -1 then ps[0 := v] else ps)"
    and "0 \<le> (if ps ! 0 = -1 then ps[0 := v] else ps) ! 0"
proof -
  show "packed (if ps ! 0 = -1 then ps[0 := v] else ps)"
    using packed_single(1) [OF assms(2,3)] packed_first [OF assms(1)] assms(1) by auto
  obtain qs where qs: "ps = qs @ replicate (TNETACLE_MAX_PORTS - length qs) (-1)" "\<forall>q \<in> set qs. 0 \<le> q"
    using assms(1) by (auto simp: packed_def)
  show "0 \<le> (if ps ! 0 = -1 then ps[0 := v] else ps) ! 0"
  proof (cases qs)
    case Nil
    then have "ps ! 0 = -1" using qs(1) max_ports_pos by simp
    with packed_single(2) [OF assms(2,3)] packed_first [OF assms(1)] assms(2) show ?thesis by auto
  qed (use qs in auto)
qed

lemma tnt_parse_buf_inv:
  assumes "tnt_parse_buf C yajl p dbg = Some (r, opt, dbg')"
  shows "opts_inv opt \<and> (r = 0 \<longleftrightarrow> snd (yajl p)) \<and> (r = -1 \<longleftrightarrow> \<not> snd (yajl p))
    \<and> (r = 0 \<longrightarrow> 0 \<le> o_ports opt ! 0 \<and> 0 \<le> o_cports opt ! 0 \<and> dbg' = o_debug opt)"
proof -
  obtain es cpl where y: "yajl p = (es, cpl)" by (cases "yajl p")
  with assms obtain b c where r: "run_callbacks C es \<lparr>c_opts = init_options, c_key = None\<rparr> = Some (b, c)"
    by (auto simp: tnt_parse_buf_def bind_eq_Some_conv)
  have inv: "\<not> b" "opts_inv (c_opts c)"
    using run_callbacks_ok [OF r] opts_inv_init by simp_all
  note eq = assms [unfolded tnt_parse_buf_def y, simplified, unfolded r, simplified]
  show ?thesis
  proof (cases cpl)
    case False
    with eq inv y show ?thesis by auto
  next
    case True
    with eq inv have o: "opt = (c_opts c)\<lparr>o_ports := (if o_ports (c_opts c) ! 0 = -1
          then (o_ports (c_opts c))[0 := TNETACLE_DEFAULT_PORT] else o_ports (c_opts c)),
        o_cports := (if o_cports (c_opts c) ! 0 = -1
          then (o_cports (c_opts c))[0 := CLIENT_DEFAULT_PORT] else o_cports (c_opts c))\<rparr>"
      and r0: "r = 0" "dbg' = o_debug opt"
      by (auto simp: Let_def)
    have P: "packed (o_ports (c_opts c))" "packed (o_cports (c_opts c))"
      using inv(2) by (simp_all add: opts_inv_def)
    have D: "0 \<le> TNETACLE_DEFAULT_PORT" "TNETACLE_DEFAULT_PORT \<le> 65535" "0 \<le> CLIENT_DEFAULT_PORT"
      "CLIENT_DEFAULT_PORT \<le> 65535" by (simp_all add: TNETACLE_DEFAULT_PORT_def CLIENT_DEFAULT_PORT_def)
    show ?thesis
      using packed_set_first [OF P(1) D(1,2)] packed_set_first [OF P(2) D(3,4)] inv(2) r0 y True
      unfolding o opts_inv_def by simp
  qed
qed

text \<open>
  Claim C31. Every configuration the parser accepts is well formed: the two port tables have
  256 entries, the ports given in the order of the file and then free slots, every port lies
  between 0 and 65535, and the first one is set, to the default if the file gives none. No
  refused value makes the parse fail: the result is -1 only if the text is not valid JSON.
\<close>

theorem tnt_parse_buf_wellformed:
  assumes "tnt_parse_buf C yajl p dbg = Some (r, opt, dbg')"
  shows "opts_inv opt \<and> (r = 0 \<longleftrightarrow> snd (yajl p)) \<and> (r = -1 \<longleftrightarrow> \<not> snd (yajl p))
    \<and> (r = 0 \<longrightarrow> 0 \<le> o_ports opt ! 0 \<and> 0 \<le> o_cports opt ! 0 \<and> dbg' = o_debug opt)"
  using tnt_parse_buf_inv [OF assms] .

definition demo_cenv :: cenv where
  "demo_cenv = \<lparr>c_push = (\<lambda>v x. v @ [x]), c_parse = (\<lambda>s n. None), c_alloc = True\<rparr>"

lemma key_is_prefix: "NUL \<notin> set name \<Longrightarrow> NUL \<notin> set k \<Longrightarrow> key_is name k \<longleftrightarrow> (\<exists>r. name = k @ r)"
  by (simp add: key_is_def strncmp_key)

lemma nul_free_lit [simp]:
  "NUL \<notin> set ''inet6''" "NUL \<notin> set ''inet''" "NUL \<notin> set ''any''"
  by (simp_all add: NUL_def)

theorem tnt_parse_buf_wellformed_witness:
  "\<exists>opt. tnt_parse_buf demo_cenv (\<lambda>_. ([Ystart_map, Yend_map], True)) '''' 0 = Some (0, opt, 0)
     \<and> opts_inv opt \<and> 0 \<le> o_ports opt ! 0"
proof -
  obtain r opt d where p: "tnt_parse_buf demo_cenv (\<lambda>_. ([Ystart_map, Yend_map], True)) '''' 0 = Some (r, opt, d)"
    "d = o_debug init_options"
    by (simp add: tnt_parse_buf_def yajl_start_map_def yajl_end_map_def Let_def)
  with tnt_parse_buf_wellformed [OF p(1)] show ?thesis by (auto simp: init_options_def)
qed

lemma yajl_string_family:
  assumes "yajl_string C str c = Some (r, c')" and "NUL \<notin> set str"
  shows "o_addr_family (c_opts c') \<in> {o_addr_family (c_opts c), AF_INET, AF_UNSPEC}"
proof -
  have "key_is ''inet6'' str" if i: "key_is ''inet'' str"
  proof -
    obtain r where r: "''inet'' = str @ r"
      using i key_is_prefix [OF nul_free_lit(2) assms(2)] by blast
    have "''inet6'' = ''inet'' @ ''6''" by simp
    also have "\<dots> = str @ (r @ ''6'')" unfolding r by simp
    finally show ?thesis using key_is_prefix [OF nul_free_lit(1) assms(2)] by blast
  qed
  with assms(1) show ?thesis
    unfolding yajl_string_def Let_def
    by (auto simp: bind_eq_Some_conv add_listen_addrs_ports_def add_client_addrs_ports_def
        split: option.splits if_splits)
qed

definition nul_free :: "yevent \<Rightarrow> bool" where
  "nul_free e \<longleftrightarrow> (case e of Ystring s \<Rightarrow> NUL \<notin> set s | _ \<Rightarrow> True)"

lemma callbacks_family:
  assumes "callbacks C e c = Some (r, c')" and "nul_free e"
    and "o_addr_family (c_opts c) \<in> {AF_INET, AF_UNSPEC}"
  shows "o_addr_family (c_opts c') \<in> {AF_INET, AF_UNSPEC}"
proof (cases e)
  case (Ystring s)
  with assms yajl_string_family [of C s c r c'] show ?thesis by (auto simp: nul_free_def)
qed (use assms yajl_number_ok yajl_boolean_ok in \<open>auto simp: yajl_null_def yajl_integer_def yajl_double_def
    yajl_start_map_def yajl_map_key_def yajl_end_map_def yajl_start_array_def yajl_end_array_def\<close>)

lemma run_callbacks_family:
  assumes "run_callbacks C es c = Some (b, c')" and "\<forall>e \<in> set es. nul_free e"
    and "o_addr_family (c_opts c) \<in> {AF_INET, AF_UNSPEC}"
  shows "o_addr_family (c_opts c') \<in> {AF_INET, AF_UNSPEC}"
  using assms
proof (induction es arbitrary: c)
  case (Cons e es)
  then obtain r c1 where c1: "callbacks C e c = Some (r, c1)"
    by (auto simp: bind_eq_Some_conv)
  with Cons.prems callbacks_ok [OF c1] have "run_callbacks C es c1 = Some (b, c')" by simp
  with Cons.IH callbacks_family [OF c1] Cons.prems show ?case by simp
qed simp

text \<open>
  Two options have no effect of their own. Whatever the file says, the daemon mode
  stays \<open>router\<close>: the values of \<open>Mode\<close> are stored in the field for the tunnel. And as long as
  no string contains a NUL character the address family is never IPv6: the names are compared
  as prefixes and the results are swapped, so both \<open>inet\<close> and \<open>inet6\<close> select IPv4.
\<close>

lemma tnt_parse_buf_mode_family:
  assumes "tnt_parse_buf C yajl p dbg = Some (r, opt, dbg')" and "\<forall>e \<in> set (fst (yajl p)). nul_free e"
  shows "o_mode opt = TNT_DAEMONMODE_ROUTER \<and> o_addr_family opt \<noteq> AF_INET6"
proof -
  obtain es cpl where y: "yajl p = (es, cpl)" by (cases "yajl p")
  with assms obtain b c where r: "run_callbacks C es \<lparr>c_opts = init_options, c_key = None\<rparr> = Some (b, c)"
    by (auto simp: tnt_parse_buf_def bind_eq_Some_conv)
  have o: "o_mode opt = o_mode (c_opts c)" "o_addr_family opt = o_addr_family (c_opts c)"
    using assms(1) y r by (auto simp: tnt_parse_buf_def Let_def split: if_splits)
  have "o_addr_family init_options \<in> {AF_INET, AF_UNSPEC}" by (simp add: init_options_def)
  then have "o_addr_family (c_opts c) \<in> {AF_INET, AF_UNSPEC}"
    using run_callbacks_family [OF r] assms(2) y by simp
  moreover have "o_mode (c_opts c) = TNT_DAEMONMODE_ROUTER"
    using run_callbacks_ok [OF r] opts_inv_init by (simp add: opts_inv_def)
  ultimately show ?thesis using o by (auto simp: ep_consts)
qed

lemma tnt_parse_buf_mode_family_witness:
  "\<exists>opt. tnt_parse_buf demo_cenv (\<lambda>_. ([Ymap_key ''AddressFamily'', Ystring ''inet6''], True)) '''' 0 = Some (0, opt, 0)
     \<and> o_mode opt = TNT_DAEMONMODE_ROUTER \<and> o_addr_family opt \<noteq> AF_INET6"
proof -
  let ?y = "\<lambda>_ :: string. ([Ymap_key ''AddressFamily'', Ystring ''inet6''], True)"
  have k: "\<not> key_is ''Address'' ''AddressFamily''" "key_is ''AddressFamily'' ''AddressFamily''" "key_is ''inet6'' ''inet6''"
    by (simp_all add: key_is_def cstr_def NUL_def numeral_eq_Suc)
  obtain r opt d where p: "tnt_parse_buf demo_cenv ?y '''' 0 = Some (r, opt, d)" "r = 0" "d = 0"
    using k by (simp add: tnt_parse_buf_def yajl_map_key_def yajl_string_def Let_def init_options_def)
  have "\<forall>e \<in> set (fst (?y '''')). nul_free e" by (simp add: nul_free_def NUL_def)
  with tnt_parse_buf_mode_family [OF p(1)] p show ?thesis by blast
qed

section \<open>Ports and listeners\<close>

lemma length_show_nat: "n < 10 ^ Suc k \<Longrightarrow> length (show_nat n) \<le> Suc k"
proof (induction k arbitrary: n)
  case (Suc k)
  show ?case
  proof (cases "n < 10")
    case False
    have "n div 10 < 10 ^ Suc k" using Suc.prems by (simp add: div_less_iff_less_mult mult.commute)
    with Suc.IH [of "n div 10"] False show ?thesis by (simp add: show_nat.simps [of n])
  qed (simp add: show_nat.simps [of n])
next
  case 0
  then show ?case by (simp add: show_nat.simps [of n])
qed

lemma key_Port: "\<not> key_is ''TunnelIndex'' ''Port''" "key_is ''Port'' ''Port''"
  by (simp_all add: key_is_def cstr_def NUL_def numeral_eq_Suc)

lemma yajl_number_port:
  assumes "c_key c = Some ''Port''" and "p \<le> 65535"
  shows "yajl_number (show_nat p) c =
    do { ps \<leftarrow> put_slot (o_ports (c_opts c)) (int p); Some (1, c\<lparr>c_opts := (c_opts c)\<lparr>o_ports := ps\<rparr>\<rparr>) }"
proof -
  have len: "length (show_nat p) \<le> 5" using length_show_nat [of p 4] assms(2) by simp
  then have "0 < 20 - length (show_nat p)" by simp
  then obtain n where n: "20 - length (show_nat p) = Suc n" using gr0_implies_Suc by blast
  have nd: "\<not> is_digit NUL" by (simp add: is_digit_def NUL_def)
  have "c_strtol (show_nat p @ replicate (20 - length (show_nat p)) NUL) = Some (int p, NUL # replicate n NUL)"
    unfolding n replicate_Suc using strtol_show [OF nd, of p] assms(2) by (simp add: LONG_MAX_def)
  then show ?thesis
    using assms len key_Port by (simp add: yajl_number_def)
qed

lemma run_ports:
  assumes "c_key c = Some ''Port''" and "\<forall>p \<in> set ps. p \<le> 65535"
    and "o_ports (c_opts c) = qs @ replicate (TNETACLE_MAX_PORTS - length qs) (-1)" and "-1 \<notin> set qs"
    and "length qs + length ps \<le> TNETACLE_MAX_PORTS"
  shows "run_callbacks C (map (\<lambda>p. Ynumber (show_nat p)) ps @ es) c =
    run_callbacks C es (c\<lparr>c_opts := (c_opts c)\<lparr>o_ports :=
      (qs @ map int ps) @ replicate (TNETACLE_MAX_PORTS - length (qs @ map int ps)) (-1)\<rparr>\<rparr>)"
  using assms
proof (induction ps arbitrary: c qs)
  case Nil
  then show ?case using Nil.prems(3) [symmetric] by simp
next
  case (Cons p ps)
  have "length qs < TNETACLE_MAX_PORTS" using Cons.prems(5) by simp
  from put_slot_ok [OF Cons.prems(3,4) this, of "int p"] yajl_number_port [OF Cons.prems(1), of p] Cons.prems(2)
  have y: "yajl_number (show_nat p) c = Some (1, c\<lparr>c_opts := (c_opts c)\<lparr>o_ports :=
      (qs @ [int p]) @ replicate (TNETACLE_MAX_PORTS - length (qs @ [int p])) (-1)\<rparr>\<rparr>)" by simp
  show ?case
    using Cons.IH [of _ "qs @ [int p]"] Cons.prems y by simp
qed

text \<open>What listening on all addresses adds for one port.\<close>

definition listen_any :: "u16 \<Rightarrow> int \<Rightarrow> cfg_sockaddress list" where
  "listen_any family p =
     (if family = AF_INET \<or> family = AF_UNSPEC
      then [\<lparr>cs_len = int sizeof_sin, cs_sockaddr = wild_sockaddr AF_INET p\<rparr>] else [])
     @ (if family = AF_INET6 \<or> family = AF_UNSPEC
        then [\<lparr>cs_len = int sizeof_sin6, cs_sockaddr = wild_sockaddr AF_INET6 p\<rparr>] else [])"

lemma add_addrs_ports_ok:
  assumes "\<forall>v x. c_push C v x = v @ [x]" and "-1 \<notin> set qs"
  shows "add_addrs_ports C family (qs @ replicate n (-1)) v = v @ concat (map (listen_any family) qs)"
  using assms(2)
proof (induction qs arbitrary: v)
  case Nil
  show ?case by (cases n) simp_all
next
  case (Cons q qs)
  then show ?case using assms(1) by (simp add: listen_any_def)
qed

lemma key_Listen:
  "\<not> key_is ''Address'' ''ListenAddress''" "\<not> key_is ''AddressFamily'' ''ListenAddress''"
  "\<not> key_is ''Mode'' ''ListenAddress''" "\<not> key_is ''Tunnel'' ''ListenAddress''"
  "\<not> key_is ''PrivateKey'' ''ListenAddress''" "\<not> key_is ''CertFile'' ''ListenAddress''"
  "\<not> key_is ''PeerAddress'' ''ListenAddress''" "key_is ''ListenAddress'' ''ListenAddress''" "key_is ''any'' ''any''"
  by (simp_all add: key_is_def cstr_def NUL_def numeral_eq_Suc)

lemma yajl_string_listen_any:
  assumes "c_key c = Some ''ListenAddress''"
  shows "yajl_string C ''any'' c = Some (1, c\<lparr>c_opts :=
    add_client_addrs_ports C (o_addr_family (c_opts c)) (o_cports (c_opts c))
      (add_listen_addrs_ports C (o_addr_family (c_opts c)) (o_ports (c_opts c)) (c_opts c))\<rparr>)"
  using assms key_Listen
  by (simp add: yajl_string_def addr_buf_def INET6_ADDRSTRLEN_def add_listen_addrs_ports_def Let_def)

lemma wild_sockaddr_facts:
  "ss_family (wild_sockaddr f p) = f" "uint (ntohs (raw_port (wild_sockaddr f p))) = p mod 65536"
  by (simp_all add: wild_sockaddr_def ss_family_def raw_port_def uint_word_of_int16)

text \<open>The events of the file \<open>{"Port": [ps], "ListenAddress": "any"}\<close>.\<close>

definition port_events :: "nat list \<Rightarrow> yevent list" where
  "port_events ps = [Ystart_map, Ymap_key ''Port'', Ystart_array] @ map (\<lambda>p. Ynumber (show_nat p)) ps
     @ [Yend_array, Ymap_key ''ListenAddress'', Ystring ''any'', Yend_map]"

text \<open>
  Claim C33. Listening on all addresses: a file that lists ports and then says
  \<open>"ListenAddress": "any"\<close> makes the daemon listen on the wildcard IPv4 and the wildcard IPv6
  address of each listed port, in the order of the file, and the ports are stored in that
  order. The list of ports may be empty: then the default port 4242 is stored, but, as it is
  stored only after the whole file is read, there is no address to listen on at all.
\<close>

theorem conf_listen_any:
  assumes "\<forall>v x. c_push C v x = v @ [x]" and "\<forall>p \<in> set ps. p \<le> 65535"
    and "length ps \<le> TNETACLE_MAX_PORTS" and "yajl txt = (port_events ps, True)"
  shows "\<exists>opt. tnt_parse_buf C yajl txt dbg = Some (0, opt, 0)
    \<and> map (\<lambda>a. (ss_family (cs_sockaddr a), uint (ntohs (raw_port (cs_sockaddr a))))) (o_listen_addrs opt)
        = concat (map (\<lambda>p. [(AF_INET, int p), (AF_INET6, int p)]) ps)
    \<and> take (length ps) (o_ports opt) = map int ps \<and> (ps = [] \<longrightarrow> o_ports opt ! 0 = 4242)"
proof -
  let ?qs = "map int ps" and ?n = TNETACLE_MAX_PORTS
  let ?ports = "?qs @ replicate (?n - length ?qs) (-1)"
  let ?c0 = "\<lparr>c_opts = init_options, c_key = Some ''Port''\<rparr>"
  let ?opt1 = "init_options\<lparr>o_ports := ?ports\<rparr>"
  have nq: "-1 \<notin> set ?qs" by auto
  have r1: "run_callbacks C (map (\<lambda>p. Ynumber (show_nat p)) ps @ es) ?c0 =
      run_callbacks C es (?c0\<lparr>c_opts := ?opt1\<rparr>)" for es
    using run_ports [of ?c0 ps "[]" C es] assms(2,3) by (simp add: init_options_def)
  let ?listen = "concat (map (listen_any AF_UNSPEC) ?qs)"
  have cl: "add_addrs_ports C AF_UNSPEC (replicate ?n (-1)) [] = []"
    using add_addrs_ports_ok [OF assms(1), of "[]" AF_UNSPEC ?n "[]"] by simp
  have ls: "add_addrs_ports C AF_UNSPEC ?ports [] = ?listen"
    using add_addrs_ports_ok [OF assms(1) nq, of AF_UNSPEC "?n - length ?qs" "[]"] by simp
  have run: "run_callbacks C (port_events ps) \<lparr>c_opts = init_options, c_key = None\<rparr>
      = Some (False, \<lparr>c_opts = ?opt1\<lparr>o_listen_addrs := ?listen\<rparr>, c_key = None\<rparr>)"
    using r1 cl ls
    by (simp add: port_events_def yajl_start_map_def yajl_map_key_def yajl_start_array_def yajl_end_array_def
        yajl_end_map_def yajl_string_listen_any add_listen_addrs_ports_def add_client_addrs_ports_def init_options_def)
  have sem: "map (\<lambda>a. (ss_family (cs_sockaddr a), uint (ntohs (raw_port (cs_sockaddr a))))) ?listen
      = concat (map (\<lambda>p. [(AF_INET, int p), (AF_INET6, int p)]) ps)"
    using assms(2) by (induction ps) (simp_all add: listen_any_def wild_sockaddr_facts)
  show ?thesis
  proof (cases "ps = []")
    case True
    with run sem max_ports_pos assms(4) show ?thesis
      by (simp add: tnt_parse_buf_def TNETACLE_DEFAULT_PORT_def init_options_def)
  next
    case False
    then have "?ports ! 0 \<noteq> -1" by (cases ps) simp_all
    with run sem assms(4) False show ?thesis
      by (simp add: tnt_parse_buf_def init_options_def Let_def)
  qed
qed

theorem conf_listen_any_witness:
  "\<exists>opt. tnt_parse_buf demo_cenv (\<lambda>_. (port_events [80, 443], True)) '''' 1 = Some (0, opt, 0)
    \<and> length (o_listen_addrs opt) = 4"
proof -
  have "\<forall>v x. c_push demo_cenv v x = v @ [x]" by (simp add: demo_cenv_def)
  from conf_listen_any [OF this, of "[80, 443]" "\<lambda>_. (port_events [80, 443], True)" "''''" 1]
  obtain opt where "tnt_parse_buf demo_cenv (\<lambda>_. (port_events [80, 443], True)) '''' 1 = Some (0, opt, 0)"
    "map (\<lambda>a. (ss_family (cs_sockaddr a), uint (ntohs (raw_port (cs_sockaddr a))))) (o_listen_addrs opt)
        = concat (map (\<lambda>p. [(AF_INET, int p), (AF_INET6, int p)]) [80, 443])"
    by (auto simp: TNETACLE_MAX_PORTS_def)
  then show ?thesis by (auto dest: arg_cong [where f = length])
qed

section \<open>Undefined behaviour in the callbacks\<close>

lemma free_slot_full: "-1 \<notin> set ps \<Longrightarrow> free_slot ps = length ps"
  by (induction ps) auto

lemma key_Peer:
  "\<not> key_is ''Address'' ''PeerAddress''" "\<not> key_is ''AddressFamily'' ''PeerAddress''"
  "\<not> key_is ''Mode'' ''PeerAddress''" "\<not> key_is ''Tunnel'' ''PeerAddress''"
  "\<not> key_is ''PrivateKey'' ''PeerAddress''" "\<not> key_is ''CertFile'' ''PeerAddress''"
  "key_is ''PeerAddress'' ''PeerAddress''"
  by (simp_all add: key_is_def cstr_def NUL_def numeral_eq_Suc)

text \<open>
  Three ways a configuration file writes outside an array: a peer address of more
  than 46 characters, which is copied into a buffer of 46 on the stack; one port more than
  the 256 of the table; and any option name that is not known, whose copy gets its
  terminator one past the end of the buffer.
\<close>

lemma conf_overflows:
  "(c_key c = Some ''PeerAddress'' \<and> INET6_ADDRSTRLEN < length str \<longrightarrow> yajl_string C str c = None)
   \<and> (c_key c = Some ''Port'' \<and> -1 \<notin> set (o_ports (c_opts c)) \<and> p \<le> 65535 \<longrightarrow> yajl_number (show_nat p) c = None)
   \<and> (c_key c = Some k \<and> \<not> key_is ''Compression'' k \<and> \<not> key_is ''Encryption'' k \<and> \<not> key_is ''Debug'' k
        \<longrightarrow> yajl_boolean v c = None)"
proof (intro conjI impI; elim conjE)
  assume "c_key c = Some ''PeerAddress''" "INET6_ADDRSTRLEN < length str"
  then show "yajl_string C str c = None"
    using key_Peer by (simp add: yajl_string_def addr_buf_def Let_def)
next
  assume "c_key c = Some ''Port''" "-1 \<notin> set (o_ports (c_opts c))" "p \<le> 65535"
  then show "yajl_number (show_nat p) c = None"
    using yajl_number_port free_slot_full by (simp add: put_slot_def)
next
  assume "c_key c = Some k" "\<not> key_is ''Compression'' k" "\<not> key_is ''Encryption'' k" "\<not> key_is ''Debug'' k"
  then show "yajl_boolean v c = None" by (simp add: yajl_boolean_def)
qed

lemma conf_overflows_witness:
  "yajl_string demo_cenv (replicate 47 CHR ''1'') \<lparr>c_opts = init_options, c_key = Some ''PeerAddress''\<rparr> = None"
  using conf_overflows [of "\<lparr>c_opts = init_options, c_key = Some ''PeerAddress''\<rparr>" "replicate 47 CHR ''1''" demo_cenv]
  by (simp add: INET6_ADDRSTRLEN_def)

section \<open>Reading the file\<close>

text \<open>
  \<open>tnt_parse_file\<close> of \<open>sys/unix/conf.c\<close>. What the file system answers is a record; the
  result has the calls that matter for descriptors and permissions.
\<close>

datatype fcall = F_open string | F_chmod int | F_close int | F_munmap

record fsys =
  f_open :: "string \<Rightarrow> int"
  f_errno :: errno
  f_stat :: "string \<Rightarrow> (nat \<times> nat) option"
  f_mmap :: "string option"

definition PATH_DEFAULT_CONFIG_FILE :: string where
  "PATH_DEFAULT_CONFIG_FILE = ''/etc/tNETacle.conf''"

text \<open>The permission bits of group and others.\<close>

definition insecure :: "nat \<Rightarrow> bool" where
  "insecure mode \<longleftrightarrow> mode mod 64 \<noteq> 0"

definition tnt_parse_file ::
    "cenv \<Rightarrow> (string \<Rightarrow> yevent list \<times> bool) \<Rightarrow> fsys \<Rightarrow> string option \<Rightarrow> options \<times> int
      \<Rightarrow> (int \<times> (options \<times> int) \<times> fcall list) option" where
  "tnt_parse_file C yajl F file st =
     (let path = (case file of None \<Rightarrow> PATH_DEFAULT_CONFIG_FILE | Some f \<Rightarrow> f);
          fd = f_open F path;
          log = [F_open path]
      in if fd \<noteq> -1 then
           (case f_stat F path of
              None \<Rightarrow> Some (-1, st, log @ [F_close fd])
            | Some (mode, sz) \<Rightarrow>
                (let log = (if insecure mode then log @ [F_chmod fd] else log)
                 in (case f_mmap F of
                       None \<Rightarrow> Some (-1, st, log)
                     | Some buf \<Rightarrow>
                         do { (ret, opt, dbg) \<leftarrow> tnt_parse_buf C yajl (take sz buf) (snd st);
                              if ret = -1 then Some (-1, (opt, dbg), log)
                              else Some (0, (opt, dbg), log @ [F_munmap, F_close fd]) })))
         else if f_errno F \<noteq> ENOENT then Some (-1, st, log)
         else Some (0, st, log))"

text \<open>
  Reading the configuration file. A file that does not exist is not an error and
  leaves the options as they are; any other failure to open it gives -1. A file that group
  or others may access has its permissions changed, and is used all the same. After a
  successful read the descriptor is closed; when mapping or parsing fails the result is -1
  and the descriptor stays open.
\<close>

lemma tnt_parse_file_correct:
  assumes "tnt_parse_file C yajl F file st = Some (r, st', log)"
    and "path = (case file of None \<Rightarrow> PATH_DEFAULT_CONFIG_FILE | Some f \<Rightarrow> f)" and "fd = f_open F path"
  shows "(fd = -1 \<longrightarrow> st' = st \<and> (r = 0 \<longleftrightarrow> f_errno F = ENOENT))
    \<and> (r = 0 \<and> fd \<noteq> -1 \<longrightarrow> last log = F_close fd \<and> opts_inv (fst st') \<and> snd st' = o_debug (fst st'))
    \<and> (\<forall>mode sz. fd \<noteq> -1 \<and> f_stat F path = Some (mode, sz) \<longrightarrow>
         (F_chmod fd \<in> set log \<longleftrightarrow> insecure mode) \<and> (r = -1 \<longrightarrow> F_close fd \<notin> set log))
    \<and> (fd \<noteq> -1 \<and> f_stat F path = None \<longrightarrow> r = -1 \<and> st' = st \<and> last log = F_close fd)"
proof -
  have p: "ret = -1 \<or> opts_inv opt \<and> dbg' = o_debug opt"
    if "tnt_parse_buf C yajl t d = Some (ret, opt, dbg')" for t d ret opt dbg'
    using tnt_parse_buf_inv [OF that] by auto
  show ?thesis
    using assms
    by (auto simp: tnt_parse_file_def Let_def bind_eq_Some_conv dest!: p split: if_splits option.splits)
qed

definition demo_fsys :: fsys where
  "demo_fsys = \<lparr>f_open = (\<lambda>p. 3), f_errno = E0, f_stat = (\<lambda>p. Some (420, 0)), f_mmap = Some ''''\<rparr>"

lemma tnt_parse_file_correct_witness:
  "\<exists>st' log. tnt_parse_file demo_cenv (\<lambda>_. ([], True)) demo_fsys None (init_options, 0) = Some (0, st', log)
    \<and> last log = F_close 3 \<and> opts_inv (fst st') \<and> F_chmod 3 \<in> set log"
proof -
  obtain st' log where f: "tnt_parse_file demo_cenv (\<lambda>_. ([], True)) demo_fsys None (init_options, 0) = Some (0, st', log)"
    "F_chmod 3 \<in> set log"
    by (simp add: tnt_parse_file_def demo_fsys_def tnt_parse_buf_def insecure_def Let_def)
  from tnt_parse_file_correct [OF f(1) refl] f show ?thesis by (simp add: demo_fsys_def)
qed

end
