(* ===== verification/Env.thy ===== *)
theory Env
  imports Endpoint
begin

text \<open>
  What the daemon runs in: the kernel, libevent, OpenSSL and the memory of the process.

  \<^item> A value of type \<open>intptr_t\<close> is an integer, a pointer into a block, or a pointer to a
    socket address inside another structure, which is given by the bytes there (\<open>val\<close>).
  \<^item> Every call of code outside the repository is an \<open>xcall\<close>; the world keeps the log of
    the calls made, with their results. What a call returns and stores is an oracle in the
    record \<open>env\<close>, a function of the log before the call and of the call.
  \<^item> Memory is a heap of blocks. An access outside a live block and a double free are
    \<open>None\<close>.

  Messages sent to the log of the daemon are not modelled.
\<close>

section \<open>Values and calls\<close>

datatype val = Vint int | Vptr nat nat | Vsa bytes

abbreviation null :: val where
  "null \<equiv> Vint 0"

fun val_int :: "val \<Rightarrow> int option" where
  "val_int (Vint i) = Some i"
| "val_int _ = None"

datatype sys =
    Sys_accept int
  | Sys_recvfrom int nat int
  | Sys_recv int nat int
  | Sys_read int nat
  | Sys_send int bytes int
  | Sys_sendto int bytes int bytes
  | Sys_write int bytes
  | Sys_close int
  | Sys_socket u16
  | Sys_socket_tcp u16
  | Sys_bind int bytes
  | Sys_getsockname int
  | Sys_nonblock int

text \<open>libevent: events, buffered sockets, listeners. Objects are their addresses, 0 is NULL.\<close>

datatype lev =
    Ev_new int int nat
  | Ev_add int "int option"
  | Ev_active int int
  | Ev_free int
  | Bev_new int
  | Bev_new_ssl int int int
  | Bev_free int
  | Bev_enable int
  | Bev_disable int
  | Bev_setcb int string
  | Bev_connect int bytes
  | Bev_get_ssl int
  | Bev_ssl_error int
  | Bev_output int bytes
  | Bev_print int string
  | Bev_readln int
  | Evl_bind string bytes
  | Evl_enable int
  | Evl_disable int
  | Evl_get_fd int
  | Evl_free int

datatype tls =
    Ctx_new string
  | Ctx_ciphers int string
  | Ctx_key int string
  | Ctx_chain int string
  | Ctx_verify int string
  | Ctx_free int
  | Ssl_new int
  | Ssl_free int
  | Ssl_peer_cert int
  | Ssl_pubkey int
  | Ssl_set_shutdown int
  | Ssl_shutdown int
  | Ssl_set_bio int int
  | Ssl_accept_state int
  | Ssl_connect_state int
  | Ssl_write int bytes
  | Ssl_read int nat
  | Bio_pair
  | Bio_free int
  | Bio_read int nat
  | Bio_write int bytes
  | Bio_pending int

datatype xcall = Sys sys | Lev lev | Tls tls

type_synonym history = "(xcall \<times> int) list"

section \<open>The environment and the world\<close>

text \<open>
  \<open>e_ret\<close> is the value a call returns, \<open>e_err\<close> the \<open>errno\<close> it leaves when that is -1,
  \<open>e_out\<close> the bytes it stores through a pointer argument, \<open>e_adr\<close> the socket address it
  stores. \<open>e_alloc\<close> says whether the k-th allocation succeeds.
\<close>

record env =
  e_ret :: "history \<Rightarrow> xcall \<Rightarrow> int"
  e_err :: "history \<Rightarrow> xcall \<Rightarrow> errno"
  e_out :: "history \<Rightarrow> xcall \<Rightarrow> bytes"
  e_adr :: "history \<Rightarrow> xcall \<Rightarrow> bytes"
  e_alloc :: "nat \<Rightarrow> bool"
  e_junk :: "nat \<Rightarrow> nat \<Rightarrow> byte"

record world =
  w_log :: history
  w_errno :: errno
  w_heap :: "nat \<Rightarrow> bytes option"
  w_next :: nat

definition call :: "'e env_scheme \<Rightarrow> xcall \<Rightarrow> 'w world_scheme \<Rightarrow> int \<times> 'w world_scheme" where
  "call E c w =
     (let r = e_ret E (w_log w) c
      in (r, w\<lparr>w_log := w_log w @ [(c, r)],
               w_errno := (if r = -1 then e_err E (w_log w) c else w_errno w)\<rparr>))"

text \<open>A call whose result the code does not use.\<close>

definition call0 :: "'e env_scheme \<Rightarrow> xcall \<Rightarrow> 'w world_scheme \<Rightarrow> 'w world_scheme" where
  "call0 E c w = snd (call E c w)"

text \<open>Only calls have been made: the log and \<open>errno\<close> may differ, nothing else.\<close>

definition logs :: "'w world_scheme \<Rightarrow> 'w world_scheme \<Rightarrow> bool" where
  "logs w w' \<longleftrightarrow> w_heap w' = w_heap w \<and> w_next w' = w_next w \<and> world.more w' = world.more w"

lemma logs_refl [simp]: "logs w w"
  by (simp add: logs_def)

lemma logs_trans: "logs w w1 \<Longrightarrow> logs w1 w2 \<Longrightarrow> logs w w2"
  by (simp add: logs_def)

lemma logs_call: "call E c w = (r, w') \<Longrightarrow> logs w w'"
  by (auto simp: logs_def call_def Let_def)

lemma logs_call0 [simp]: "logs w (call0 E c w)"
  by (simp add: call0_def logs_call [of E c w "fst (call E c w)"])

lemma logs_call0_trans: "logs w w1 \<Longrightarrow> logs w (call0 E c w1)"
  using logs_trans logs_call0 by blast

section \<open>Memory\<close>

text \<open>A new object: its address, or none if the allocation fails. Addresses are not reused.\<close>

definition o_new :: "'e env_scheme \<Rightarrow> 'w world_scheme \<Rightarrow> nat option \<times> 'w world_scheme" where
  "o_new E w = ((if e_alloc E (w_next w) then Some (w_next w) else None), w\<lparr>w_next := Suc (w_next w)\<rparr>)"

definition block_junk :: "'e env_scheme \<Rightarrow> nat \<Rightarrow> nat \<Rightarrow> bytes" where
  "block_junk E k n = map (e_junk E k) [0..<n]"

text \<open>\<open>malloc (n)\<close>\<close>

definition b_new :: "'e env_scheme \<Rightarrow> nat \<Rightarrow> 'w world_scheme \<Rightarrow> val \<times> 'w world_scheme" where
  "b_new E n w =
     (case o_new E w of
        (None, w1) \<Rightarrow> (null, w1)
      | (Some b, w1) \<Rightarrow> (Vptr b 0, w1\<lparr>w_heap := (w_heap w1)(b := Some (block_junk E b n))\<rparr>))"

text \<open>A local variable of \<open>n\<close> bytes.\<close>

definition b_local :: "'e env_scheme \<Rightarrow> nat \<Rightarrow> 'w world_scheme \<Rightarrow> val \<times> 'w world_scheme" where
  "b_local E n w =
     (Vptr (w_next w) 0,
      w\<lparr>w_heap := (w_heap w)(w_next w := Some (block_junk E (w_next w) n)), w_next := Suc (w_next w)\<rparr>)"

definition b_free :: "val \<Rightarrow> 'w world_scheme \<Rightarrow> 'w world_scheme option" where
  "b_free p w =
     (case p of
        Vint i \<Rightarrow> (if i = 0 then Some w else None)
      | Vptr b i \<Rightarrow> (if i = 0 \<and> w_heap w b \<noteq> None then Some (w\<lparr>w_heap := (w_heap w)(b := None)\<rparr>) else None)
      | Vsa a \<Rightarrow> None)"

definition b_load :: "val \<Rightarrow> nat \<Rightarrow> 'w world_scheme \<Rightarrow> bytes option" where
  "b_load p n w =
     (if n = 0 then Some [] else
      case p of
        Vint i \<Rightarrow> None
      | Vptr b i \<Rightarrow> (case w_heap w b of None \<Rightarrow> None | Some blk \<Rightarrow> mem_read blk i n)
      | Vsa a \<Rightarrow> mem_read a 0 n)"

definition b_store :: "val \<Rightarrow> bytes \<Rightarrow> 'w world_scheme \<Rightarrow> 'w world_scheme option" where
  "b_store p d w =
     (if d = [] then Some w else
      case p of
        Vint i \<Rightarrow> None
      | Vptr b i \<Rightarrow>
          (case w_heap w b of
             None \<Rightarrow> None
           | Some blk \<Rightarrow>
               map_option (\<lambda>blk'. w\<lparr>w_heap := (w_heap w)(b := Some blk')\<rparr>) (mem_write blk i d))
      | Vsa a \<Rightarrow> None)"

section \<open>Vectors\<close>

text \<open>
  The growable arrays of the library calm-containers. The value of a vector is the list of
  its elements, an iterator is a position in it, and the end is the length. The operations
  that change or search a vector are arguments; \<open>vec_ok\<close> is what their users rely on.
\<close>

record 'a vec_ops =
  v_push :: "'a list \<Rightarrow> 'a \<Rightarrow> 'a list"
  v_insert :: "'a list \<Rightarrow> 'a \<Rightarrow> 'a list \<times> nat"
  v_erase :: "'a list \<Rightarrow> nat \<Rightarrow> 'a list"
  v_find_if :: "('a \<Rightarrow> bool) \<Rightarrow> 'a list \<Rightarrow> nat"
  v_clean :: "'a list \<Rightarrow> 'a list"

definition vec_ok :: "'a vec_ops \<Rightarrow> bool" where
  "vec_ok V \<longleftrightarrow>
     (\<forall>v x. v_push V v x = v @ [x])
     \<and> (\<forall>v x. mset (fst (v_insert V v x)) = add_mset x (mset v)
          \<and> snd (v_insert V v x) < length (fst (v_insert V v x))
          \<and> fst (v_insert V v x) ! snd (v_insert V v x) = x)
     \<and> (\<forall>v i. i < length v \<longrightarrow> add_mset (v ! i) (mset (v_erase V v i)) = mset v)
     \<and> (\<forall>P v. let i = v_find_if V P v in
          i < length v \<and> P (v ! i) \<or> i = length v \<and> (\<forall>x \<in> set v. \<not> P x))
     \<and> (\<forall>v. v_clean V v = [])"

fun find_pos :: "('a \<Rightarrow> bool) \<Rightarrow> 'a list \<Rightarrow> nat" where
  "find_pos P [] = 0"
| "find_pos P (x # xs) = (if P x then 0 else Suc (find_pos P xs))"

definition list_vec :: "'a vec_ops" where
  "list_vec = \<lparr>v_push = (\<lambda>v x. v @ [x]), v_insert = (\<lambda>v x. (v @ [x], length v)),
     v_erase = (\<lambda>v i. take i v @ drop (Suc i) v), v_find_if = find_pos, v_clean = (\<lambda>v. [])\<rparr>"

lemma find_pos_spec:
  "find_pos P v < length v \<and> P (v ! find_pos P v) \<or> find_pos P v = length v \<and> (\<forall>x \<in> set v. \<not> P x)"
  by (induction v) auto

lemma list_vec_ok [simp]: "vec_ok list_vec"
proof -
  have "add_mset (v ! i) (mset (take i v @ drop (Suc i) v)) = mset v" if "i < length v" for v :: "'a list" and i
    using id_take_nth_drop [OF that] by (metis mset_append mset.simps(2) union_mset_add_mset_right)
  then show ?thesis
    unfolding vec_ok_def list_vec_def by (simp add: Let_def find_pos_spec)
qed

lemma vec_push: "vec_ok V \<Longrightarrow> v_push V v x = v @ [x]"
  by (simp add: vec_ok_def)

lemma vec_clean: "vec_ok V \<Longrightarrow> v_clean V v = []"
  by (simp add: vec_ok_def)

lemma vec_insert:
  assumes "vec_ok V" and "v_insert V v x = (v', i)"
  shows "mset v' = add_mset x (mset v)" "i < length v'" "v' ! i = x"
  using assms unfolding vec_ok_def by (metis fst_conv snd_conv)+

lemma vec_erase: "vec_ok V \<Longrightarrow> i < length v \<Longrightarrow> add_mset (v ! i) (mset (v_erase V v i)) = mset v"
  by (simp add: vec_ok_def)

lemma vec_find:
  assumes "vec_ok V"
  shows "v_find_if V P v < length v \<and> P (v ! v_find_if V P v)
    \<or> v_find_if V P v = length v \<and> (\<forall>x \<in> set v. \<not> P x)"
  using assms by (simp add: vec_ok_def Let_def)

end
