(* ===== verification/Sched.thy ===== *)
theory Sched
  imports Env
begin

text \<open>
  The cooperative scheduler (\<open>src/sched.c\<close>, \<open>include/tntsched.h\<close>). A fiber runs until it
  asks for an operation: it registers an event, writes the operation into its \<open>fib_op\<close> and
  transfers to the context it came from. When the event fires, \<open>sched_dispatch\<close> performs
  the operation and transfers back.

  A function on one side of a transfer has the other side as an argument: \<open>R\<close> is what
  happens between the moment a fiber leaves and the moment it is resumed, \<open>co\<close> is the run
  of a fiber until it transfers back. Contexts (\<open>coro_context\<close>) are opaque; the model keeps
  which of them belong to functions that have not returned, and transferring to another is
  undefined. The table from descriptors to events is a map of the library calm-containers.
\<close>

section \<open>State\<close>

definition EV_TIMEOUT :: int where "EV_TIMEOUT = 1"
definition EV_READ :: int where "EV_READ = 2"
definition EV_WRITE :: int where "EV_WRITE = 4"

record rw_events =
  r_event :: int
  w_event :: int

type_synonym fdmap = "int \<Rightarrow> rw_events option"

datatype sched_operation =
    NONE | READ | WRITE | ACCEPT | RECVFROM | SENDTO | SEND | RECV | YIELD | FREE | EVENT

record operation =
  op_type :: sched_operation
  op_fd :: val
  op_ret :: val
  op_arg1 :: val
  op_arg2 :: val
  op_arg3 :: val
  op_arg4 :: val
  op_arg5 :: val
  op_arg6 :: val

record fiber =
  fib_stack :: val
  fib_stack_size :: nat
  fib_op :: operation
  yield_event :: int
  map_fe :: nat
  fib_dtor :: "nat option"
  fib_dtor_ctx :: val

record fiber_args =
  a_fib :: nat
  a_userptr :: val

record sched =
  sc_evbase :: int
  sc_origin :: "nat option"

record sworld = world +
  w_fibers :: "nat \<Rightarrow> fiber option"
  w_args :: "nat \<Rightarrow> fiber_args option"
  w_maps :: "nat \<Rightarrow> fdmap option"
  w_sched :: sched
  w_ctxs :: "nat set"

text \<open>
  The two map operations the code uses, which are the library's; \<open>m_insert\<close> may fail.
\<close>

record senv = env +
  m_find :: "fdmap \<Rightarrow> int \<Rightarrow> rw_events option"
  m_insert :: "fdmap \<Rightarrow> int \<Rightarrow> rw_events \<Rightarrow> fdmap option"

definition map_ok :: "'e senv_scheme \<Rightarrow> bool" where
  "map_ok E \<longleftrightarrow> (\<forall>m k. m_find E m k = m k)
     \<and> (\<forall>m k v. m_insert E m k v = None \<or> m_insert E m k v = Some (m(k \<mapsto> v)))"

type_synonym 'w run = "'w sworld_scheme \<Rightarrow> 'w sworld_scheme option"

definition fib_of :: "nat \<Rightarrow> 'w sworld_scheme \<Rightarrow> (nat \<times> fiber) option" where
  "fib_of s w = do { a \<leftarrow> w_args w s; f \<leftarrow> w_fibers w (a_fib a); Some (a_fib a, f) }"

definition upd_op :: "nat \<Rightarrow> (operation \<Rightarrow> operation) \<Rightarrow> 'w run" where
  "upd_op k g w =
     do { f \<leftarrow> w_fibers w k;
          Some (w\<lparr>w_fibers := (w_fibers w)(k \<mapsto> f\<lparr>fib_op := g (fib_op f)\<rparr>)\<rparr>) }"

section \<open>Events\<close>

definition get_events ::
    "'e senv_scheme \<Rightarrow> nat \<Rightarrow> int \<Rightarrow> int \<Rightarrow> 'w sworld_scheme \<Rightarrow> (rw_events option \<times> 'w sworld_scheme) option" where
  "get_events E s fd event w =
     do { (k, f) \<leftarrow> fib_of s w;
          m \<leftarrow> w_maps w (map_fe f);
          case m_find E m fd of
            None \<Rightarrow>
              (let (ev, w1) =
                 (if event = EV_READ then
                    (let (p, w1) = call E (Lev (Ev_new fd EV_READ k)) w in (\<lparr>r_event = p, w_event = 0\<rparr>, w1))
                  else if event = EV_WRITE then
                    (let (p, w1) = call E (Lev (Ev_new fd EV_WRITE k)) w in (\<lparr>r_event = 0, w_event = p\<rparr>, w1))
                  else (\<lparr>r_event = 0, w_event = 0\<rparr>, w))
               in case m_insert E m fd ev of
                    None \<Rightarrow> Some (None, w1)
                  | Some m1 \<Rightarrow> Some (Some ev, w1\<lparr>w_maps := (w_maps w1)(map_fe f \<mapsto> m1)\<rparr>))
          | Some t \<Rightarrow>
              (if event = EV_READ \<and> r_event t \<noteq> 0 \<or> event = EV_WRITE \<and> w_event t \<noteq> 0 then Some (Some t, w)
               else
                 let (t1, w1) =
                   (if event = EV_READ then
                      (let (p, w1) = call E (Lev (Ev_new fd EV_READ k)) w in (t\<lparr>r_event := p\<rparr>, w1))
                    else if event = EV_WRITE then
                      (let (p, w1) = call E (Lev (Ev_new fd EV_WRITE k)) w in (t\<lparr>w_event := p\<rparr>, w1))
                    else (t, w))
                 in Some (Some t1, w1\<lparr>w_maps := (w_maps w1)(map_fe f \<mapsto> m(fd \<mapsto> t1))\<rparr>)) }"

text \<open>\<open>event_add\<close> and \<open>event_active\<close> on a null event are undefined.\<close>

definition ev_add :: "'e env_scheme \<Rightarrow> int \<Rightarrow> int option \<Rightarrow> 'w world_scheme \<Rightarrow> 'w world_scheme option" where
  "ev_add E ev tv w = (if ev = 0 then None else Some (call0 E (Lev (Ev_add ev tv)) w))"

definition ev_active :: "'e env_scheme \<Rightarrow> int \<Rightarrow> int \<Rightarrow> 'w world_scheme \<Rightarrow> 'w world_scheme option" where
  "ev_active E ev what w = (if ev = 0 then None else Some (call0 E (Lev (Ev_active ev what)) w))"

text \<open>Leaving a fiber for the context \<open>origin_ctx\<close>, and what happens until it is resumed.\<close>

definition to_origin :: "'w run \<Rightarrow> 'w run" where
  "to_origin R w =
     (case sc_origin (w_sched w) of
        None \<Rightarrow> None
      | Some c \<Rightarrow> if c \<in> w_ctxs w then R w else None)"

section \<open>Operations of a fiber\<close>

definition sched_fiber_set_dtor :: "nat \<Rightarrow> nat option \<Rightarrow> val \<Rightarrow> 'w run" where
  "sched_fiber_set_dtor k dtor ctx w =
     do { f \<leftarrow> w_fibers w k;
          Some (w\<lparr>w_fibers := (w_fibers w)(k \<mapsto> f\<lparr>fib_dtor := dtor, fib_dtor_ctx := ctx\<rparr>)\<rparr>) }"

definition m_delete :: "nat \<Rightarrow> 'w run" where
  "m_delete j w =
     (case w_maps w j of None \<Rightarrow> None | Some _ \<Rightarrow> Some (w\<lparr>w_maps := (w_maps w)(j := None)\<rparr>))"

definition sched_fiber_exit ::
    "'e env_scheme \<Rightarrow> (nat \<Rightarrow> nat \<Rightarrow> val \<Rightarrow> 'w run) \<Rightarrow> nat \<Rightarrow> int \<Rightarrow> 'w run" where
  "sched_fiber_exit E dtors s val w =
     do { (k, f) \<leftarrow> fib_of s w;
          w \<leftarrow> m_delete (map_fe f) w;
          let w = (if yield_event f \<noteq> 0 then call0 E (Lev (Ev_free (yield_event f))) w else w);
          w \<leftarrow> upd_op k (\<lambda>x. x\<lparr>op_type := FREE, op_arg1 := Vint val\<rparr>) w;
          w \<leftarrow> (case fib_dtor f of None \<Rightarrow> Some w | Some d \<Rightarrow> dtors d k (fib_dtor_ctx f) w);
          to_origin Some (w\<lparr>w_args := (w_args w)(s := None)\<rparr>) }"

text \<open>The part all asynchronous operations share after \<open>fib_op\<close> is set.\<close>

definition suspend :: "'w run \<Rightarrow> nat \<Rightarrow> (operation \<Rightarrow> operation) \<Rightarrow> 'w sworld_scheme \<Rightarrow> (val \<times> 'w sworld_scheme) option" where
  "suspend R s g w =
     do { (k, f) \<leftarrow> fib_of s w;
          w \<leftarrow> upd_op k g w;
          w \<leftarrow> to_origin R w;
          (k, f) \<leftarrow> fib_of s w;
          Some (op_ret (fib_op f), w) }"

definition wait_read :: "'e senv_scheme \<Rightarrow> nat \<Rightarrow> int \<Rightarrow> 'w run" where
  "wait_read E s fd w =
     do { (it, w) \<leftarrow> get_events E s fd EV_READ w; it \<leftarrow> it; ev_add E (r_event it) None w }"

definition wait_write :: "'e senv_scheme \<Rightarrow> nat \<Rightarrow> int \<Rightarrow> 'w run" where
  "wait_write E s fd w =
     do { (it, w) \<leftarrow> get_events E s fd EV_WRITE w; it \<leftarrow> it; ev_add E (w_event it) None w }"

definition async_event ::
    "'e senv_scheme \<Rightarrow> 'w run \<Rightarrow> nat \<Rightarrow> int \<Rightarrow> int \<Rightarrow> 'w sworld_scheme \<Rightarrow> (val \<times> 'w sworld_scheme) option" where
  "async_event E R s fd flag w =
     do { w \<leftarrow> (if flag AND EV_READ \<noteq> 0 then wait_read E s fd w else Some w);
          w \<leftarrow> (if flag AND EV_WRITE \<noteq> 0 then wait_write E s fd w else Some w);
          suspend R s (\<lambda>x. x\<lparr>op_type := EVENT, op_ret := Vint 0\<rparr>) w }"

definition async_recvfrom ::
    "'e senv_scheme \<Rightarrow> 'w run \<Rightarrow> nat \<Rightarrow> int \<Rightarrow> val \<Rightarrow> int \<Rightarrow> int \<Rightarrow> val \<Rightarrow> val \<Rightarrow> 'w sworld_scheme
      \<Rightarrow> (val \<times> 'w sworld_scheme) option" where
  "async_recvfrom E R s fd buf len flag sock socklen w =
     do { w \<leftarrow> wait_read E s fd w;
          suspend R s (\<lambda>x. x\<lparr>op_type := RECVFROM, op_fd := Vint fd, op_arg1 := Vint fd, op_arg2 := buf,
            op_arg3 := Vint len, op_arg4 := Vint flag, op_arg5 := sock, op_arg6 := socklen\<rparr>) w }"

definition async_accept ::
    "'e senv_scheme \<Rightarrow> 'w run \<Rightarrow> nat \<Rightarrow> int \<Rightarrow> val \<Rightarrow> val \<Rightarrow> 'w sworld_scheme \<Rightarrow> (val \<times> 'w sworld_scheme) option" where
  "async_accept E R s fd sock socklen w =
     do { w \<leftarrow> wait_read E s fd w;
          (r, w) \<leftarrow> suspend R s (\<lambda>x. x\<lparr>op_type := ACCEPT, op_fd := Vint fd, op_arg1 := Vint fd,
            op_arg2 := sock, op_arg3 := socklen\<rparr>) w;
          i \<leftarrow> val_int r;
          Some (r, call0 E (Sys (Sys_nonblock i)) w) }"

definition async_sleep :: "'e senv_scheme \<Rightarrow> 'w run \<Rightarrow> nat \<Rightarrow> int \<Rightarrow> 'w run" where
  "async_sleep E R s time w =
     do { (k, f) \<leftarrow> fib_of s w; w \<leftarrow> ev_add E (yield_event f) (Some time) w; to_origin R w }"

definition async_recv ::
    "'e senv_scheme \<Rightarrow> 'w run \<Rightarrow> nat \<Rightarrow> int \<Rightarrow> val \<Rightarrow> nat \<Rightarrow> int \<Rightarrow> 'w sworld_scheme \<Rightarrow> (val \<times> 'w sworld_scheme) option" where
  "async_recv E R s fd buf len flags w =
     do { w \<leftarrow> wait_read E s fd w;
          suspend R s (\<lambda>x. x\<lparr>op_type := RECV, op_fd := Vint fd, op_arg1 := Vint fd, op_arg2 := buf,
            op_arg3 := Vint (int len), op_arg4 := Vint flags\<rparr>) w }"

definition async_send ::
    "'e senv_scheme \<Rightarrow> 'w run \<Rightarrow> nat \<Rightarrow> int \<Rightarrow> val \<Rightarrow> nat \<Rightarrow> int \<Rightarrow> 'w sworld_scheme \<Rightarrow> (val \<times> 'w sworld_scheme) option" where
  "async_send E R s fd buf len flags w =
     do { w \<leftarrow> wait_write E s fd w;
          suspend R s (\<lambda>x. x\<lparr>op_type := SEND, op_fd := Vint fd, op_arg1 := Vint fd, op_arg2 := buf,
            op_arg3 := Vint (int len), op_arg4 := Vint flags\<rparr>) w }"

definition async_read ::
    "'e senv_scheme \<Rightarrow> 'w run \<Rightarrow> nat \<Rightarrow> int \<Rightarrow> val \<Rightarrow> nat \<Rightarrow> 'w sworld_scheme \<Rightarrow> (val \<times> 'w sworld_scheme) option" where
  "async_read E R s fd buf len w =
     do { w \<leftarrow> wait_read E s fd w;
          suspend R s (\<lambda>x. x\<lparr>op_type := READ, op_fd := Vint fd, op_arg1 := Vint fd, op_arg2 := buf,
            op_arg3 := Vint (int len)\<rparr>) w }"

definition async_write ::
    "'e senv_scheme \<Rightarrow> 'w run \<Rightarrow> nat \<Rightarrow> int \<Rightarrow> val \<Rightarrow> nat \<Rightarrow> 'w sworld_scheme \<Rightarrow> (val \<times> 'w sworld_scheme) option" where
  "async_write E R s fd buf len w =
     do { w \<leftarrow> wait_write E s fd w;
          suspend R s (\<lambda>x. x\<lparr>op_type := WRITE, op_fd := Vint fd, op_arg1 := Vint fd, op_arg2 := buf,
            op_arg3 := Vint (int len)\<rparr>) w }"

text \<open>The code stores \<open>SEND\<close>, not \<open>SENDTO\<close>, as the type of the operation.\<close>

definition async_sendto ::
    "'e senv_scheme \<Rightarrow> 'w run \<Rightarrow> nat \<Rightarrow> int \<Rightarrow> val \<Rightarrow> nat \<Rightarrow> int \<Rightarrow> val \<Rightarrow> int \<Rightarrow> 'w sworld_scheme
      \<Rightarrow> (val \<times> 'w sworld_scheme) option" where
  "async_sendto E R s fd buf len flags dst socklen w =
     do { w \<leftarrow> wait_write E s fd w;
          suspend R s (\<lambda>x. x\<lparr>op_type := SEND, op_fd := Vint fd, op_arg1 := Vint fd, op_arg2 := buf,
            op_arg3 := Vint (int len), op_arg4 := Vint flags, op_arg5 := dst, op_arg6 := Vint socklen\<rparr>) w }"

definition async_yield :: "'w run \<Rightarrow> nat \<Rightarrow> val \<Rightarrow> 'w sworld_scheme \<Rightarrow> (val \<times> 'w sworld_scheme) option" where
  "async_yield R s yielded w = suspend R s (\<lambda>x. x\<lparr>op_type := YIELD, op_arg1 := yielded\<rparr>) w"

definition async_continue ::
    "'e senv_scheme \<Rightarrow> 'w run \<Rightarrow> nat \<Rightarrow> nat \<Rightarrow> val \<Rightarrow> 'w sworld_scheme \<Rightarrow> (val \<times> 'w sworld_scheme) option" where
  "async_continue E R A F data w =
     do { (k, _) \<leftarrow> fib_of A w;
          w \<leftarrow> upd_op k (\<lambda>x. x\<lparr>op_type := YIELD\<rparr>) w;
          w \<leftarrow> upd_op F (\<lambda>x. x\<lparr>op_fd := Vptr k 0, op_ret := data\<rparr>) w;
          f \<leftarrow> w_fibers w F;
          w \<leftarrow> ev_active E (yield_event f) EV_TIMEOUT w;
          w \<leftarrow> to_origin R w;
          f \<leftarrow> w_fibers w F;
          Some (op_arg1 (fib_op f), w) }"

definition async_wake :: "'e senv_scheme \<Rightarrow> nat \<Rightarrow> 'w run" where
  "async_wake E F w = do { f \<leftarrow> w_fibers w F; ev_active E (yield_event f) EV_TIMEOUT w }"

definition sched_get_userptr :: "nat \<Rightarrow> 'w sworld_scheme \<Rightarrow> val option" where
  "sched_get_userptr s w = map_option a_userptr (w_args w s)"

definition sched_get_fiber :: "nat \<Rightarrow> 'w sworld_scheme \<Rightarrow> nat option" where
  "sched_get_fiber s w = map_option a_fib (w_args w s)"

section \<open>The system calls of the dispatcher\<close>

text \<open>
  A call that receives stores at most \<open>len\<close> bytes in the buffer; one that sends reads
  them from it. An address is stored cut off at the length given by the caller, which is
  then replaced by the address's own.
\<close>

definition k_store :: "'e env_scheme \<Rightarrow> sys \<Rightarrow> val \<Rightarrow> nat \<Rightarrow> 'w world_scheme \<Rightarrow> (val \<times> 'w world_scheme) option" where
  "k_store E c buf len w =
     (let out = e_out E (w_log w) (Sys c); (r, w1) = call E (Sys c) w
      in do { w2 \<leftarrow> b_store buf (take (min (nat r) len) out) w1; Some (Vint r, w2) })"

definition k_address :: "bytes \<Rightarrow> val \<Rightarrow> val \<Rightarrow> 'w world_scheme \<Rightarrow> 'w world_scheme option" where
  "k_address adr sock socklen w =
     (if sock = null then Some w
      else do { l \<leftarrow> b_load socklen 4 w;
                w \<leftarrow> b_store sock (take (unat (of_le32 l)) adr) w;
                b_store socklen (le32 (word_of_nat (length adr))) w })"

definition k_accept :: "'e env_scheme \<Rightarrow> int \<Rightarrow> val \<Rightarrow> val \<Rightarrow> 'w world_scheme \<Rightarrow> (val \<times> 'w world_scheme) option" where
  "k_accept E fd sock socklen w =
     (let adr = e_adr E (w_log w) (Sys (Sys_accept fd)); (r, w1) = call E (Sys (Sys_accept fd)) w
      in if r = -1 then Some (Vint r, w1)
         else do { w2 \<leftarrow> k_address adr sock socklen w1; Some (Vint r, w2) })"

definition k_recvfrom ::
    "'e env_scheme \<Rightarrow> int \<Rightarrow> val \<Rightarrow> nat \<Rightarrow> int \<Rightarrow> val \<Rightarrow> val \<Rightarrow> 'w world_scheme \<Rightarrow> (val \<times> 'w world_scheme) option" where
  "k_recvfrom E fd buf len flags sock socklen w =
     (let adr = e_adr E (w_log w) (Sys (Sys_recvfrom fd len flags))
      in do { (r, w1) \<leftarrow> k_store E (Sys_recvfrom fd len flags) buf len w;
              if r = Vint (-1) then Some (r, w1)
              else do { w2 \<leftarrow> k_address adr sock socklen w1; Some (r, w2) } })"

definition k_send ::
    "'e env_scheme \<Rightarrow> (bytes \<Rightarrow> sys) \<Rightarrow> val \<Rightarrow> nat \<Rightarrow> 'w world_scheme \<Rightarrow> (val \<times> 'w world_scheme) option" where
  "k_send E c buf len w =
     do { d \<leftarrow> b_load buf len w; let (r, w1) = call E (Sys (c d)) w; Some (Vint r, w1) }"

text \<open>The three \<open>switch\<close> statements of \<open>sched_dispatch\<close>: the new value of \<open>fib_op.ret\<close>.\<close>

definition or_ret :: "operation \<Rightarrow> int \<Rightarrow> val option" where
  "or_ret x ev = map_option (\<lambda>i. Vint (i OR ev)) (val_int (op_ret x))"

definition dispatch_read ::
    "'e env_scheme \<Rightarrow> operation \<Rightarrow> 'w world_scheme \<Rightarrow> (val \<times> 'w world_scheme) option" where
  "dispatch_read E x w =
     (case op_type x of
        ACCEPT \<Rightarrow> do { fd \<leftarrow> val_int (op_arg1 x); k_accept E fd (op_arg2 x) (op_arg3 x) w }
      | RECVFROM \<Rightarrow>
          do { fd \<leftarrow> val_int (op_arg1 x); len \<leftarrow> val_int (op_arg3 x); fl \<leftarrow> val_int (op_arg4 x);
               k_recvfrom E fd (op_arg2 x) (nat len) fl (op_arg5 x) (op_arg6 x) w }
      | RECV \<Rightarrow>
          do { fd \<leftarrow> val_int (op_arg1 x); len \<leftarrow> val_int (op_arg3 x); fl \<leftarrow> val_int (op_arg4 x);
               k_store E (Sys_recv fd (nat len) fl) (op_arg2 x) (nat len) w }
      | READ \<Rightarrow>
          do { fd \<leftarrow> val_int (op_arg1 x); len \<leftarrow> val_int (op_arg3 x);
               k_store E (Sys_read fd (nat len)) (op_arg2 x) (nat len) w }
      | EVENT \<Rightarrow> do { r \<leftarrow> or_ret x EV_READ; Some (r, w) }
      | _ \<Rightarrow> Some (op_ret x, w))"

definition dispatch_write ::
    "'e env_scheme \<Rightarrow> operation \<Rightarrow> 'w world_scheme \<Rightarrow> (val \<times> 'w world_scheme) option" where
  "dispatch_write E x w =
     (case op_type x of
        SEND \<Rightarrow>
          do { fd \<leftarrow> val_int (op_arg1 x); len \<leftarrow> val_int (op_arg3 x); fl \<leftarrow> val_int (op_arg4 x);
               k_send E (\<lambda>d. Sys_send fd d fl) (op_arg2 x) (nat len) w }
      | SENDTO \<Rightarrow>
          do { fd \<leftarrow> val_int (op_arg1 x); len \<leftarrow> val_int (op_arg3 x); fl \<leftarrow> val_int (op_arg4 x);
               al \<leftarrow> val_int (op_arg6 x); adr \<leftarrow> b_load (op_arg5 x) (nat al) w;
               k_send E (\<lambda>d. Sys_sendto fd d fl adr) (op_arg2 x) (nat len) w }
      | WRITE \<Rightarrow>
          do { fd \<leftarrow> val_int (op_arg1 x); len \<leftarrow> val_int (op_arg3 x);
               k_send E (\<lambda>d. Sys_write fd d) (op_arg2 x) (nat len) w }
      | EVENT \<Rightarrow> do { r \<leftarrow> or_ret x EV_WRITE; Some (r, w) }
      | _ \<Rightarrow> Some (op_ret x, w))"

definition dispatch_timeout :: "operation \<Rightarrow> 'w world_scheme \<Rightarrow> (val \<times> 'w world_scheme) option" where
  "dispatch_timeout x w =
     (case op_type x of
        EVENT \<Rightarrow> do { r \<leftarrow> or_ret x EV_TIMEOUT; Some (r, w) }
      | _ \<Rightarrow> Some (op_ret x, w))"

definition perform ::
    "'e env_scheme \<Rightarrow> int \<Rightarrow> operation \<Rightarrow> 'w world_scheme \<Rightarrow> (val \<times> 'w world_scheme) option" where
  "perform E event x w =
     (if event AND EV_READ \<noteq> 0 then dispatch_read E x w
      else if event AND EV_WRITE \<noteq> 0 then dispatch_write E x w
      else if event AND EV_TIMEOUT \<noteq> 0 then dispatch_timeout x w
      else Some (op_ret x, w))"

definition dispatch_op :: "'e env_scheme \<Rightarrow> nat \<Rightarrow> int \<Rightarrow> 'w run" where
  "dispatch_op E k event w =
     do { f \<leftarrow> w_fibers w k;
          (r, w) \<leftarrow> perform E event (fib_op f) w;
          upd_op k (\<lambda>x. x\<lparr>op_ret := r\<rparr>) w }"

section \<open>The scheduler\<close>

definition sched_new :: "'e env_scheme \<Rightarrow> int \<Rightarrow> 'w run" where
  "sched_new E evbase w =
     (case o_new E w of
        (None, _) \<Rightarrow> None
      | (Some _, w1) \<Rightarrow> Some (w1\<lparr>w_sched := \<lparr>sc_evbase = evbase, sc_origin = None\<rparr>\<rparr>))"

text \<open>Entering a function that has a context of its own, and returning from it.\<close>

definition ctx_enter :: "'w sworld_scheme \<Rightarrow> nat \<times> 'w sworld_scheme" where
  "ctx_enter w =
     (w_next w, w\<lparr>w_ctxs := insert (w_next w) (w_ctxs w), w_next := Suc (w_next w)\<rparr>)"

definition set_origin :: "nat option \<Rightarrow> 'w sworld_scheme \<Rightarrow> 'w sworld_scheme" where
  "set_origin c w = w\<lparr>w_sched := (w_sched w)\<lparr>sc_origin := c\<rparr>\<rparr>"

definition ctx_leave :: "nat \<Rightarrow> 'w sworld_scheme \<Rightarrow> 'w sworld_scheme" where
  "ctx_leave c w = w\<lparr>w_ctxs := w_ctxs w - {c}\<rparr>"

definition sched_dispatch :: "'e env_scheme \<Rightarrow> 'w run \<Rightarrow> nat \<Rightarrow> int \<Rightarrow> 'w run" where
  "sched_dispatch E co k event w =
     do { let (c, w) = ctx_enter w;
          w \<leftarrow> dispatch_op E k event w;
          w \<leftarrow> co (set_origin (Some c) w);
          f \<leftarrow> w_fibers w k;
          w \<leftarrow> (if op_type (fib_op f) = FREE then b_free (fib_stack f) w else Some w);
          Some (ctx_leave c w) }"

definition o_free_fiber :: "nat \<Rightarrow> 'w run" where
  "o_free_fiber k w =
     (case w_fibers w k of None \<Rightarrow> None | Some _ \<Rightarrow> Some (w\<lparr>w_fibers := (w_fibers w)(k := None)\<rparr>))"

definition sched_fiber_launch :: "'w run \<Rightarrow> nat \<Rightarrow> 'w run" where
  "sched_fiber_launch co k w =
     do { _ \<leftarrow> w_fibers w k;
          let save = sc_origin (w_sched w);
          let (c, w) = ctx_enter w;
          w \<leftarrow> co (set_origin (Some c) w);
          let w = set_origin save w;
          f \<leftarrow> w_fibers w k;
          w \<leftarrow> (if op_type (fib_op f) = FREE then b_free (fib_stack f) w \<bind> o_free_fiber k else Some w);
          Some (ctx_leave c w) }"

definition STACK_SIZE :: nat where
  "STACK_SIZE = 2 ^ 15"

definition zero_op :: operation where
  "zero_op = \<lparr>op_type = NONE, op_fd = null, op_ret = null, op_arg1 = null, op_arg2 = null,
     op_arg3 = null, op_arg4 = null, op_arg5 = null, op_arg6 = null\<rparr>"

text \<open>
  The two structures are cleared before their allocations are checked, so only a failed
  allocation of the stack is handled. \<open>func\<close>, the code of the fiber, is not part of the
  state. The result is the fiber and its arguments.
\<close>

definition sched_new_fiber ::
    "'e senv_scheme \<Rightarrow> val \<Rightarrow> 'w sworld_scheme \<Rightarrow> ((nat \<times> nat) option \<times> 'w sworld_scheme) option" where
  "sched_new_fiber E userptr w =
     (let (args, w) = o_new E w; (fib, w) = o_new E w; (stack, w) = b_new E STACK_SIZE w
      in case (args, fib) of
           (Some a, Some k) \<Rightarrow>
             (if stack = null then Some (None, w)
              else
                let j = w_next w;
                    w = w\<lparr>w_maps := (w_maps w)(j \<mapsto> Map.empty), w_next := Suc j\<rparr>;
                    (ev, w) = call E (Lev (Ev_new (-1) 0 k)) w;
                    f = \<lparr>fib_stack = stack, fib_stack_size = STACK_SIZE, fib_op = zero_op,
                         yield_event = ev, map_fe = j, fib_dtor = None, fib_dtor_ctx = null\<rparr>;
                    w = w\<lparr>w_fibers := (w_fibers w)(k \<mapsto> f),
                          w_args := (w_args w)(a \<mapsto> \<lparr>a_fib = k, a_userptr = userptr\<rparr>)\<rparr>
                in do { w \<leftarrow> ev_add E ev None w; Some (Some (k, a), w) })
         | _ \<Rightarrow> None)"

definition sched_delete :: "'w sworld_scheme \<Rightarrow> 'w sworld_scheme" where
  "sched_delete w = w"

definition sched_fiber_delete :: "nat \<Rightarrow> 'w run" where
  "sched_fiber_delete k w =
     do { f \<leftarrow> w_fibers w k; w \<leftarrow> m_delete (map_fe f) w; b_free (fib_stack f) w }"

section \<open>Frame conditions\<close>

lemma call_frame [simp]:
  "w_heap (snd (call E c w)) = w_heap w" "w_next (snd (call E c w)) = w_next w"
  "world.more (snd (call E c w)) = world.more w"
  "w_log (snd (call E c w)) = w_log w @ [(c, fst (call E c w))]"
  by (simp_all add: call_def Let_def)

lemma call0_frame [simp]:
  "w_heap (call0 E c w) = w_heap w" "w_next (call0 E c w) = w_next w"
  "world.more (call0 E c w) = world.more w"
  "w_log (call0 E c w) = w_log w @ [(c, fst (call E c w))]"
  by (simp_all add: call0_def)

text \<open>What a component outside the scheduler may not change while a fiber sleeps.\<close>

lemma more_sworld:
  assumes "world.more (w' :: 'w sworld_scheme) = world.more w"
  shows "w_fibers w' = w_fibers w" "w_args w' = w_args w" "w_maps w' = w_maps w"
    "w_sched w' = w_sched w" "w_ctxs w' = w_ctxs w"
  using assms by (cases w; cases w'; simp)+

lemmas call_sframe [simp] = more_sworld [OF call_frame(3)] more_sworld [OF call0_frame(3)]

lemma upd_op_some: "w_fibers w k = Some f \<Longrightarrow>
    upd_op k g w = Some (w\<lparr>w_fibers := (w_fibers w)(k \<mapsto> f\<lparr>fib_op := g (fib_op f)\<rparr>)\<rparr>)"
  by (simp add: upd_op_def)

lemma fib_of_some: "fib_of s w = Some (k, f) \<longleftrightarrow>
    (\<exists>a. w_args w s = Some a \<and> a_fib a = k \<and> w_fibers w k = Some f)"
  by (auto simp: fib_of_def bind_eq_Some_conv)

text \<open>\<open>origin_ctx\<close> belongs to a function that has not returned.\<close>

definition origin_valid :: "'w sworld_scheme \<Rightarrow> bool" where
  "origin_valid w \<longleftrightarrow> (\<exists>c. sc_origin (w_sched w) = Some c \<and> c \<in> w_ctxs w)"

lemma to_origin_valid: "origin_valid w \<Longrightarrow> to_origin R w = R w"
  by (auto simp: origin_valid_def to_origin_def)

section \<open>The event table\<close>

lemma get_events_ok:
  assumes ok: "map_ok E" and f: "fib_of s w = Some (k, f)" and m: "w_maps w (map_fe f) = Some m"
    and ev: "event = EV_READ \<or> event = EV_WRITE"
    and g: "get_events E s fd event w = Some (Some t, w')"
  shows "\<exists>m'. w_maps w' = (w_maps w)(map_fe f \<mapsto> m') \<and> m' fd = Some t \<and> (\<forall>x. x \<noteq> fd \<longrightarrow> m' x = m x)
    \<and> w_fibers w' = w_fibers w \<and> w_args w' = w_args w \<and> w_sched w' = w_sched w \<and> w_ctxs w' = w_ctxs w
    \<and> w_heap w' = w_heap w
    \<and> (w_log w' = w_log w \<or> (\<exists>p. w_log w' = w_log w @ [(Lev (Ev_new fd event k), p)]))"
proof -
  have find: "m_find E m fd = m fd" using ok by (simp add: map_ok_def)
  have ins: "m_insert E m fd v = Some m1 \<Longrightarrow> m1 = m(fd \<mapsto> v)" for v m1
    using ok unfolding map_ok_def by (metis option.distinct(1) option.inject)
  show ?thesis
  proof (cases "m fd")
    case None
    with g f m ev find show ?thesis
      by (auto simp: get_events_def EV_READ_def EV_WRITE_def call_def Let_def split: option.splits dest!: ins
          intro!: exI [of _ "m(fd \<mapsto> t)"])
  next
    case (Some t0)
    with g f m ev find show ?thesis
      by (auto simp: get_events_def EV_READ_def EV_WRITE_def call_def Let_def map_upd_triv
          split: option.splits if_splits intro!: exI [of _ "m(fd \<mapsto> t)"])
  qed
qed

lemma wait_ok:
  assumes ok: "map_ok E" and f: "fib_of s w = Some (k, f)"
    and w: "wait_read E s fd w = Some w' \<or> wait_write E s fd w = Some w'"
  shows "w_fibers w' = w_fibers w \<and> w_args w' = w_args w \<and> w_sched w' = w_sched w \<and> w_ctxs w' = w_ctxs w
    \<and> w_heap w' = w_heap w"
proof -
  obtain event t w1 ev where g: "get_events E s fd event w = Some (Some t, w1)" "event = EV_READ \<or> event = EV_WRITE"
    and a: "ev_add E ev None w1 = Some w'"
    using w by (auto simp: wait_read_def wait_write_def bind_eq_Some_conv)
  obtain m where m: "w_maps w (map_fe f) = Some m"
    using g(1) f by (auto simp: get_events_def bind_eq_Some_conv)
  from get_events_ok [OF ok f m g(2,1)] a show ?thesis
    by (auto simp: ev_add_def split: if_splits)
qed

text \<open>
  A fiber has one libevent event per descriptor and direction: once \<open>get_events\<close>
  has returned an entry whose event for that direction exists, asking again returns the same
  entry, calls nothing and changes nothing; entries of other descriptors are untouched.
\<close>

lemma get_events_once:
  assumes "map_ok E" and "event = EV_READ \<or> event = EV_WRITE"
    and "get_events E s fd event w = Some (Some t, w')"
    and "(if event = EV_READ then r_event t else w_event t) \<noteq> 0"
  shows "get_events E s fd event w' = Some (Some t, w')
    \<and> (\<forall>k f m. fib_of s w = Some (k, f) \<longrightarrow> w_maps w (map_fe f) = Some m \<longrightarrow>
         (\<exists>m'. w_maps w' (map_fe f) = Some m' \<and> m' fd = Some t \<and> (\<forall>x. x \<noteq> fd \<longrightarrow> m' x = m x)))"
proof -
  obtain k f m where f: "fib_of s w = Some (k, f)" and m: "w_maps w (map_fe f) = Some m"
    using assms(3) by (auto simp: get_events_def bind_eq_Some_conv)
  from get_events_ok [OF assms(1) f m assms(2,3)] obtain m' where
    m': "w_maps w' = (w_maps w)(map_fe f \<mapsto> m')" "m' fd = Some t" "\<forall>x. x \<noteq> fd \<longrightarrow> m' x = m x"
    and fr: "w_fibers w' = w_fibers w" "w_args w' = w_args w" by blast
  have f': "fib_of s w' = Some (k, f)" using f fr by (simp add: fib_of_def)
  have "m_find E m' fd = Some t" "w_maps w' (map_fe f) = Some m'"
    using m'(1,2) assms(1) by (simp_all add: map_ok_def)
  moreover have "event = EV_READ \<and> r_event t \<noteq> 0 \<or> event = EV_WRITE \<and> w_event t \<noteq> 0"
    using assms(2,4) by (auto simp: EV_READ_def EV_WRITE_def)
  ultimately have "get_events E s fd event w' = Some (Some t, w')"
    using f' by (simp add: get_events_def)
  with f m m' show ?thesis by auto
qed

section \<open>Operations performed by the dispatcher\<close>

text \<open>
  A sleeping fiber: the rest of the program runs (\<open>others\<close>), then the event fires and the
  dispatcher performs the operation and transfers back.
\<close>

definition dispatched :: "'e env_scheme \<Rightarrow> nat \<Rightarrow> int \<Rightarrow> 'w run \<Rightarrow> 'w run" where
  "dispatched E k event others w =
     do { w \<leftarrow> others w;
          let (c, w) = ctx_enter w;
          w \<leftarrow> dispatch_op E k event w;
          Some (set_origin (Some c) w) }"

text \<open>The rest of the program leaves the structures of the sleeping fiber alone.\<close>

definition leaves_fiber :: "nat \<Rightarrow> nat \<Rightarrow> 'w run \<Rightarrow> bool" where
  "leaves_fiber s k others \<longleftrightarrow>
     (\<forall>w w'. others w = Some w' \<longrightarrow> w_fibers w' k = w_fibers w k \<and> w_args w' s = w_args w s)"

lemma suspend_dispatched:
  assumes f: "fib_of s w = Some (k, f)" and org: "origin_valid w" and lv: "leaves_fiber s k others"
    and o: "others (w\<lparr>w_fibers := (w_fibers w)(k \<mapsto> f\<lparr>fib_op := g (fib_op f)\<rparr>)\<rparr>) = Some w2"
    and d: "dispatch_op E k event (snd (ctx_enter w2)) = Some w3"
    and keep: "w_args w3 s = w_args w2 s"
  shows "suspend (dispatched E k event others) s g w =
    do { f3 \<leftarrow> w_fibers w3 k; Some (op_ret (fib_op f3), set_origin (Some (w_next w2)) w3) }"
proof -
  let ?w1 = "w\<lparr>w_fibers := (w_fibers w)(k \<mapsto> f\<lparr>fib_op := g (fib_op f)\<rparr>)\<rparr>"
  obtain a where a: "w_args w s = Some a" "a_fib a = k" "w_fibers w k = Some f"
    using f by (auto simp: fib_of_some)
  have u: "upd_op k g w = Some ?w1" using a(3) by (simp add: upd_op_some)
  have t: "to_origin R ?w1 = R ?w1" for R :: "'a run"
    using org by (intro to_origin_valid) (simp add: origin_valid_def)
  have r: "dispatched E k event others ?w1 = Some (set_origin (Some (w_next w2)) w3)"
    using o d by (simp add: dispatched_def ctx_enter_def)
  have "w_args w2 s = Some a" using lv o a by (auto simp: leaves_fiber_def)
  then have "fib_of s (set_origin (Some (w_next w2)) w3) = do { f3 \<leftarrow> w_fibers w3 k; Some (k, f3) }"
    using keep a by (simp add: fib_of_def set_origin_def)
  then show ?thesis
    using f u t r by (simp add: suspend_def bind_assoc)
qed

text \<open>What the kernel promises of a receiving call: -1, or the number of bytes it stored.\<close>

fun recv_room :: "sys \<Rightarrow> nat option" where
  "recv_room (Sys_recvfrom fd n fl) = Some n"
| "recv_room (Sys_recv fd n fl) = Some n"
| "recv_room (Sys_read fd n) = Some n"
| "recv_room _ = None"

definition kernel_ok :: "'e env_scheme \<Rightarrow> bool" where
  "kernel_ok E \<longleftrightarrow>
     (\<forall>h c n. recv_room c = Some n \<longrightarrow>
        e_ret E h (Sys c) = -1 \<or>
        0 \<le> e_ret E h (Sys c) \<and> length (e_out E h (Sys c)) = nat (e_ret E h (Sys c))
          \<and> length (e_out E h (Sys c)) \<le> n)"

text \<open>The bytes a receiving call stores.\<close>

definition received :: "'e env_scheme \<Rightarrow> history \<Rightarrow> sys \<Rightarrow> bytes" where
  "received E h c = (if e_ret E h (Sys c) = -1 then [] else e_out E h (Sys c))"

lemma take_received:
  assumes "kernel_ok E" and "recv_room c = Some n"
  shows "take (min (nat (e_ret E h (Sys c))) n) (e_out E h (Sys c)) = received E h c"
    and "length (received E h c) \<le> n"
    and "e_ret E h (Sys c) = -1 \<or> e_ret E h (Sys c) = int (length (received E h c))"
  using assms unfolding kernel_ok_def received_def by (force split: if_splits)+

lemma k_store_ok:
  assumes "kernel_ok E" and "recv_room c = Some n" and "w_heap w b = Some blk" and "i + n \<le> length blk"
  shows "k_store E c (Vptr b i) n w =
    Some (Vint (e_ret E (w_log w) (Sys c)),
      (snd (call E (Sys c) w))\<lparr>w_heap := (w_heap w)(b \<mapsto> take i blk @ received E (w_log w) c
         @ drop (i + length (received E (w_log w) c)) blk)\<rparr>)"
proof -
  let ?d = "received E (w_log w) c"
  have d: "take (min (nat (e_ret E (w_log w) (Sys c))) n) (e_out E (w_log w) (Sys c)) = ?d"
    "length ?d \<le> n" using take_received [OF assms(1,2)] by blast+
  have "b_store (Vptr b i) ?d (snd (call E (Sys c) w)) =
    Some ((snd (call E (Sys c) w))\<lparr>w_heap := (w_heap w)(b \<mapsto> take i blk @ ?d @ drop (i + length ?d) blk)\<rparr>)"
    using assms(3,4) d(2) by (cases "?d = []") (auto simp: b_store_def mem_write_def map_upd_triv)
  with d(1) show ?thesis by (simp add: k_store_def call_def Let_def)
qed

lemma dispatch_upd:
  assumes "w_fibers w k = Some f" and "w_fibers w' = w_fibers w"
    and "perform E event (fib_op f) w = Some (r, w')"
  shows "dispatch_op E k event w =
    Some (w'\<lparr>w_fibers := (w_fibers w)(k \<mapsto> f\<lparr>fib_op := (fib_op f)\<lparr>op_ret := r\<rparr>\<rparr>)\<rparr>)"
  using assms by (simp add: dispatch_op_def upd_op_def)

text \<open>The world in which a fiber sleeps on an operation.\<close>

abbreviation parked :: "nat \<Rightarrow> fiber \<Rightarrow> (operation \<Rightarrow> operation) \<Rightarrow> 'w sworld_scheme \<Rightarrow> 'w sworld_scheme" where
  "parked k f g w \<equiv> w\<lparr>w_fibers := (w_fibers w)(k \<mapsto> f\<lparr>fib_op := g (fib_op f)\<rparr>)\<rparr>"

lemma suspend_world:
  assumes f: "fib_of s w = Some (k, f)" and org: "origin_valid w" and lv: "leaves_fiber s k others"
    and o: "others (parked k f g w) = Some w2"
    and d: "perform E event (g (fib_op f)) (snd (ctx_enter w2)) = Some (r, w3)"
    and keep: "w_fibers w3 = w_fibers w2" "w_args w3 = w_args w2"
  shows "suspend (dispatched E k event others) s g w = Some (r, set_origin (Some (w_next w2))
    (w3\<lparr>w_fibers := (w_fibers w2)(k \<mapsto> f\<lparr>fib_op := (g (fib_op f))\<lparr>op_ret := r\<rparr>\<rparr>)\<rparr>))"
proof -
  have k2: "w_fibers w2 k = Some (f\<lparr>fib_op := g (fib_op f)\<rparr>)"
    using lv o by (auto simp: leaves_fiber_def)
  let ?w2 = "snd (ctx_enter w2)"
  have e: "w_fibers ?w2 = w_fibers w2" by (simp add: ctx_enter_def)
  let ?w3 = "w3\<lparr>w_fibers := (w_fibers w2)(k \<mapsto> f\<lparr>fib_op := (g (fib_op f))\<lparr>op_ret := r\<rparr>\<rparr>)\<rparr>"
  have "dispatch_op E k event ?w2 = Some ?w3"
    using dispatch_upd [of ?w2 k "f\<lparr>fib_op := g (fib_op f)\<rparr>" w3 E event r] k2 keep e d by simp
  from suspend_dispatched [where g = g, OF f org lv o this] keep show ?thesis
    by simp
qed

lemma suspend_result:
  assumes "fib_of s w = Some (k, f)" and "origin_valid w" and "leaves_fiber s k others"
    and "others (parked k f g w) = Some w2"
    and "perform E event (g (fib_op f)) (snd (ctx_enter w2)) = Some (r, w3)"
    and "w_fibers w3 = w_fibers w2" "w_args w3 = w_args w2"
  shows "\<exists>w'. suspend (dispatched E k event others) s g w = Some (r, w')
    \<and> w_log w' = w_log w3 \<and> w_heap w' = w_heap w3"
  using suspend_world [where g = g, OF assms] by (simp add: set_origin_def)

lemma ctx_enter_frame [simp]:
  "w_log (snd (ctx_enter w)) = w_log w" "w_heap (snd (ctx_enter w)) = w_heap w"
  "w_fibers (snd (ctx_enter w)) = w_fibers w" "w_args (snd (ctx_enter w)) = w_args w"
  by (simp_all add: ctx_enter_def)

lemma b_load_heap: "w_heap w = w_heap w' \<Longrightarrow> b_load p n w = b_load p n w'"
  by (simp add: b_load_def split: val.splits)

lemma ev_bits [simp]:
  "EV_READ \<noteq> 0" "EV_WRITE \<noteq> 0" "EV_TIMEOUT \<noteq> 0" "EV_WRITE AND EV_READ = 0"
  "EV_TIMEOUT AND EV_READ = 0" "EV_TIMEOUT AND EV_WRITE = 0"
  by (simp_all add: EV_READ_def EV_WRITE_def EV_TIMEOUT_def)

lemma wait_ready:
  assumes "map_ok E" and "fib_of s w = Some (k, f)" and "origin_valid w"
    and "wait_read E s fd w = Some w0 \<or> wait_write E s fd w = Some w0"
  shows "fib_of s w0 = Some (k, f)" "origin_valid w0"
  using wait_ok [OF assms(1,2,4)] assms(2,3) by (simp_all add: fib_of_def origin_valid_def)

text \<open>
  Claim C27. Receiving through the scheduler is receiving: whatever else ran while the fiber
  slept, as long as its structures and its buffer were left alone, \<open>async_recv\<close> returns
  what the kernel's \<open>recv\<close> returned for the descriptor, length and flags given, the
  kernel is asked exactly once, and exactly the bytes received are in the buffer at the
  position given; no other memory changes.
\<close>

theorem async_recv_correct:
  assumes "map_ok E" and "kernel_ok E" and "fib_of s w = Some (k, f)" and "origin_valid w"
    and "leaves_fiber s k others" and "wait_read E s fd w = Some w0"
    and "others (parked k f (\<lambda>x. x\<lparr>op_type := RECV, op_fd := Vint fd, op_arg1 := Vint fd,
           op_arg2 := Vptr b i, op_arg3 := Vint (int len), op_arg4 := Vint flags\<rparr>) w0) = Some w2"
    and "w_heap w2 b = Some blk" and "i + len \<le> length blk"
  shows "\<exists>r w'. async_recv E (dispatched E k EV_READ others) s fd (Vptr b i) len flags w = Some (Vint r, w')
    \<and> w_log w' = w_log w2 @ [(Sys (Sys_recv fd len flags), r)]
    \<and> (let d = received E (w_log w2) (Sys_recv fd len flags) in
         (r = -1 \<and> d = [] \<or> r = int (length d)) \<and> length d \<le> len
         \<and> w_heap w' = (w_heap w2)(b \<mapsto> take i blk @ d @ drop (i + length d) blk))"
proof -
  let ?c = "Sys_recv fd len flags"
  let ?g = "\<lambda>x. x\<lparr>op_type := RECV, op_fd := Vint fd, op_arg1 := Vint fd, op_arg2 := Vptr b i,
    op_arg3 := Vint (int len), op_arg4 := Vint flags\<rparr>"
  note rdy = wait_ready [OF assms(1,3,4) disjI1 [OF assms(6)]]
  have st: "k_store E ?c (Vptr b i) len (snd (ctx_enter w2)) = Some (Vint (e_ret E (w_log w2) (Sys ?c)),
      (snd (call E (Sys ?c) (snd (ctx_enter w2))))\<lparr>w_heap := (w_heap w2)(b \<mapsto> take i blk
        @ received E (w_log w2) ?c @ drop (i + length (received E (w_log w2) ?c)) blk)\<rparr>)"
    using k_store_ok [OF assms(2), of ?c len "snd (ctx_enter w2)" b blk i] assms(8,9) by simp
  then have "perform E EV_READ (?g (fib_op f)) (snd (ctx_enter w2)) = Some (Vint (e_ret E (w_log w2) (Sys ?c)),
      (snd (call E (Sys ?c) (snd (ctx_enter w2))))\<lparr>w_heap := (w_heap w2)(b \<mapsto> take i blk
        @ received E (w_log w2) ?c @ drop (i + length (received E (w_log w2) ?c)) blk)\<rparr>)"
    by (simp add: perform_def dispatch_read_def)
  from suspend_result [where g = ?g, OF rdy assms(5,7) this]
  obtain w' where w': "suspend (dispatched E k EV_READ others) s ?g w0 = Some (Vint (e_ret E (w_log w2) (Sys ?c)), w')"
    "w_log w' = w_log w2 @ [(Sys ?c, e_ret E (w_log w2) (Sys ?c))]"
    "w_heap w' = (w_heap w2)(b \<mapsto> take i blk @ received E (w_log w2) ?c
       @ drop (i + length (received E (w_log w2) ?c)) blk)"
    by (auto simp: call_def Let_def)
  have "async_recv E (dispatched E k EV_READ others) s fd (Vptr b i) len flags w =
      Some (Vint (e_ret E (w_log w2) (Sys ?c)), w')"
    using assms(6) w'(1) by (simp add: async_recv_def)
  then show ?thesis
    using w'(2,3) take_received(2,3) [OF assms(2), of ?c len "w_log w2"]
    by (cases "e_ret E (w_log w2) (Sys ?c) = -1") (auto simp: Let_def received_def)
qed

text \<open>
  The concrete machine of the witnesses: every event and every receiving call succeeds, one
  fiber, running, with a valid origin and a packet buffer in block 9.
\<close>

definition demo_env :: senv where
  "demo_env = \<lparr>e_ret = (\<lambda>h c. case c of Sys (Sys_recv fd n fl) \<Rightarrow> (if 3 \<le> n then 3 else -1) | Sys (Sys_send fd d fl) \<Rightarrow> int (length d)
       | Lev (Ev_new fd what k) \<Rightarrow> 100 + fd | _ \<Rightarrow> 0),
     e_err = (\<lambda>h c. EAGAIN),
     e_out = (\<lambda>h c. case c of Sys (Sys_recv fd n fl) \<Rightarrow> (if 3 \<le> n then [7, 8, 9] else []) | _ \<Rightarrow> []),
     e_adr = (\<lambda>h c. []), e_alloc = (\<lambda>k. True), e_junk = (\<lambda>k i. 0),
     m_find = (\<lambda>m k. m k), m_insert = (\<lambda>m k v. Some (m(k \<mapsto> v)))\<rparr>"

definition demo_fiber :: fiber where
  "demo_fiber = \<lparr>fib_stack = Vptr 4 0, fib_stack_size = STACK_SIZE, fib_op = zero_op, yield_event = 50,
     map_fe = 3, fib_dtor = None, fib_dtor_ctx = null\<rparr>"

definition demo_world :: sworld where
  "demo_world = \<lparr>w_log = [], w_errno = E0,
     w_heap = [4 \<mapsto> [], 9 \<mapsto> replicate 6 0], w_next = 10,
     w_fibers = [1 \<mapsto> demo_fiber], w_args = [2 \<mapsto> \<lparr>a_fib = 1, a_userptr = null\<rparr>], w_maps = [3 \<mapsto> Map.empty],
     w_sched = \<lparr>sc_evbase = 1, sc_origin = Some 0\<rparr>, w_ctxs = {0}\<rparr>"

lemma demo_map_ok [simp]: "map_ok demo_env"
  by (simp add: map_ok_def demo_env_def)

lemma demo_fib_of [simp]: "fib_of 2 demo_world = Some (1, demo_fiber)"
  by (simp add: fib_of_def demo_world_def)

lemma demo_origin [simp]: "origin_valid demo_world"
  by (simp add: origin_valid_def demo_world_def)

lemma leaves_fiber_idle [simp]: "leaves_fiber s k Some"
  by (simp add: leaves_fiber_def)

lemma demo_kernel_ok [simp]: "kernel_ok demo_env"
  unfolding kernel_ok_def
proof (intro allI impI)
  fix h c n
  assume "recv_room c = Some n"
  then show "e_ret demo_env h (Sys c) = -1 \<or> 0 \<le> e_ret demo_env h (Sys c)
      \<and> length (e_out demo_env h (Sys c)) = nat (e_ret demo_env h (Sys c)) \<and> length (e_out demo_env h (Sys c)) \<le> n"
    by (cases c) (auto simp: demo_env_def)
qed

lemma demo_wait:
  "\<exists>w0. wait_read demo_env 2 5 demo_world = Some w0 \<and> w_heap w0 9 = Some (replicate 6 0)"
  "\<exists>w0. wait_write demo_env 2 5 demo_world = Some w0 \<and> w_heap w0 9 = Some (replicate 6 0)"
  by (simp_all add: wait_read_def wait_write_def get_events_def demo_world_def fib_of_def demo_fiber_def
      demo_env_def ev_add_def call_def call0_def EV_READ_def EV_WRITE_def)

theorem async_recv_correct_witness:
  "\<exists>r w'. async_recv demo_env (dispatched demo_env 1 EV_READ Some) 2 5 (Vptr 9 2) 4 0 demo_world = Some (Vint r, w')
    \<and> (Sys (Sys_recv 5 4 0), r) \<in> set (w_log w')"
proof -
  obtain w0 where w0: "wait_read demo_env 2 5 demo_world = Some w0" "w_heap w0 9 = Some (replicate 6 0)"
    using demo_wait(1) by blast
  from async_recv_correct [OF demo_map_ok demo_kernel_ok demo_fib_of demo_origin leaves_fiber_idle w0(1) refl,
      where b = 9 and blk = "replicate 6 0" and i = 2 and len = 4 and flags = 0] w0(2)
  show ?thesis by fastforce
qed

lemma get_events_once_witness:
  "\<exists>t w'. get_events demo_env 2 5 EV_READ demo_world = Some (Some t, w') \<and> r_event t = 105
    \<and> get_events demo_env 2 5 EV_READ w' = Some (Some t, w')"
proof -
  obtain t w' where g: "get_events demo_env 2 5 EV_READ demo_world = Some (Some t, w')" "r_event t = 105"
    by (simp add: get_events_def demo_world_def fib_of_def demo_fiber_def demo_env_def call_def EV_READ_def)
  from get_events_once [OF demo_map_ok _ g(1)] g show ?thesis by auto
qed

lemma async_sendto_world:
  assumes "map_ok E" and "fib_of s w = Some (k, f)" and "origin_valid w"
    and "leaves_fiber s k others" and "wait_write E s fd w = Some w0"
    and "others (parked k f (\<lambda>x. x\<lparr>op_type := SEND, op_fd := Vint fd, op_arg1 := Vint fd,
           op_arg2 := buf, op_arg3 := Vint (int len), op_arg4 := Vint flags, op_arg5 := dst,
           op_arg6 := Vint socklen\<rparr>) w0) = Some w2"
    and "b_load buf len w2 = Some d" and "r = e_ret E (w_log w2) (Sys (Sys_send fd d flags))"
  shows "\<exists>f'. map_fe f' = map_fe f \<and>
    async_sendto E (dispatched E k EV_WRITE others) s fd buf len flags dst socklen w =
      Some (Vint r, set_origin (Some (w_next w2)) ((snd (call E (Sys (Sys_send fd d flags)) (snd (ctx_enter w2))))
        \<lparr>w_fibers := (w_fibers w2)(k \<mapsto> f')\<rparr>))"
proof -
  let ?g = "\<lambda>x. x\<lparr>op_type := SEND, op_fd := Vint fd, op_arg1 := Vint fd, op_arg2 := buf,
    op_arg3 := Vint (int len), op_arg4 := Vint flags, op_arg5 := dst, op_arg6 := Vint socklen\<rparr>"
  let ?c = "Sys_send fd d flags"
  note rdy = wait_ready [OF assms(1,2,3) disjI2 [OF assms(5)]]
  have "b_load buf len (snd (ctx_enter w2)) = Some d"
    using assms(7) b_load_heap [OF ctx_enter_frame(2)] by metis
  then have "perform E EV_WRITE (?g (fib_op f)) (snd (ctx_enter w2)) =
      Some (Vint r, snd (call E (Sys ?c) (snd (ctx_enter w2))))"
    by (simp add: perform_def dispatch_write_def k_send_def call_def Let_def assms(8))
  from suspend_world [where g = ?g, OF rdy assms(4,6) this] assms(5) show ?thesis
    by (intro exI [of _ "f\<lparr>fib_op := (?g (fib_op f))\<lparr>op_ret := Vint r\<rparr>\<rparr>"]) (simp add: async_sendto_def)
qed

text \<open>
  \<open>async_sendto\<close> never reaches its destination: whatever destination is given, the
  dispatcher performs \<open>send\<close> on the descriptor, without an address, with the bytes the
  buffer holds at that moment, and the fiber gets the result of that call.
\<close>

lemma async_sendto_sends_nowhere:
  assumes "map_ok E" and "fib_of s w = Some (k, f)" and "origin_valid w"
    and "leaves_fiber s k others" and "wait_write E s fd w = Some w0"
    and "others (parked k f (\<lambda>x. x\<lparr>op_type := SEND, op_fd := Vint fd, op_arg1 := Vint fd,
           op_arg2 := buf, op_arg3 := Vint (int len), op_arg4 := Vint flags, op_arg5 := dst,
           op_arg6 := Vint socklen\<rparr>) w0) = Some w2"
    and "b_load buf len w2 = Some d"
  shows "\<exists>r w'. async_sendto E (dispatched E k EV_WRITE others) s fd buf len flags dst socklen w = Some (Vint r, w')
    \<and> w_log w' = w_log w2 @ [(Sys (Sys_send fd d flags), r)] \<and> w_heap w' = w_heap w2"
proof -
  let ?r = "e_ret E (w_log w2) (Sys (Sys_send fd d flags))"
  from async_sendto_world [OF assms refl] obtain f' where
    "async_sendto E (dispatched E k EV_WRITE others) s fd buf len flags dst socklen w =
      Some (Vint ?r, set_origin (Some (w_next w2)) ((snd (call E (Sys (Sys_send fd d flags)) (snd (ctx_enter w2))))
        \<lparr>w_fibers := (w_fibers w2)(k \<mapsto> f')\<rparr>))" by blast
  then show ?thesis by (simp add: set_origin_def call_def Let_def)
qed

lemma async_sendto_sends_nowhere_witness:
  "\<exists>r w'. async_sendto demo_env (dispatched demo_env 1 EV_WRITE Some) 2 5 (Vptr 9 0) 6 0 (Vptr 9 0) 16 demo_world
      = Some (Vint r, w') \<and> (Sys (Sys_send 5 (replicate 6 0) 0), r) \<in> set (w_log w')"
proof -
  obtain w0 where w0: "wait_write demo_env 2 5 demo_world = Some w0" "w_heap w0 9 = Some (replicate 6 0)"
    using demo_wait(2) by blast
  have "b_load (Vptr 9 0) 6 (w0\<lparr>w_fibers := F\<rparr>) = Some (replicate 6 0)" for F
    using w0(2) by (simp add: b_load_def mem_read_def)
  from async_sendto_sends_nowhere [OF demo_map_ok demo_fib_of demo_origin leaves_fiber_idle w0(1) refl this,
      where flags = 0 and dst = "Vptr 9 0" and socklen = 16]
  show ?thesis by fastforce
qed

section \<open>Launching, creating and ending fibers\<close>

definition ctxs_below :: "'w sworld_scheme \<Rightarrow> bool" where
  "ctxs_below w \<longleftrightarrow> (\<forall>c \<in> w_ctxs w. c < w_next w)"

text \<open>The run of a fiber returns to the functions that were active when it started.\<close>

definition keeps_ctxs :: "'w run \<Rightarrow> bool" where
  "keeps_ctxs co \<longleftrightarrow> (\<forall>w w'. co w = Some w' \<longrightarrow> w_ctxs w \<subseteq> w_ctxs w')"

text \<open>
  Claim C30. Launches nest: a fiber that launches another one finds its own way back intact.
  After \<open>sched_fiber_launch\<close>, \<open>origin_ctx\<close> is what it was, it still belongs to a function
  that has not returned, and every context that was live still is, so the launching fiber
  can suspend itself again.
\<close>

theorem sched_fiber_launch_nests:
  assumes "origin_valid w" and "ctxs_below w" and "keeps_ctxs co"
    and "sched_fiber_launch co k w = Some w'"
  shows "sc_origin (w_sched w') = sc_origin (w_sched w) \<and> origin_valid w' \<and> w_ctxs w \<subseteq> w_ctxs w'"
proof -
  let ?c = "w_next w"
  let ?w0 = "set_origin (Some ?c) (snd (ctx_enter w))"
  obtain w1 f where co: "co ?w0 = Some w1" and f: "w_fibers (set_origin (sc_origin (w_sched w)) w1) k = Some f"
    and r: "do { w2 \<leftarrow> (if op_type (fib_op f) = FREE
        then b_free (fib_stack f) (set_origin (sc_origin (w_sched w)) w1) \<bind> o_free_fiber k
        else Some (set_origin (sc_origin (w_sched w)) w1)); Some (ctx_leave ?c w2) } = Some w'"
    using assms(4) by (auto simp: sched_fiber_launch_def ctx_enter_def bind_eq_Some_conv Let_def)
  have sub: "insert ?c (w_ctxs w) \<subseteq> w_ctxs w1"
    using assms(3) co unfolding keeps_ctxs_def by (fastforce simp: set_origin_def ctx_enter_def)
  obtain w2 where w2: "w' = ctx_leave ?c w2" "sc_origin (w_sched w2) = sc_origin (w_sched w)"
    "w_ctxs w2 = w_ctxs w1"
    using r by (auto simp: set_origin_def b_free_def o_free_fiber_def bind_eq_Some_conv
        split: if_splits val.splits option.splits)
  have "?c \<notin> w_ctxs w" using assms(2) by (auto simp: ctxs_below_def)
  with w2 sub assms(1) show ?thesis by (auto simp: ctx_leave_def origin_valid_def)
qed

theorem sched_fiber_launch_nests_witness:
  "\<exists>w'. sched_fiber_launch Some 1 demo_world = Some w' \<and> origin_valid w' \<and> sc_origin (w_sched w') = Some 0"
proof -
  obtain w' where w': "sched_fiber_launch Some 1 demo_world = Some w'"
    by (simp add: sched_fiber_launch_def demo_world_def demo_fiber_def ctx_enter_def set_origin_def zero_op_def)
  have "ctxs_below demo_world" "sc_origin (w_sched demo_world) = Some 0"
    by (simp_all add: ctxs_below_def demo_world_def)
  with sched_fiber_launch_nests [OF demo_origin _ _ w'] w' show ?thesis by (auto simp: keeps_ctxs_def)
qed

text \<open>
  A fiber that has ended must not be deleted: \<open>sched_fiber_exit\<close> has destroyed its
  event table, and \<open>sched_fiber_delete\<close>, which \<open>server_udp_exit\<close> calls on both UDP fibers
  whether they have ended or not, destroys it again, which is undefined.
\<close>

lemma sched_exit_then_delete:
  assumes "fib_of s w = Some (k, f)" and "fib_dtor f = None" and "sched_fiber_exit E dtors s v w = Some w'"
  shows "sched_fiber_delete k w' = None"
proof -
  let ?f = "f\<lparr>fib_op := (fib_op f)\<lparr>op_type := FREE, op_arg1 := Vint v\<rparr>\<rparr>"
  have k: "w_fibers w k = Some f" using assms(1) by (auto simp: fib_of_some)
  have "w_fibers w' k = Some ?f \<and> w_maps w' (map_fe f) = None"
    using assms k
    by (auto simp: sched_fiber_exit_def m_delete_def upd_op_def to_origin_def bind_eq_Some_conv
        Let_def split: option.splits if_splits)
  then show ?thesis by (simp add: sched_fiber_delete_def m_delete_def)
qed

lemma sched_exit_then_delete_witness:
  "\<exists>w'. sched_fiber_exit demo_env (\<lambda>_ _ _. Some) 2 1 demo_world = Some w' \<and> sched_fiber_delete 1 w' = None"
proof -
  obtain w' where w': "sched_fiber_exit demo_env (\<lambda>_ _ _. Some) 2 1 demo_world = Some w'"
    by (simp add: sched_fiber_exit_def m_delete_def upd_op_def to_origin_def demo_world_def demo_fiber_def
        fib_of_def call0_def call_def Let_def)
  from sched_exit_then_delete [OF demo_fib_of _ w'] w' show ?thesis by (simp add: demo_fiber_def)
qed

text \<open>
  Creating a fiber. If the structures are allocated and libevent provides the event,
  the new fiber is fresh, has no operation, an empty event table and a stack of its own, and
  every other fiber, table and block is unchanged. If only the stack cannot be allocated the
  call returns NULL and nothing is changed. If one of the two structures cannot be allocated
  the call is undefined: they are cleared before the check.
\<close>

lemma sched_new_fiber_correct:
  assumes "n = w_next w"
  shows "(\<not> e_alloc E n \<or> \<not> e_alloc E (Suc n) \<longrightarrow> sched_new_fiber E u w = None)
    \<and> (e_alloc E n \<and> e_alloc E (Suc n) \<and> \<not> e_alloc E (n + 2) \<longrightarrow>
         (\<exists>w'. sched_new_fiber E u w = Some (None, w') \<and> w_fibers w' = w_fibers w \<and> w_args w' = w_args w
            \<and> w_maps w' = w_maps w \<and> w_heap w' = w_heap w))
    \<and> (e_alloc E n \<and> e_alloc E (Suc n) \<and> e_alloc E (n + 2) \<and> e_ret E (w_log w) (Lev (Ev_new (-1) 0 (Suc n))) \<noteq> 0 \<longrightarrow>
         (\<exists>w' f. sched_new_fiber E u w = Some (Some (Suc n, n), w') \<and> fib_of n w' = Some (Suc n, f)
            \<and> op_type (fib_op f) = NONE \<and> w_maps w' (map_fe f) = Some Map.empty
            \<and> fib_stack f = Vptr (n + 2) 0 \<and> map_option length (w_heap w' (n + 2)) = Some STACK_SIZE
            \<and> (\<forall>k. k < n \<longrightarrow> w_fibers w' k = w_fibers w k \<and> w_args w' k = w_args w k
                 \<and> w_maps w' k = w_maps w k \<and> w_heap w' k = w_heap w k)))"
  by (simp add: sched_new_fiber_def o_new_def b_new_def call_def call0_def ev_add_def fib_of_def assms Let_def
      zero_op_def block_junk_def)

lemma sched_new_fiber_correct_witness:
  "\<exists>w' f. sched_new_fiber demo_env null demo_world = Some (Some (11, 10), w') \<and> fib_of 10 w' = Some (11, f)
    \<and> op_type (fib_op f) = NONE"
proof -
  have "w_next demo_world = 10" "e_alloc demo_env = (\<lambda>k. True)"
    "e_ret demo_env (w_log demo_world) (Lev (Ev_new (-1) 0 (Suc 10))) \<noteq> 0"
    by (simp_all add: demo_world_def demo_env_def)
  with sched_new_fiber_correct [of 10 demo_world demo_env null] show ?thesis by auto
qed

end
