(* ===== verification/Frame.thy ===== *)
theory Frame
  imports Sched Conf
begin

text \<open>
  Frames (\<open>src/frame.c\<close>, \<open>include/frame.h\<close>, \<open>struct packet_hdr\<close> of \<open>include/server.h\<close>): a
  block holding the packet as it goes over the network, a two-byte header with the size in
  network byte order, and the Ethernet or IP frame after it.
\<close>

definition sizeof_packet_hdr :: nat where
  "sizeof_packet_hdr = 2"

text \<open>The bytes of a \<open>struct packet_hdr\<close> with the size given in network byte order.\<close>

definition packet_hdr :: "u16 \<Rightarrow> bytes" where
  "packet_hdr sz = le16 (htons sz)"

record frame =
  f_size :: u16
  f_frame :: val
  f_raw :: val

definition frame_free :: "frame \<Rightarrow> 'w world_scheme \<Rightarrow> 'w world_scheme option" where
  "frame_free f w = b_free (f_raw f) w"

definition ptr_add :: "val \<Rightarrow> nat \<Rightarrow> val" where
  "ptr_add p n = (case p of Vptr b i \<Rightarrow> Vptr b (i + n) | _ \<Rightarrow> p)"

definition frame_alloc :: "'e env_scheme \<Rightarrow> frame \<Rightarrow> u32 \<Rightarrow> 'w world_scheme \<Rightarrow> int \<times> frame \<times> 'w world_scheme" where
  "frame_alloc E f sz w =
     (case b_new E (unat sz + sizeof_packet_hdr) w of
        (p, w1) \<Rightarrow>
          if p = null then (-1, f, w1)
          else (0, f\<lparr>f_raw := p, f_frame := ptr_add p sizeof_packet_hdr, f_size := ucast sz\<rparr>, w1))"

text \<open>A frame whose block is live and has room for the header and the size it claims.\<close>

definition frame_ok :: "'w world_scheme \<Rightarrow> frame \<Rightarrow> bool" where
  "frame_ok w f \<longleftrightarrow> (\<exists>b blk. f_raw f = Vptr b 0 \<and> f_frame f = Vptr b sizeof_packet_hdr
     \<and> w_heap w b = Some blk \<and> unat (f_size f) + sizeof_packet_hdr \<le> length blk)"

lemma length_packet_hdr [simp]: "length (packet_hdr sz) = 2"
  by (simp add: packet_hdr_def)

lemma length_block_junk [simp]: "length (block_junk E k n) = n"
  by (simp add: block_junk_def)

lemma frame_alloc_ok:
  assumes "frame_alloc E f sz w = (r, f', w')"
  shows "(if e_alloc E (w_next w)
      then r = 0 \<and> f_raw f' = Vptr (w_next w) 0 \<and> f_frame f' = Vptr (w_next w) 2 \<and> f_size f' = ucast sz
        \<and> w_heap w' = (w_heap w)(w_next w \<mapsto> block_junk E (w_next w) (unat sz + 2))
      else r = -1 \<and> f' = f \<and> w_heap w' = w_heap w)
    \<and> w_log w' = w_log w \<and> world.more w' = world.more w \<and> w_next w' = Suc (w_next w) \<and> w_errno w' = w_errno w"
  using assms
  by (auto simp: frame_alloc_def b_new_def o_new_def sizeof_packet_hdr_def ptr_add_def split: if_splits)

lemma frame_alloc_frame_ok:
  assumes "frame_alloc E f sz w = (0, f', w')"
  shows "frame_ok w' f'"
proof -
  have "unat (ucast sz :: u16) \<le> unat sz"
    by (metis unsigned_ucast_eq take_bit_nat_less_eq_self)
  then show ?thesis
    using frame_alloc_ok [OF assms] by (auto simp: frame_ok_def sizeof_packet_hdr_def split: if_splits)
qed

end
