(* ===== verification/Dtls.thy ===== *)
theory Dtls
  imports Frame
begin

text \<open>
  The OpenSSL side of the UDP sockets (\<open>src/dtls.c\<close>): the context and the state of a peer.
  Objects of OpenSSL are their addresses, 0 is NULL; the diagnostics of \<open>log_ssl\<close> are not
  modelled.
\<close>

definition UDP_MTU :: nat where "UDP_MTU = 1500"

definition DTLS_ENABLE :: int where "DTLS_ENABLE = 1"
definition DTLS_DISABLE :: int where "DTLS_DISABLE = 2"
definition DTLS_CLIENT :: int where "DTLS_CLIENT = 4"
definition DTLS_SERVER :: int where "DTLS_SERVER = 8"

record udp_peer =
  pe_addr :: endpoint
  pe_bio :: int
  pe_bio_backend :: int
  pe_ssl :: int
  pe_flags :: int

definition create_udp_ctx :: "'e env_scheme \<Rightarrow> options \<Rightarrow> 'w world_scheme \<Rightarrow> int \<times> 'w world_scheme" where
  "create_udp_ctx E opts w =
     (let (ctx, w) = call E (Tls (Ctx_new ''DTLSv1'')) w in
      if ctx = 0 then (0, w) else
      let (err, w) = call E (Tls (Ctx_ciphers ctx ''HIGH:MEDIUM:aNULL'')) w in
      if err \<noteq> 1 then (0, w) else
      case o_key_path opts of None \<Rightarrow> (0, w) | Some key \<Rightarrow>
      let (err, w) = call E (Tls (Ctx_key ctx key)) w in
      if err = -1 then (0, w) else
      case o_cert_path opts of None \<Rightarrow> (0, w) | Some cert \<Rightarrow>
      let (err, w) = call E (Tls (Ctx_chain ctx cert)) w in
      if err = -1 then (0, w) else (ctx, w))"

text \<open>
  \<open>BIO_new_bio_pair\<close> stores two objects, here numbered after the history of calls by the two
  oracle values \<open>e_bio\<close>.
\<close>

definition dtls_new_peer ::
    "'e env_scheme \<Rightarrow> (history \<Rightarrow> int \<times> int) \<Rightarrow> int \<Rightarrow> udp_peer \<Rightarrow> 'w world_scheme \<Rightarrow> int \<times> udp_peer \<times> 'w world_scheme" where
  "dtls_new_peer E bio_pair ctx p w =
     (let (b1, b2) = bio_pair (w_log w); (err, w) = call E (Tls Bio_pair) w in
      if err \<noteq> 1 then (-1, p, w) else
      let p = p\<lparr>pe_bio := b1, pe_bio_backend := b2\<rparr>; (ssl, w) = call E (Tls (Ssl_new ctx)) w in
      if ssl = 0 then (-1, p, w) else
      let w = call0 E (Tls (Ssl_set_bio ssl b1)) w; (ssl, w) = call E (Tls (Ssl_new ctx)) w in
      if ssl = 0 then (-1, p, call0 E (Tls (Bio_free b2)) (call0 E (Tls (Bio_free b1)) w)) else
      let p = p\<lparr>pe_ssl := ssl\<rparr> in
      (0, p, call0 E (Tls (if pe_flags p AND DTLS_CLIENT \<noteq> 0 then Ssl_connect_state ssl else Ssl_accept_state ssl)) w))"

lemma dtls_new_peer_keeps:
  assumes "dtls_new_peer E bio_pair ctx p w = (err, p', w')"
  shows "pe_addr p' = pe_addr p" "pe_flags p' = pe_flags p" "logs w w'"
proof -
  show "pe_addr p' = pe_addr p" "pe_flags p' = pe_flags p"
    using assms by (auto simp: dtls_new_peer_def Let_def split: prod.splits if_splits)
  show "logs w w'"
    using assms unfolding dtls_new_peer_def Let_def
    by (auto split: prod.splits if_splits intro!: logs_call0_trans dest!: logs_call intro: logs_trans)
qed

text \<open>
  The SSL object of a DTLS peer is not connected to anything: when
  \<open>dtls_new_peer\<close> succeeds, it has created two SSL objects, attached the BIO to the first one
  only, and kept the second one in the peer; these are all the calls it made.
\<close>

lemma dtls_new_peer_no_bio:
  assumes "dtls_new_peer E bio_pair ctx p w = (0, p', w')"
  shows "\<exists>first r1 state r2. w_log w' = w_log w @
      [(Tls Bio_pair, 1), (Tls (Ssl_new ctx), first), (Tls (Ssl_set_bio first (pe_bio p')), r1),
       (Tls (Ssl_new ctx), pe_ssl p'), (Tls state, r2)]
    \<and> state \<in> {Ssl_connect_state (pe_ssl p'), Ssl_accept_state (pe_ssl p')} \<and> pe_ssl p' \<noteq> 0
    \<and> pe_addr p' = pe_addr p \<and> pe_flags p' = pe_flags p"
  using assms
  by (auto simp: dtls_new_peer_def call_def call0_def Let_def split: prod.splits if_splits)

definition demo_tls :: env where
  "demo_tls = \<lparr>e_ret = (\<lambda>h c. case c of Tls Bio_pair \<Rightarrow> 1 | _ \<Rightarrow> int (length h) + 10), e_err = (\<lambda>h c. E0),
     e_out = (\<lambda>h c. []), e_adr = (\<lambda>h c. []), e_alloc = (\<lambda>k. True), e_junk = (\<lambda>k i. 0)\<rparr>"

definition demo_peer :: udp_peer where
  "demo_peer = \<lparr>pe_addr = demo_ep, pe_bio = 0, pe_bio_backend = 0, pe_ssl = 0, pe_flags = DTLS_ENABLE\<rparr>"

definition demo_mem :: world where
  "demo_mem = \<lparr>w_log = [], w_errno = E0, w_heap = Map.empty, w_next = 0\<rparr>"

lemma dtls_new_peer_no_bio_witness:
  "\<exists>p' w'. dtls_new_peer demo_tls (\<lambda>h. (5, 6)) 1 demo_peer demo_mem = (0, p', w')
     \<and> (Tls (Ssl_set_bio 11 5), 12) \<in> set (w_log w') \<and> pe_ssl p' = 13"
proof -
  obtain p' w' where d: "dtls_new_peer demo_tls (\<lambda>h. (5, 6)) 1 demo_peer demo_mem = (0, p', w')"
    "pe_ssl p' = 13" "pe_bio p' = 5" "(Tls (Ssl_new 1), 11) \<in> set (w_log w')" "length (w_log w') = 5"
    by (simp add: dtls_new_peer_def demo_tls_def demo_mem_def call_def call0_def Let_def demo_peer_def
        DTLS_ENABLE_def DTLS_CLIENT_def)
  from dtls_new_peer_no_bio [OF d(1)] d show ?thesis
    by (auto simp: demo_mem_def dtls_new_peer_def demo_tls_def call_def call0_def Let_def demo_peer_def)
qed

end
