(* ===== verification/Fiber.thy ===== *)
theory Fiber
  imports Sched
begin

text \<open>
  A fiber served by the event loop. When libevent provides events and the map has room, an
  asynchronous operation of a ready fiber always comes back; this theory gives the world it
  comes back to when nothing else runs in between. The clients of the scheduler rest on
  these lemmas.
\<close>

section \<open>Ready fibers\<close>

definition ready :: "nat \<Rightarrow> nat \<Rightarrow> 'w sworld_scheme \<Rightarrow> bool" where
  "ready s k w \<longleftrightarrow> (\<exists>f m. fib_of s w = Some (k, f) \<and> w_maps w (map_fe f) = Some m) \<and> origin_valid w"

definition events_ok :: "'e senv_scheme \<Rightarrow> bool" where
  "events_ok E \<longleftrightarrow> map_ok E \<and> (\<forall>m k v. m_insert E m k v \<noteq> None)
     \<and> (\<forall>h fd what k. e_ret E h (Lev (Ev_new fd what k)) \<noteq> 0)"

text \<open>
  The event loop: while the fiber sleeps the rest of the program runs, then the event the
  fiber asked for fires.
\<close>

definition op_event :: "operation \<Rightarrow> int" where
  "op_event x = (if op_type x \<in> {ACCEPT, RECVFROM, RECV, READ, EVENT} then EV_READ else EV_WRITE)"

definition ev_loop :: "'e senv_scheme \<Rightarrow> nat \<Rightarrow> 'w run \<Rightarrow> 'w run" where
  "ev_loop E k others w = do { f \<leftarrow> w_fibers w k; dispatched E k (op_event (fib_op f)) others w }"

text \<open>
  What the fiber relies on: the rest of the program always gives the control back, leaves the
  structures of the fiber alone, and changes the world within \<open>G\<close>.
\<close>

definition polite :: "nat \<Rightarrow> nat \<Rightarrow> ('w sworld_scheme \<Rightarrow> 'w sworld_scheme \<Rightarrow> bool) \<Rightarrow> 'w run \<Rightarrow> bool" where
  "polite s k G others \<longleftrightarrow> leaves_fiber s k others
     \<and> (\<forall>w f. ready s k w \<longrightarrow> w_fibers w k = Some f \<longrightarrow>
          (\<exists>w'. others w = Some w' \<and> w_maps w' (map_fe f) = w_maps w (map_fe f) \<and> G w w'))"

lemma polite_mono: "polite s k G others \<Longrightarrow> (\<And>v v'. G v v' \<Longrightarrow> H v v') \<Longrightarrow> polite s k H others"
  unfolding polite_def by blast

lemma polite_idle: "(\<And>w. G w w) \<Longrightarrow> polite s k G Some"
  by (simp add: polite_def)

text \<open>The calls that go to libevent only.\<close>

definition lev_only :: "history \<Rightarrow> bool" where
  "lev_only h \<longleftrightarrow> (\<forall>x \<in> set h. \<exists>l. fst x = Lev l)"

lemma lev_only_simps [simp]:
  "lev_only []" "lev_only (x # h) \<longleftrightarrow> (\<exists>l. fst x = Lev l) \<and> lev_only h" "lev_only (g @ h) \<longleftrightarrow> lev_only g \<and> lev_only h"
  by (auto simp: lev_only_def)

lemma ready_call [simp]: "ready s k (call0 E c w) = ready s k w" "ready s k (snd (call E c w)) = ready s k w"
  by (simp_all add: ready_def fib_of_def origin_valid_def)

lemma smore_call [simp]:
  "sworld.more (call0 E c w) = sworld.more w" "sworld.more (snd (call E c w)) = sworld.more w"
  by (simp_all add: call0_def call_def Let_def)

lemma get_events_total:
  assumes ok: "events_ok E" and r: "ready s k w" and ev: "event = EV_READ \<or> event = EV_WRITE"
  shows "\<exists>t w' ls. get_events E s fd event w = Some (Some t, w') \<and> ready s k w'
    \<and> (if event = EV_READ then r_event t else w_event t) \<noteq> 0
    \<and> w_fibers w' = w_fibers w \<and> w_args w' = w_args w \<and> w_heap w' = w_heap w \<and> w_next w' = w_next w
    \<and> sworld.more w' = sworld.more w \<and> w_log w' = w_log w @ ls \<and> lev_only ls"
proof -
  obtain a f m where f: "w_args w s = Some a" "a_fib a = k" "w_fibers w k = Some f"
    and m: "w_maps w (map_fe f) = Some m" and org: "origin_valid w"
    using r by (auto simp: ready_def fib_of_some)
  have find: "m_find E m fd = m fd" and new: "e_ret E h (Lev (Ev_new x what j)) \<noteq> 0" for h x what j
    using ok by (simp_all add: events_ok_def map_ok_def)
  have ins: "m_insert E m fd v = Some (m(fd \<mapsto> v))" for v
    using ok unfolding events_ok_def map_ok_def by blast
  show ?thesis
  proof (cases "m fd")
    case None
    with f m find ins new ev org show ?thesis
      by (auto simp: get_events_def call_def Let_def EV_READ_def EV_WRITE_def ready_def fib_of_def origin_valid_def)
  next
    case (Some t)
    with f m find ins new ev org show ?thesis
      by (auto simp: get_events_def call_def Let_def EV_READ_def EV_WRITE_def ready_def fib_of_def origin_valid_def)
  qed
qed

lemma wait_total:
  assumes "events_ok E" and "ready s k w"
  shows "\<exists>w' ls. wait_read E s fd w = Some w' \<and> ready s k w' \<and> w_fibers w' = w_fibers w \<and> w_args w' = w_args w
      \<and> w_heap w' = w_heap w \<and> w_next w' = w_next w \<and> sworld.more w' = sworld.more w \<and> w_log w' = w_log w @ ls \<and> lev_only ls"
    and "\<exists>w' ls. wait_write E s fd w = Some w' \<and> ready s k w' \<and> w_fibers w' = w_fibers w \<and> w_args w' = w_args w
      \<and> w_heap w' = w_heap w \<and> w_next w' = w_next w \<and> sworld.more w' = sworld.more w \<and> w_log w' = w_log w @ ls \<and> lev_only ls"
proof -
  show "\<exists>w' ls. wait_read E s fd w = Some w' \<and> ready s k w' \<and> w_fibers w' = w_fibers w \<and> w_args w' = w_args w
      \<and> w_heap w' = w_heap w \<and> w_next w' = w_next w \<and> sworld.more w' = sworld.more w \<and> w_log w' = w_log w @ ls \<and> lev_only ls"
    using get_events_total [OF assms, of EV_READ fd] by (auto simp: wait_read_def ev_add_def)
  show "\<exists>w' ls. wait_write E s fd w = Some w' \<and> ready s k w' \<and> w_fibers w' = w_fibers w \<and> w_args w' = w_args w
      \<and> w_heap w' = w_heap w \<and> w_next w' = w_next w \<and> sworld.more w' = sworld.more w \<and> w_log w' = w_log w @ ls \<and> lev_only ls"
    using get_events_total [OF assms, of EV_WRITE fd] by (auto simp: wait_write_def ev_add_def EV_READ_def EV_WRITE_def)
qed

section \<open>Sleeping and coming back\<close>

text \<open>
  \<open>v\<close> is the world the fiber leaves, \<open>v'\<close> the one the event loop finds when the event fires,
  \<open>u\<close> the one after the operation, \<open>w'\<close> the one the fiber continues in.
\<close>

lemma suspend_served:
  assumes f: "fib_of s w = Some (k, f)" and rd: "ready s k w" and pol: "polite s k G others"
    and ev: "op_event (g (fib_op f)) = event"
    and p: "\<forall>v v'. G v v' \<and> w_log v = w_log w \<and> w_heap v = w_heap w \<and> w_next v = w_next w
        \<and> sworld.more v = sworld.more w \<longrightarrow>
      (\<exists>r u. perform E event (g (fib_op f)) (snd (ctx_enter v')) = Some (r, u)
        \<and> world.more u = world.more (snd (ctx_enter v')))"
  shows "\<exists>v v' r u w'. G v v' \<and> w_log v = w_log w \<and> w_heap v = w_heap w \<and> w_next v = w_next w \<and> sworld.more v = sworld.more w
    \<and> perform E event (g (fib_op f)) (snd (ctx_enter v')) = Some (r, u)
    \<and> suspend (ev_loop E k others) s g w = Some (r, w') \<and> ready s k w'
    \<and> w_log w' = w_log u \<and> w_heap w' = w_heap u \<and> w_errno w' = w_errno u \<and> w_next w' = w_next u
    \<and> sworld.more w' = sworld.more v' \<and> (\<forall>j. j \<noteq> k \<longrightarrow> w_fibers v j = w_fibers w j \<and> w_fibers w' j = w_fibers v' j)"
proof -
  let ?v = "parked k f g w"
  obtain a m where a: "w_args w s = Some a" "a_fib a = k" "w_fibers w k = Some f"
    and m: "w_maps w (map_fe f) = Some m" and org: "origin_valid w"
    using f rd by (auto simp: ready_def fib_of_some)
  have rv: "ready s k ?v" using a m org by (simp add: ready_def fib_of_def origin_valid_def)
  obtain v' where v': "others ?v = Some v'" "w_maps v' (map_fe f) = Some m" "G ?v v'"
    using pol rv m unfolding polite_def by fastforce
  have lv: "leaves_fiber s k others" using pol by (simp add: polite_def)
  obtain r u where u: "perform E event (g (fib_op f)) (snd (ctx_enter v')) = Some (r, u)"
    "world.more u = world.more (snd (ctx_enter v'))"
    using p v'(3) by fastforce
  note mu = more_sworld [OF u(2)]
  let ?w' = "set_origin (Some (w_next v')) (u\<lparr>w_fibers := (w_fibers v')(k \<mapsto> f\<lparr>fib_op := (g (fib_op f))\<lparr>op_ret := r\<rparr>\<rparr>)\<rparr>)"
  have "suspend (dispatched E k event others) s g w = Some (r, ?w')"
    using suspend_world [where g = g, OF f org lv v'(1) u(1)] mu by simp
  moreover have ev_loop_at: "to_origin (ev_loop E k others) ?v = to_origin (dispatched E k event others) ?v"
    by (simp add: to_origin_def ev_loop_def ev split: option.split)
  have "suspend (ev_loop E k others) s g w = suspend (dispatched E k event others) s g w"
    using a ev_loop_at by (simp add: suspend_def fib_of_def upd_op_some)
  moreover have "w_args v' s = Some a" using lv v'(1) a(1) by (auto simp: leaves_fiber_def)
  then have "ready s k ?w'"
    using a v'(2) mu by (simp add: ready_def fib_of_def set_origin_def origin_valid_def ctx_enter_def)
  moreover have "sworld.more ?w' = sworld.more v'"
    using u(2) by (cases u; cases v') (simp add: set_origin_def ctx_enter_def)
  ultimately show ?thesis
    using v'(3) u(1) by (intro exI [of _ ?v] exI [of _ v'] exI [of _ r] exI [of _ u] exI [of _ ?w'])
      (simp add: set_origin_def)
qed

text \<open>The same with the registration of the event, for any fact \<open>Q\<close> about the operation.\<close>

lemma wait_suspend_served:
  assumes ok: "events_ok E" and rd: "ready s k w" and pol: "polite s k G others"
    and wt: "wait = wait_read \<and> event = EV_READ \<or> wait = wait_write \<and> event = EV_WRITE"
    and q: "\<And>x. op_event (g x) = event"
    and p: "\<forall>x v v' ls. G v v' \<and> w_log v = w_log w @ ls \<and> lev_only ls \<and> w_heap v = w_heap w
        \<and> w_next v = w_next w \<and> sworld.more v = sworld.more w \<longrightarrow>
      (\<exists>r u. perform E event (g x) (snd (ctx_enter v')) = Some (r, u)
        \<and> world.more u = world.more (snd (ctx_enter v')) \<and> Q v' r u)"
  shows "\<exists>v v' ls r u w'. G v v' \<and> w_log v = w_log w @ ls \<and> lev_only ls \<and> w_heap v = w_heap w
    \<and> w_next v = w_next w \<and> sworld.more v = sworld.more w
    \<and> (wait E s fd w \<bind> suspend (ev_loop E k others) s g) = Some (r, w') \<and> ready s k w' \<and> Q v' r u
    \<and> w_log w' = w_log u \<and> w_heap w' = w_heap u \<and> w_errno w' = w_errno u \<and> w_next w' = w_next u
    \<and> sworld.more w' = sworld.more v' \<and> (\<forall>j. j \<noteq> k \<longrightarrow> w_fibers v j = w_fibers w j \<and> w_fibers w' j = w_fibers v' j)"
proof -
  obtain w0 ls where w0: "wait E s fd w = Some w0" "ready s k w0" "w_heap w0 = w_heap w" "w_next w0 = w_next w"
    "sworld.more w0 = sworld.more w" "w_log w0 = w_log w @ ls" "lev_only ls" "w_fibers w0 = w_fibers w"
    using wait_total [OF ok rd] wt by blast
  obtain f where f: "fib_of s w0 = Some (k, f)" using w0(2) by (auto simp: ready_def)
  have pq: "\<forall>v v'. G v v' \<and> w_log v = w_log w0 \<and> w_heap v = w_heap w0 \<and> w_next v = w_next w0
      \<and> sworld.more v = sworld.more w0 \<longrightarrow>
    (\<exists>r u. perform E event (g (fib_op f)) (snd (ctx_enter v')) = Some (r, u)
      \<and> world.more u = world.more (snd (ctx_enter v')) \<and> Q v' r u)"
    using p [rule_format, of _ _ ls "fib_op f"] w0(3-7) by simp
  then have pr: "\<forall>v v'. G v v' \<and> w_log v = w_log w0 \<and> w_heap v = w_heap w0 \<and> w_next v = w_next w0
      \<and> sworld.more v = sworld.more w0 \<longrightarrow>
    (\<exists>r u. perform E event (g (fib_op f)) (snd (ctx_enter v')) = Some (r, u)
      \<and> world.more u = world.more (snd (ctx_enter v')))"
    by blast
  from suspend_served [where g = g and E = E and event = event, OF f w0(2) pol q pr]
  obtain v v' r u w' where x: "G v v'" "w_log v = w_log w0" "w_heap v = w_heap w0" "w_next v = w_next w0"
    "sworld.more v = sworld.more w0"
    "perform E event (g (fib_op f)) (snd (ctx_enter v')) = Some (r, u)"
    "suspend (ev_loop E k others) s g w0 = Some (r, w')" "ready s k w'"
    "w_log w' = w_log u" "w_heap w' = w_heap u" "w_errno w' = w_errno u" "w_next w' = w_next u"
    "sworld.more w' = sworld.more v'" "\<forall>j. j \<noteq> k \<longrightarrow> w_fibers v j = w_fibers w0 j \<and> w_fibers w' j = w_fibers v' j"
    by blast
  have "Q v' r u" using pq x(1-6) by fastforce
  with x w0 show ?thesis
    by (intro exI [of _ v] exI [of _ v'] exI [of _ ls] exI [of _ r] exI [of _ u] exI [of _ w']) simp
qed

text \<open>A fiber that sends: the bytes are read when the event fires.\<close>

lemma send_served:
  fixes w :: "'w sworld_scheme"
  assumes ok: "events_ok E" "ready s k w" "polite s k G others"
    and ld: "\<forall>v v'. G v v' \<and> w_heap v = w_heap w \<and> sworld.more v = sworld.more w \<longrightarrow> b_load buf len v' = Some d"
    and g: "\<And>x v. perform E EV_WRITE (g x) (v :: 'w sworld_scheme) = k_send E c buf len v" "\<And>x. op_event (g x) = EV_WRITE"
  shows "\<exists>v v' ls r w'. G v v' \<and> w_log v = w_log w @ ls \<and> lev_only ls \<and> w_heap v = w_heap w
    \<and> w_next v = w_next w \<and> sworld.more v = sworld.more w
    \<and> (wait_write E s fd w \<bind> suspend (ev_loop E k others) s g) = Some (Vint r, w') \<and> ready s k w'
    \<and> r = e_ret E (w_log v') (Sys (c d))
    \<and> w_log w' = w_log v' @ [(Sys (c d), r)] \<and> w_heap w' = w_heap v' \<and> w_next w' = Suc (w_next v')
    \<and> sworld.more w' = sworld.more v'"
proof -
  let ?Q = "\<lambda>v' r u. r = Vint (e_ret E (w_log v') (Sys (c d))) \<and> u = snd (call E (Sys (c d)) (snd (ctx_enter v')))"
  have "\<forall>x v v' ls. G v v' \<and> w_log v = w_log w @ ls \<and> lev_only ls \<and> w_heap v = w_heap w
        \<and> w_next v = w_next w \<and> sworld.more v = sworld.more w \<longrightarrow>
      (\<exists>r u. perform E EV_WRITE (g x) (snd (ctx_enter v')) = Some (r, u)
        \<and> world.more u = world.more (snd (ctx_enter v')) \<and> ?Q v' r u)"
  proof (intro allI impI)
    fix x v v' ls
    assume "G v v' \<and> w_log v = w_log w @ ls \<and> lev_only ls \<and> w_heap v = w_heap w
      \<and> w_next v = w_next w \<and> sworld.more v = sworld.more w"
    then have "b_load buf len (snd (ctx_enter v')) = Some d"
      using ld b_load_heap [OF ctx_enter_frame(2)] by metis
    then show "\<exists>r u. perform E EV_WRITE (g x) (snd (ctx_enter v')) = Some (r, u)
        \<and> world.more u = world.more (snd (ctx_enter v')) \<and> ?Q v' r u"
      by (simp add: g(1) k_send_def call_def Let_def)
  qed
  from wait_suspend_served [where wait = wait_write and event = EV_WRITE and g = g and Q = ?Q, OF ok _ g(2) this]
  obtain v v' ls r u w' where x: "G v v'" "w_log v = w_log w @ ls" "lev_only ls" "w_heap v = w_heap w"
    "w_next v = w_next w" "sworld.more v = sworld.more w"
    "(wait_write E s fd w \<bind> suspend (ev_loop E k others) s g) = Some (r, w')" "ready s k w'" "?Q v' r u"
    "w_log w' = w_log u" "w_heap w' = w_heap u" "w_next w' = w_next u" "sworld.more w' = sworld.more v'"
    by blast
  then show ?thesis
    by (intro exI [of _ v] exI [of _ v'] exI [of _ ls] exI [of _ "e_ret E (w_log v') (Sys (c d))"] exI [of _ w'])
      (simp add: call_def ctx_enter_def Let_def)
qed

lemma async_sendto_served:
  assumes "events_ok E" and "ready s k w" and "polite s k G others"
    and "\<forall>v v'. G v v' \<and> w_heap v = w_heap w \<and> sworld.more v = sworld.more w \<longrightarrow> b_load buf len v' = Some d"
  shows "\<exists>v v' ls r w'. G v v' \<and> w_log v = w_log w @ ls \<and> lev_only ls \<and> w_heap v = w_heap w
    \<and> w_next v = w_next w \<and> sworld.more v = sworld.more w
    \<and> async_sendto E (ev_loop E k others) s fd buf len flags dst socklen w = Some (Vint r, w') \<and> ready s k w'
    \<and> r = e_ret E (w_log v') (Sys (Sys_send fd d flags))
    \<and> w_log w' = w_log v' @ [(Sys (Sys_send fd d flags), r)] \<and> w_heap w' = w_heap v'
    \<and> w_next w' = Suc (w_next v') \<and> sworld.more w' = sworld.more v'"
  unfolding async_sendto_def
  by (rule send_served [OF assms, where c = "\<lambda>d. Sys_send fd d flags"])
    (simp_all add: perform_def dispatch_write_def op_event_def)

lemma async_write_served:
  assumes "events_ok E" and "ready s k w" and "polite s k G others"
    and "\<forall>v v'. G v v' \<and> w_heap v = w_heap w \<and> sworld.more v = sworld.more w \<longrightarrow> b_load buf len v' = Some d"
  shows "\<exists>v v' ls r w'. G v v' \<and> w_log v = w_log w @ ls \<and> lev_only ls \<and> w_heap v = w_heap w
    \<and> w_next v = w_next w \<and> sworld.more v = sworld.more w
    \<and> async_write E (ev_loop E k others) s fd buf len w = Some (Vint r, w') \<and> ready s k w'
    \<and> r = e_ret E (w_log v') (Sys (Sys_write fd d))
    \<and> w_log w' = w_log v' @ [(Sys (Sys_write fd d), r)] \<and> w_heap w' = w_heap v'
    \<and> w_next w' = Suc (w_next v') \<and> sworld.more w' = sworld.more v'"
  unfolding async_write_def
  by (rule send_served [OF assms, where c = "\<lambda>d. Sys_write fd d"])
    (simp_all add: perform_def dispatch_write_def op_event_def)

text \<open>A fiber that receives: the bytes are stored when the event fires.\<close>

lemma recv_served:
  fixes w :: "'w sworld_scheme"
  assumes ok: "events_ok E" "ready s k w" "polite s k G others" and ker: "kernel_ok E" "recv_room c = Some n"
    and bl: "\<forall>v v'. G v v' \<and> w_heap v = w_heap w \<and> sworld.more v = sworld.more w \<longrightarrow> w_heap v' b = Some blk"
      "i + n \<le> length blk"
    and g: "\<And>x v. perform E EV_READ (g x) (v :: 'w sworld_scheme) = k_store E c (Vptr b i) n v"
      "\<And>x. op_event (g x) = EV_READ"
  shows "\<exists>v v' ls r w'. G v v' \<and> w_log v = w_log w @ ls \<and> lev_only ls \<and> w_heap v = w_heap w
    \<and> w_next v = w_next w \<and> sworld.more v = sworld.more w
    \<and> (wait_read E s fd w \<bind> suspend (ev_loop E k others) s g) = Some (Vint r, w') \<and> ready s k w'
    \<and> r = e_ret E (w_log v') (Sys c)
    \<and> w_log w' = w_log v' @ [(Sys c, r)] \<and> w_next w' = Suc (w_next v')
    \<and> w_heap w' = (w_heap v')(b \<mapsto> take i blk @ received E (w_log v') c
         @ drop (i + length (received E (w_log v') c)) blk)
    \<and> sworld.more w' = sworld.more v'"
proof -
  let ?Q = "\<lambda>v' r u. r = Vint (e_ret E (w_log v') (Sys c))
    \<and> u = (snd (call E (Sys c) (snd (ctx_enter v'))))\<lparr>w_heap := (w_heap v')(b \<mapsto> take i blk @ received E (w_log v') c
         @ drop (i + length (received E (w_log v') c)) blk)\<rparr>"
  have "\<forall>x v v' ls. G v v' \<and> w_log v = w_log w @ ls \<and> lev_only ls \<and> w_heap v = w_heap w
        \<and> w_next v = w_next w \<and> sworld.more v = sworld.more w \<longrightarrow>
      (\<exists>r u. perform E EV_READ (g x) (snd (ctx_enter v')) = Some (r, u)
        \<and> world.more u = world.more (snd (ctx_enter v')) \<and> ?Q v' r u)"
  proof (intro allI impI)
    fix x v v' ls
    assume "G v v' \<and> w_log v = w_log w @ ls \<and> lev_only ls \<and> w_heap v = w_heap w
      \<and> w_next v = w_next w \<and> sworld.more v = sworld.more w"
    then have "w_heap (snd (ctx_enter v')) b = Some blk"
      using bl(1) by (metis ctx_enter_frame(2))
    from k_store_ok [OF ker this bl(2)]
    show "\<exists>r u. perform E EV_READ (g x) (snd (ctx_enter v')) = Some (r, u)
        \<and> world.more u = world.more (snd (ctx_enter v')) \<and> ?Q v' r u"
      by (simp add: g(1) call_def Let_def)
  qed
  from wait_suspend_served [where wait = wait_read and event = EV_READ and g = g and Q = ?Q, OF ok _ g(2) this]
  obtain v v' ls r u w' where x: "G v v'" "w_log v = w_log w @ ls" "lev_only ls" "w_heap v = w_heap w"
    "w_next v = w_next w" "sworld.more v = sworld.more w"
    "(wait_read E s fd w \<bind> suspend (ev_loop E k others) s g) = Some (r, w')" "ready s k w'" "?Q v' r u"
    "w_log w' = w_log u" "w_heap w' = w_heap u" "w_next w' = w_next u" "sworld.more w' = sworld.more v'"
    by blast
  then show ?thesis
    by (intro exI [of _ v] exI [of _ v'] exI [of _ ls] exI [of _ "e_ret E (w_log v') (Sys c)"] exI [of _ w'])
      (simp add: call_def ctx_enter_def Let_def)
qed

lemma async_recv_served:
  assumes "events_ok E" and "ready s k w" and "polite s k G others" and "kernel_ok E"
    and "\<forall>v v'. G v v' \<and> w_heap v = w_heap w \<and> sworld.more v = sworld.more w \<longrightarrow> w_heap v' b = Some blk"
    and "i + n \<le> length blk"
  shows "\<exists>v v' ls r w'. G v v' \<and> w_log v = w_log w @ ls \<and> lev_only ls \<and> w_heap v = w_heap w
    \<and> w_next v = w_next w \<and> sworld.more v = sworld.more w
    \<and> async_recv E (ev_loop E k others) s fd (Vptr b i) n fl w = Some (Vint r, w') \<and> ready s k w'
    \<and> r = e_ret E (w_log v') (Sys (Sys_recv fd n fl))
    \<and> w_log w' = w_log v' @ [(Sys (Sys_recv fd n fl), r)] \<and> w_next w' = Suc (w_next v')
    \<and> w_heap w' = (w_heap v')(b \<mapsto> take i blk @ received E (w_log v') (Sys_recv fd n fl)
         @ drop (i + length (received E (w_log v') (Sys_recv fd n fl))) blk)
    \<and> sworld.more w' = sworld.more v'"
  unfolding async_recv_def
  by (rule recv_served [OF assms(1-4) _ assms(5,6)])
    (simp_all add: perform_def dispatch_read_def op_event_def)

lemma async_read_served:
  assumes "events_ok E" and "ready s k w" and "polite s k G others" and "kernel_ok E"
    and "\<forall>v v'. G v v' \<and> w_heap v = w_heap w \<and> sworld.more v = sworld.more w \<longrightarrow> w_heap v' b = Some blk"
    and "i + n \<le> length blk"
  shows "\<exists>v v' ls r w'. G v v' \<and> w_log v = w_log w @ ls \<and> lev_only ls \<and> w_heap v = w_heap w
    \<and> w_next v = w_next w \<and> sworld.more v = sworld.more w
    \<and> async_read E (ev_loop E k others) s fd (Vptr b i) n w = Some (Vint r, w') \<and> ready s k w'
    \<and> r = e_ret E (w_log v') (Sys (Sys_read fd n))
    \<and> w_log w' = w_log v' @ [(Sys (Sys_read fd n), r)] \<and> w_next w' = Suc (w_next v')
    \<and> w_heap w' = (w_heap v')(b \<mapsto> take i blk @ received E (w_log v') (Sys_read fd n)
         @ drop (i + length (received E (w_log v') (Sys_read fd n))) blk)
    \<and> sworld.more w' = sworld.more v'"
  unfolding async_read_def
  by (rule recv_served [OF assms(1-4) _ assms(5,6)])
    (simp_all add: perform_def dispatch_read_def op_event_def)

text \<open>Receiving with the address of the sender, which is stored with its own length.\<close>

definition put_bytes :: "bytes \<Rightarrow> bytes \<Rightarrow> bytes" where
  "put_bytes d blk = d @ drop (length d) blk"

lemma put_bytes_facts [simp]:
  "length d \<le> length blk \<Longrightarrow> length (put_bytes d blk) = length blk" "put_bytes [] blk = blk"
  "take (length d) (put_bytes d blk) = d"
  by (simp_all add: put_bytes_def)

lemma b_store_at:
  assumes "w_heap w b = Some blk" and "length d \<le> length blk"
  shows "b_store (Vptr b 0) d w = Some (w\<lparr>w_heap := (w_heap w)(b \<mapsto> put_bytes d blk)\<rparr>)"
  using assms by (simp add: b_store_def put_bytes_def map_upd_triv)

lemma k_address_ok:
  assumes "w_heap w sb = Some sblk" and "w_heap w lb = Some lblk" and "sb \<noteq> lb" and "length lblk = 4"
    and "unat (of_le32 lblk) \<le> length sblk"
  shows "k_address adr (Vptr sb 0) (Vptr lb 0) w =
    Some (w\<lparr>w_heap := (w_heap w)(sb \<mapsto> put_bytes (take (unat (of_le32 lblk)) adr) sblk,
      lb \<mapsto> le32 (word_of_nat (length adr)))\<rparr>)"
proof -
  let ?w1 = "w\<lparr>w_heap := (w_heap w)(sb \<mapsto> put_bytes (take (unat (of_le32 lblk)) adr) sblk)\<rparr>"
  have "b_load (Vptr lb 0) 4 w = Some lblk" using assms(2,4) by (simp add: b_load_def mem_read_def)
  moreover have "b_store (Vptr sb 0) (take (unat (of_le32 lblk)) adr) w = Some ?w1"
    using assms(1,5) by (intro b_store_at) simp_all
  moreover have "b_store (Vptr lb 0) (le32 (word_of_nat (length adr))) ?w1 =
      Some (?w1\<lparr>w_heap := (w_heap ?w1)(lb \<mapsto> put_bytes (le32 (word_of_nat (length adr))) lblk)\<rparr>)"
    using assms by (intro b_store_at) simp_all
  ultimately show ?thesis using assms(4) by (simp add: k_address_def put_bytes_def)
qed

text \<open>The heap after a receiving call that stores an address.\<close>

definition recvfrom_heap ::
    "'e env_scheme \<Rightarrow> history \<Rightarrow> sys \<Rightarrow> nat \<Rightarrow> bytes \<Rightarrow> nat \<Rightarrow> bytes \<Rightarrow> nat \<Rightarrow> bytes \<Rightarrow> (nat \<Rightarrow> bytes option) \<Rightarrow> nat \<Rightarrow> bytes option" where
  "recvfrom_heap E h c b blk sb sblk lb lblk H =
     (if e_ret E h (Sys c) = -1 then H
      else H(b \<mapsto> put_bytes (received E h c) blk,
             sb \<mapsto> put_bytes (take (unat (of_le32 lblk)) (e_adr E h (Sys c))) sblk,
             lb \<mapsto> le32 (word_of_nat (length (e_adr E h (Sys c))))))"

lemma k_recvfrom_ok:
  assumes ker: "kernel_ok E" and c: "c = Sys_recvfrom fd n fl"
    and h: "w_heap w b = Some blk" "n \<le> length blk" "w_heap w sb = Some sblk" "w_heap w lb = Some lblk"
    and d: "b \<noteq> sb" "b \<noteq> lb" "sb \<noteq> lb" and l: "length lblk = 4" "unat (of_le32 lblk) \<le> length sblk"
  shows "k_recvfrom E fd (Vptr b 0) n fl (Vptr sb 0) (Vptr lb 0) w =
    Some (Vint (e_ret E (w_log w) (Sys c)),
      (snd (call E (Sys c) w))\<lparr>w_heap := recvfrom_heap E (w_log w) c b blk sb sblk lb lblk (w_heap w)\<rparr>)"
proof -
  let ?h = "w_log w"
  let ?w1 = "(snd (call E (Sys c) w))\<lparr>w_heap := (w_heap w)(b \<mapsto> put_bytes (received E ?h c) blk)\<rparr>"
  have st: "k_store E c (Vptr b 0) n w = Some (Vint (e_ret E ?h (Sys c)), ?w1)"
    using k_store_ok [OF ker, of c n w b blk 0] c h by (simp add: put_bytes_def)
  have "received E ?h c = [] \<and> (w_heap w)(b \<mapsto> blk) = w_heap w" if "e_ret E ?h (Sys c) = -1"
    using that h by (simp add: received_def map_upd_triv)
  moreover have "k_address adr (Vptr sb 0) (Vptr lb 0) ?w1 =
      Some (?w1\<lparr>w_heap := (w_heap ?w1)(sb \<mapsto> put_bytes (take (unat (of_le32 lblk)) adr) sblk,
        lb \<mapsto> le32 (word_of_nat (length adr)))\<rparr>)" for adr
    using h d l by (intro k_address_ok) simp_all
  ultimately show ?thesis using st c by (auto simp: k_recvfrom_def recvfrom_heap_def Let_def)
qed

lemma async_recvfrom_served:
  fixes w :: "'w sworld_scheme"
  assumes ok: "events_ok E" "ready s k w" "polite s k G others" and ker: "kernel_ok E" and c: "c = Sys_recvfrom fd n fl"
    and bl: "\<forall>v v'. G v v' \<and> w_heap v = w_heap w \<and> sworld.more v = sworld.more w \<longrightarrow>
      w_heap v' b = Some blk \<and> w_heap v' sb = Some sblk \<and> w_heap v' lb = Some lblk"
    and sz: "n \<le> length blk" "b \<noteq> sb" "b \<noteq> lb" "sb \<noteq> lb" "length lblk = 4" "unat (of_le32 lblk) \<le> length sblk"
  shows "\<exists>v v' ls r w'. G v v' \<and> w_log v = w_log w @ ls \<and> lev_only ls \<and> w_heap v = w_heap w
    \<and> w_next v = w_next w \<and> sworld.more v = sworld.more w
    \<and> async_recvfrom E (ev_loop E k others) s fd (Vptr b 0) (int n) fl (Vptr sb 0) (Vptr lb 0) w = Some (Vint r, w')
    \<and> ready s k w' \<and> r = e_ret E (w_log v') (Sys c) \<and> (r = -1 \<longrightarrow> w_errno w' = e_err E (w_log v') (Sys c))
    \<and> w_log w' = w_log v' @ [(Sys c, r)] \<and> w_next w' = Suc (w_next v')
    \<and> w_heap w' = recvfrom_heap E (w_log v') c b blk sb sblk lb lblk (w_heap v')
    \<and> sworld.more w' = sworld.more v'"
proof -
  let ?g = "\<lambda>x. x\<lparr>op_type := RECVFROM, op_fd := Vint fd, op_arg1 := Vint fd, op_arg2 := Vptr b 0,
    op_arg3 := Vint (int n), op_arg4 := Vint fl, op_arg5 := Vptr sb 0, op_arg6 := Vptr lb 0\<rparr>"
  let ?Q = "\<lambda>v' r u. r = Vint (e_ret E (w_log v') (Sys c)) \<and> u = (snd (call E (Sys c) (snd (ctx_enter v'))))
    \<lparr>w_heap := recvfrom_heap E (w_log v') c b blk sb sblk lb lblk (w_heap v')\<rparr>"
  have q: "op_event (?g x) = EV_READ" for x by (simp add: op_event_def)
  have "\<forall>x v v' ls. G v v' \<and> w_log v = w_log w @ ls \<and> lev_only ls \<and> w_heap v = w_heap w
        \<and> w_next v = w_next w \<and> sworld.more v = sworld.more w \<longrightarrow>
      (\<exists>r u. perform E EV_READ (?g x) (snd (ctx_enter v')) = Some (r, u)
        \<and> world.more u = world.more (snd (ctx_enter v')) \<and> ?Q v' r u)"
  proof (intro allI impI)
    fix x v v' ls
    assume "G v v' \<and> w_log v = w_log w @ ls \<and> lev_only ls \<and> w_heap v = w_heap w
      \<and> w_next v = w_next w \<and> sworld.more v = sworld.more w"
    then have "w_heap (snd (ctx_enter v')) b = Some blk" "w_heap (snd (ctx_enter v')) sb = Some sblk"
      "w_heap (snd (ctx_enter v')) lb = Some lblk"
      using bl by (metis ctx_enter_frame(2))+
    from k_recvfrom_ok [OF ker c this(1) sz(1) this(2,3) sz(2-6)] c
    show "\<exists>r u. perform E EV_READ (?g x) (snd (ctx_enter v')) = Some (r, u)
        \<and> world.more u = world.more (snd (ctx_enter v')) \<and> ?Q v' r u"
      by (simp add: perform_def dispatch_read_def call_def Let_def)
  qed
  from wait_suspend_served [where wait = wait_read and event = EV_READ and g = ?g and Q = ?Q, OF ok _ q this]
  obtain v v' ls r u w' where x: "G v v'" "w_log v = w_log w @ ls" "lev_only ls" "w_heap v = w_heap w"
    "w_next v = w_next w" "sworld.more v = sworld.more w"
    "(wait_read E s fd w \<bind> suspend (ev_loop E k others) s ?g) = Some (r, w')" "ready s k w'" "?Q v' r u"
    "w_log w' = w_log u" "w_heap w' = w_heap u" "w_errno w' = w_errno u" "w_next w' = w_next u"
    "sworld.more w' = sworld.more v'"
    by blast
  then show ?thesis
    by (intro exI [of _ v] exI [of _ v'] exI [of _ ls] exI [of _ "e_ret E (w_log v') (Sys c)"] exI [of _ w'])
      (simp add: async_recvfrom_def call_def ctx_enter_def Let_def)
qed

text \<open>Receiving into memory the operation cannot store to is undefined.\<close>

lemma async_recv_dead:
  assumes "events_ok E" and "ready s k w" and "polite s k G others"
    and "\<And>v. k_store E (Sys_recv fd n fl) p n (v :: 'w sworld_scheme) = None"
  shows "async_recv E (ev_loop E k others) s fd p n fl (w :: 'w sworld_scheme) = None"
proof -
  obtain w0 where w0: "wait_read E s fd w = Some w0" "ready s k w0"
    using wait_total(1) [OF assms(1,2)] by blast
  obtain a f where f: "w_args w0 s = Some a" "a_fib a = k" "w_fibers w0 k = Some f" "origin_valid w0"
    using w0(2) by (auto simp: ready_def fib_of_some)
  let ?g = "\<lambda>x. x\<lparr>op_type := RECV, op_fd := Vint fd, op_arg1 := Vint fd, op_arg2 := p,
    op_arg3 := Vint (int n), op_arg4 := Vint fl\<rparr>"
  have "others v = Some v' \<Longrightarrow> w_fibers v' k = w_fibers v k" for v v'
    using assms(3) by (auto simp: polite_def leaves_fiber_def)
  then have "ev_loop E k others (parked k f ?g w0) = None"
    using assms(4)
    by (auto simp: ev_loop_def dispatched_def op_event_def dispatch_op_def perform_def dispatch_read_def
        bind_eq_None_conv ctx_enter_def)
  then show ?thesis
    using w0(1) f by (simp add: async_recv_def suspend_def fib_of_def upd_op_some to_origin_def origin_valid_def
        split: option.splits)
qed

text \<open>A fiber that only waits for a descriptor to become readable.\<close>

lemma async_event_served:
  assumes "events_ok E" and "ready s k w" and "polite s k G others"
  shows "\<exists>v v' ls r w'. G v v' \<and> w_log v = w_log w @ ls \<and> lev_only ls \<and> w_heap v = w_heap w
    \<and> w_next v = w_next w \<and> sworld.more v = sworld.more w
    \<and> async_event E (ev_loop E k others) s fd EV_READ w = Some (r, w') \<and> ready s k w'
    \<and> w_log w' = w_log v' \<and> w_heap w' = w_heap v' \<and> w_next w' = Suc (w_next v') \<and> sworld.more w' = sworld.more v'
    \<and> (\<forall>j. j \<noteq> k \<longrightarrow> w_fibers v j = w_fibers w j \<and> w_fibers w' j = w_fibers v' j)"
proof -
  let ?g = "\<lambda>x :: operation. x\<lparr>op_type := EVENT, op_ret := Vint 0\<rparr>"
  let ?Q = "\<lambda>v' r u. u = snd (ctx_enter v')"
  have q: "op_event (?g x) = EV_READ" for x by (simp add: op_event_def)
  have p: "\<forall>x v v' ls. G v v' \<and> w_log v = w_log w @ ls \<and> lev_only ls \<and> w_heap v = w_heap w
        \<and> w_next v = w_next w \<and> sworld.more v = sworld.more w \<longrightarrow>
      (\<exists>r u. perform E EV_READ (?g x) (snd (ctx_enter v')) = Some (r, u)
        \<and> world.more u = world.more (snd (ctx_enter v')) \<and> ?Q v' r u)"
    by (simp add: perform_def dispatch_read_def or_ret_def EV_READ_def)
  have e: "async_event E (ev_loop E k others) s fd EV_READ w = (wait_read E s fd w \<bind> suspend (ev_loop E k others) s ?g)"
    by (simp add: async_event_def EV_READ_def EV_WRITE_def)
  from wait_suspend_served [where wait = wait_read and event = EV_READ and g = ?g and Q = ?Q, OF assms _ q p]
  obtain v v' ls r u w' where x: "G v v'" "w_log v = w_log w @ ls" "lev_only ls" "w_heap v = w_heap w"
    "w_next v = w_next w" "sworld.more v = sworld.more w"
    "(wait_read E s fd w \<bind> suspend (ev_loop E k others) s ?g) = Some (r, w')" "ready s k w'" "?Q v' r u"
    "w_log w' = w_log u" "w_heap w' = w_heap u" "w_next w' = w_next u" "sworld.more w' = sworld.more v'"
    "\<forall>j. j \<noteq> k \<longrightarrow> w_fibers v j = w_fibers w j \<and> w_fibers w' j = w_fibers v' j"
    by blast
  then show ?thesis
    unfolding e by (intro exI [of _ v] exI [of _ v'] exI [of _ ls] exI [of _ r] exI [of _ w']) (simp add: ctx_enter_def)
qed

end
