(* ===== verification/Udp.thy ===== *)
theory Udp
  imports Dtls Fiber
begin

text \<open>
  The UDP side of the VPN (\<open>src/udp.c\<close>, \<open>include/udp.h\<close>, \<open>sys/unix/tntsocket.c\<close>): the table of
  peers, forwarding a received packet, broadcasting the frames read from the device, and the
  two fibers that do it. As in the scheduler, \<open>R\<close> is what happens while a fiber sleeps.

  The vectors of peers and of frames carry a generation that changes when an element is added
  or removed. An iterator is a position together with the generation it was obtained in, and
  using it in another generation is undefined.
\<close>

section \<open>State\<close>

record udp =
  u_fd :: int
  u_ctx :: int
  u_recv_fib :: "nat option"
  u_brd_fib :: "nat option"
  u_peers :: "udp_peer list"
  u_gen :: nat
  u_endpoint :: endpoint

record uworld = sworld +
  w_udp :: "udp option"
  w_frames :: "frame list"
  w_fgen :: nat
  w_tap :: int

record uenv = senv +
  e_vframe :: "frame vec_ops"
  e_vpeer :: "udp_peer vec_ops"
  e_cmp :: sockaddr_cmp
  e_bio :: "history \<Rightarrow> int \<times> int"

text \<open>The rest of the program, on the world of this theory.\<close>

type_synonym 'w urun = "'w uworld_scheme \<Rightarrow> 'w uworld_scheme option"

definition MSG_PEEK :: int where "MSG_PEEK = 2"

definition tnt_tcp_socket :: "'e env_scheme \<Rightarrow> u16 \<Rightarrow> 'w world_scheme \<Rightarrow> int \<times> 'w world_scheme" where
  "tnt_tcp_socket E family w =
     (let (sock, w) = call E (Sys (Sys_socket_tcp family)) w in if sock \<noteq> -1 then (sock, w) else (-1, w))"

definition tnt_udp_socket :: "'e env_scheme \<Rightarrow> u16 \<Rightarrow> 'w world_scheme \<Rightarrow> int \<times> 'w world_scheme" where
  "tnt_udp_socket E family w =
     (let (sock, w) = call E (Sys (Sys_socket family)) w in if sock \<noteq> -1 then (sock, w) else (-1, w))"

section \<open>Sending to peers\<close>

definition peer_at :: "nat \<Rightarrow> nat \<Rightarrow> 'w uworld_scheme \<Rightarrow> (udp \<times> udp_peer) option" where
  "peer_at g i w =
     do { u \<leftarrow> w_udp w; if u_gen u = g \<and> i < length (u_peers u) then Some (u, u_peers u ! i) else None }"

text \<open>Sending the packet of a frame to the peer an iterator points to.\<close>

definition send_packet ::
    "'e uenv_scheme \<Rightarrow> 'w urun \<Rightarrow> nat \<Rightarrow> udp \<Rightarrow> frame \<Rightarrow> udp_peer \<Rightarrow> 'w uworld_scheme \<Rightarrow> (val \<times> 'w uworld_scheme) option" where
  "send_packet E R s u f p w =
     async_sendto E R s (u_fd u) (f_raw f) (unat (f_size f) + sizeof_packet_hdr) 0
       (Vsa (endpoint_addr (pe_addr p))) (int (unat (endpoint_addrlen (pe_addr p)))) w"

text \<open>The loop of \<open>forward_udp_frame_to_other_peers\<close>, \<open>n\<close> peers from the \<open>i\<close>-th on.\<close>

fun forward_loop ::
    "'e uenv_scheme \<Rightarrow> 'w urun \<Rightarrow> nat \<Rightarrow> frame \<Rightarrow> endpoint \<Rightarrow> nat \<Rightarrow> nat \<Rightarrow> nat \<Rightarrow> 'w urun" where
  "forward_loop E R s f cur g i 0 w = Some w"
| "forward_loop E R s f cur g i (Suc n) w =
     do { (u, p) \<leftarrow> peer_at g i w;
          if endpoint_cmp (e_cmp E) (pe_addr p) cur = 0 then forward_loop E R s f cur g (Suc i) n w
          else do { (err, w) \<leftarrow> send_packet E R s u f p w;
                    _ \<leftarrow> peer_at g i w;
                    if err = Vint (-1) then Some w else forward_loop E R s f cur g (Suc i) n w } }"

definition forward_udp_frame_to_other_peers ::
    "'e uenv_scheme \<Rightarrow> 'w urun \<Rightarrow> nat \<Rightarrow> frame \<Rightarrow> bytes \<Rightarrow> u32 \<Rightarrow> 'w urun" where
  "forward_udp_frame_to_other_peers E R s f current_sockaddr current_socklen w =
     do { cur \<leftarrow> endpoint_init current_sockaddr current_socklen;
          u \<leftarrow> w_udp w;
          forward_loop E R s f cur (u_gen u) 0 (length (u_peers u)) w }"

section \<open>Peers\<close>

text \<open>The result is the position of the new peer.\<close>

definition udp_register_new_peer ::
    "'e uenv_scheme \<Rightarrow> endpoint \<Rightarrow> int \<Rightarrow> 'w uworld_scheme \<Rightarrow> (nat \<times> 'w uworld_scheme) option" where
  "udp_register_new_peer E remote ssl_flags w =
     do { u \<leftarrow> w_udp w;
          e \<leftarrow> endpoint_copy \<lparr>e_addr = replicate sizeof_storage 0, e_addrlen = 0\<rparr> remote;
          let p = \<lparr>pe_addr = e, pe_bio = 0, pe_bio_backend = 0, pe_ssl = 0, pe_flags = ssl_flags\<rparr>;
          let (p, w) = (if ssl_flags = DTLS_ENABLE
                        then (case dtls_new_peer E (e_bio E) (u_ctx u) p w of (err, p, w) \<Rightarrow> (p, w)) else (p, w));
          let (v, i) = v_insert (e_vpeer E) (u_peers u) p;
          Some (i, w\<lparr>w_udp := Some (u\<lparr>u_peers := v, u_gen := Suc (u_gen u)\<rparr>)\<rparr>) }"

section \<open>Broadcasting\<close>

definition frame_at :: "nat \<Rightarrow> nat \<Rightarrow> 'w uworld_scheme \<Rightarrow> frame option" where
  "frame_at g i w = (if w_fgen w = g \<and> i < length (w_frames w) then Some (w_frames w ! i) else None)"

text \<open>The inner loop of \<open>_broadcast_udp_to_peers\<close>: one frame to \<open>n\<close> peers from the \<open>i\<close>-th on.\<close>

fun broadcast_frame ::
    "'e uenv_scheme \<Rightarrow> 'w urun \<Rightarrow> nat \<Rightarrow> nat \<Rightarrow> nat \<Rightarrow> nat \<Rightarrow> nat \<Rightarrow> nat \<Rightarrow> 'w urun" where
  "broadcast_frame E R s fg j g i 0 w = Some w"
| "broadcast_frame E R s fg j g i (Suc n) w =
     do { f \<leftarrow> frame_at fg j w;
          (u, p) \<leftarrow> peer_at g i w;
          w \<leftarrow> b_store (f_raw f) (packet_hdr (f_size f)) w;
          (err, w) \<leftarrow> send_packet E R s u f p w;
          _ \<leftarrow> peer_at g i w;
          if err = Vint (-1) then Some w
          else do { _ \<leftarrow> frame_at fg j w; broadcast_frame E R s fg j g (Suc i) n w } }"

fun broadcast_frames :: "'e uenv_scheme \<Rightarrow> 'w urun \<Rightarrow> nat \<Rightarrow> nat \<Rightarrow> nat \<Rightarrow> nat \<Rightarrow> 'w urun" where
  "broadcast_frames E R s fg j 0 w = Some w"
| "broadcast_frames E R s fg j (Suc m) w =
     do { u \<leftarrow> w_udp w;
          w \<leftarrow> broadcast_frame E R s fg j (u_gen u) 0 (length (u_peers u)) w;
          broadcast_frames E R s fg (Suc j) m w }"

fun free_frames :: "frame list \<Rightarrow> 'w world_scheme \<Rightarrow> 'w world_scheme option" where
  "free_frames [] w = Some w"
| "free_frames (f # fs) w = do { w \<leftarrow> frame_free f w; free_frames fs w }"

definition broadcast_udp_to_peers_now :: "'e uenv_scheme \<Rightarrow> 'w urun \<Rightarrow> nat \<Rightarrow> 'w urun" where
  "broadcast_udp_to_peers_now E R s w =
     do { w \<leftarrow> broadcast_frames E R s (w_fgen w) 0 (length (w_frames w)) w;
          w \<leftarrow> free_frames (w_frames w) w;
          Some (w\<lparr>w_frames := v_clean (e_vframe E) (w_frames w), w_fgen := Suc (w_fgen w)\<rparr>) }"

text \<open>\<open>n\<close> rounds of the endless loop of the broadcasting fiber.\<close>

fun broadcast_udp :: "'e uenv_scheme \<Rightarrow> 'w urun \<Rightarrow> nat \<Rightarrow> nat \<Rightarrow> 'w urun" where
  "broadcast_udp E R s 0 w = Some w"
| "broadcast_udp E R s (Suc n) w =
     do { (_, w) \<leftarrow> async_yield R s null w;
          w \<leftarrow> broadcast_udp_to_peers_now E R s w;
          broadcast_udp E R s n w }"

definition broadcast_udp_to_peers :: "'e uenv_scheme \<Rightarrow> 'w urun" where
  "broadcast_udp_to_peers E w = do { u \<leftarrow> w_udp w; F \<leftarrow> u_brd_fib u; async_wake E F w }"

section \<open>Receiving\<close>

definition frame_recvfrom ::
    "'e uenv_scheme \<Rightarrow> 'w urun \<Rightarrow> nat \<Rightarrow> int \<Rightarrow> frame \<Rightarrow> val \<Rightarrow> val \<Rightarrow> 'w uworld_scheme
      \<Rightarrow> (val \<times> frame \<times> 'w uworld_scheme) option" where
  "frame_recvfrom E R s fd f saddr socklen w =
     do { let (hdr, w) = b_local E sizeof_packet_hdr w;
          (err, w) \<leftarrow> async_recvfrom E R s fd hdr (int sizeof_packet_hdr) MSG_PEEK saddr socklen w;
          if err = Vint (-1) \<and> w_errno w \<noteq> EMSGSIZE then Some (err, f, w)
          else
            do { h \<leftarrow> b_load hdr sizeof_packet_hdr w;
                 let local_size = ntohs (of_le16 h);
                 let (_, f, w) = frame_alloc E f (ucast local_size) w;
                 (err, w) \<leftarrow> async_recv E R s fd (f_raw f) (unat (f_size f) + sizeof_packet_hdr) 0 w;
                 Some (err, f, w) } }"

text \<open>
  One round of the loop of \<open>server_udp\<close>; the flag is whether the loop ends. \<open>saddr\<close> and
  \<open>socklen\<close> are its local variables.
\<close>

definition server_udp_round ::
    "'e uenv_scheme \<Rightarrow> 'w urun \<Rightarrow> nat \<Rightarrow> int \<Rightarrow> int \<Rightarrow> val \<Rightarrow> val \<Rightarrow> frame \<Rightarrow> 'w uworld_scheme
      \<Rightarrow> (bool \<times> frame \<times> 'w uworld_scheme) option" where
  "server_udp_round E R s udp_fd tap_fd saddr socklen f w =
     do { (err, f, w) \<leftarrow> frame_recvfrom E R s udp_fd f saddr socklen w;
          if err = Vint (-1) then Some (True, f, w)
          else
            do { sa \<leftarrow> b_load saddr sizeof_storage w;
                 sl \<leftarrow> b_load socklen 4 w;
                 e \<leftarrow> endpoint_init sa (of_le32 sl);
                 w \<leftarrow> forward_udp_frame_to_other_peers E R s f (endpoint_addr e) (endpoint_addrlen e) w;
                 (_, w) \<leftarrow> async_write E R s tap_fd (f_frame f) (unat (f_size f)) w;
                 w \<leftarrow> frame_free f w;
                 Some (False, f, w) } }"

text \<open>At most \<open>n\<close> rounds; the flag is whether the fiber has ended.\<close>

fun server_udp_loop ::
    "'e uenv_scheme \<Rightarrow> 'w urun \<Rightarrow> nat \<Rightarrow> int \<Rightarrow> int \<Rightarrow> val \<Rightarrow> val \<Rightarrow> nat \<Rightarrow> frame \<Rightarrow> 'w uworld_scheme
      \<Rightarrow> (bool \<times> 'w uworld_scheme) option" where
  "server_udp_loop E R s udp_fd tap_fd saddr socklen 0 f w = Some (False, w)"
| "server_udp_loop E R s udp_fd tap_fd saddr socklen (Suc n) f w =
     do { (stop, f, w) \<leftarrow> server_udp_round E R s udp_fd tap_fd saddr socklen f w;
          if stop then do { w \<leftarrow> sched_fiber_exit E (\<lambda>_ _ _. Some) s 1 w; Some (True, w) }
          else server_udp_loop E R s udp_fd tap_fd saddr socklen n f w }"

definition server_udp ::
    "'e uenv_scheme \<Rightarrow> 'w urun \<Rightarrow> nat \<Rightarrow> nat \<Rightarrow> 'w uworld_scheme \<Rightarrow> (bool \<times> 'w uworld_scheme) option" where
  "server_udp E R s n w =
     do { u \<leftarrow> w_udp w;
          let (saddr, w) = b_local E sizeof_storage w;
          let (socklen, w) = b_local E 4 w;
          w \<leftarrow> b_store socklen (le32 (word_of_nat sizeof_storage)) w;
          server_udp_loop E R s (u_fd u) (w_tap w) saddr socklen n \<lparr>f_size = 0, f_frame = null, f_raw = null\<rparr> w }"

section \<open>Starting and stopping\<close>

definition udp_peer_free :: "'e env_scheme \<Rightarrow> udp_peer \<Rightarrow> 'w world_scheme \<Rightarrow> 'w world_scheme" where
  "udp_peer_free E p w =
     (let w = (if pe_bio_backend p \<noteq> 0 then call0 E (Tls (Bio_free (pe_bio_backend p))) w else w);
          w = (if pe_bio p \<noteq> 0 then call0 E (Tls (Bio_free (pe_bio p))) w else w)
      in if pe_ssl p \<noteq> 0 then call0 E (Tls (Ssl_free (pe_ssl p))) w else w)"

definition server_udp_exit :: "'e uenv_scheme \<Rightarrow> 'w urun" where
  "server_udp_exit E w =
     do { u \<leftarrow> w_udp w;
          let w = call0 E (Sys (Sys_close (u_fd u))) w;
          let w = call0 E (Tls (Ctx_free (u_ctx u))) w;
          let w = fold (udp_peer_free E) (u_peers u) w;
          b \<leftarrow> u_brd_fib u;
          w \<leftarrow> sched_fiber_delete b w;
          r \<leftarrow> u_recv_fib u;
          sched_fiber_delete r w }"

definition no_udp :: udp where
  "no_udp = \<lparr>u_fd = 0, u_ctx = 0, u_recv_fib = None, u_brd_fib = None, u_peers = [], u_gen = 0,
     u_endpoint = \<lparr>e_addr = replicate sizeof_storage 0, e_addrlen = 0\<rparr>\<rparr>"

text \<open>
  \<open>tmp_endpoint\<close> is not initialised before the copy. \<open>userptr\<close> stands for the pointer to the
  server given to the fibers.
\<close>

definition server_udp_init ::
    "'e uenv_scheme \<Rightarrow> options \<Rightarrow> val \<Rightarrow> udp \<Rightarrow> endpoint \<Rightarrow> 'w uworld_scheme \<Rightarrow> (int \<times> udp \<times> 'w uworld_scheme) option" where
  "server_udp_init E opts userptr udp e w =
     do { let (sock, w) = tnt_udp_socket E (ss_family (endpoint_addr e)) w;
          tmp \<leftarrow> endpoint_copy \<lparr>e_addr = block_junk E (w_next w) sizeof_storage, e_addrlen = 0\<rparr> e;
          if sock = -1 then Some (-1, udp, w)
          else
            do { let tmp = endpoint_set_port tmp 0;
                 let (err, w) = call E (Sys (Sys_bind sock (take (unat (e_addrlen tmp)) (endpoint_addr tmp)))) w;
                 if err = -1 then Some (-1, udp, w)
                 else
                   do { let name = e_adr E (w_log w) (Sys (Sys_getsockname sock));
                        let (ok, w) = call E (Sys (Sys_getsockname sock)) w;
                        let tmp = endpoint_assign_sockname (if ok = -1 then None else Some name) tmp;
                        let (err, w) = call E (Sys (Sys_nonblock sock)) w;
                        if err = -1 then Some (-1, udp, w)
                        else
                          do { ue \<leftarrow> endpoint_copy (u_endpoint udp) tmp;
                               (recv, w) \<leftarrow> sched_new_fiber E userptr w;
                               (brd, w) \<leftarrow> sched_new_fiber E userptr w;
                               let (ctx, w) = create_udp_ctx E opts w;
                               Some (0, udp\<lparr>u_endpoint := ue, u_fd := sock, u_peers := [],
                                 u_recv_fib := map_option fst recv, u_brd_fib := map_option fst brd,
                                 u_ctx := ctx\<rparr>, w) } } } }"

definition launch_opt :: "(nat \<Rightarrow> 'w run) \<Rightarrow> nat option \<Rightarrow> 'w run" where
  "launch_opt co F w = (case F of None \<Rightarrow> Some w | Some k \<Rightarrow> sched_fiber_launch (co k) k w)"

definition server_udp_launch :: "(nat \<Rightarrow> 'w urun) \<Rightarrow> 'w urun" where
  "server_udp_launch co w =
     do { u \<leftarrow> w_udp w;
          w \<leftarrow> launch_opt co (u_brd_fib u) w;
          u \<leftarrow> w_udp w;
          launch_opt co (u_recv_fib u) w }"

definition server_udp_new ::
    "'e uenv_scheme \<Rightarrow> options \<Rightarrow> val \<Rightarrow> endpoint \<Rightarrow> 'w uworld_scheme \<Rightarrow> (udp option \<times> 'w uworld_scheme) option" where
  "server_udp_new E opts userptr e w =
     (case o_new E w of
        (None, w) \<Rightarrow> Some (None, w)
      | (Some _, w) \<Rightarrow>
          do { (err, udp, w) \<leftarrow> server_udp_init E opts userptr no_udp e w;
               if err = -1 then Some (None, w) else Some (Some udp, w) })"

definition udp_get_port :: "udp \<Rightarrow> u16 option" where
  "udp_get_port udp = map_option word_of_int (endpoint_port (u_endpoint udp))"

end
