(* ===== verification/Udp_Send.thy ===== *)
theory Udp_Send
  imports Udp
begin

text \<open>
  What the UDP fibers send: the packets that leave through a socket, what the fibers rely on
  while they sleep, forwarding and broadcasting, and registering peers.
\<close>

section \<open>Sending\<close>

text \<open>The packets that left through a descriptor, with the results of the calls.\<close>

fun is_send :: "int \<Rightarrow> xcall \<Rightarrow> bool" where
  "is_send fd (Sys (Sys_send x d fl)) = (x = fd)"
| "is_send fd (Sys (Sys_sendto x d fl a)) = (x = fd)"
| "is_send fd c = False"

definition sends :: "int \<Rightarrow> history \<Rightarrow> history" where
  "sends fd h = filter (\<lambda>x. is_send fd (fst x)) h"

lemma sends_append [simp]: "sends fd (g @ h) = sends fd g @ sends fd h"
  by (simp add: sends_def)

lemma sends_lev [simp]: "lev_only h \<Longrightarrow> sends fd h = []"
  by (auto simp: sends_def lev_only_def filter_empty_conv)

lemma sends_one [simp]: "sends fd [(c, r)] = (if is_send fd c then [(c, r)] else [])"
  by (simp add: sends_def)

text \<open>
  What the UDP fibers rely on while they sleep: the peers, the queue of frames and the live
  blocks among \<open>B\<close> stay as they are, and nobody else sends on the socket.
\<close>

definition calm :: "int \<Rightarrow> nat set \<Rightarrow> 'w uworld_scheme \<Rightarrow> 'w uworld_scheme \<Rightarrow> bool" where
  "calm fd B w w' \<longleftrightarrow> w_udp w' = w_udp w \<and> w_frames w' = w_frames w \<and> w_fgen w' = w_fgen w
     \<and> (\<forall>b \<in> B. w_heap w b \<noteq> None \<longrightarrow> w_heap w' b = w_heap w b) \<and> w_next w \<le> w_next w'
     \<and> sends fd (w_log w') = sends fd (w_log w)"

lemma calm_refl [simp]: "calm fd B w w"
  by (simp add: calm_def)

lemma smore_uworld:
  assumes "sworld.more (w' :: 'w uworld_scheme) = sworld.more w"
  shows "w_udp w' = w_udp w" "w_frames w' = w_frames w" "w_fgen w' = w_fgen w" "w_tap w' = w_tap w"
  using assms by (cases w; cases w'; simp)+

text \<open>The world after one packet: nothing but the log and the sleeping fiber has changed.\<close>

lemma send_packet_served:
  assumes "events_ok E" and "ready s k w" and "polite s k (calm fd B) others"
    and "u_fd u = fd" and "f_raw f = Vptr b 0" and "b \<in> B" and "w_heap w b = Some blk" and "unat (f_size f) + 2 \<le> length blk"
  shows "\<exists>r w'. send_packet E (ev_loop E k others) s u f p w = Some (Vint r, w') \<and> ready s k w'
    \<and> w_udp w' = w_udp w \<and> w_frames w' = w_frames w \<and> w_fgen w' = w_fgen w
    \<and> w_next w \<le> w_next w' \<and> (\<forall>b \<in> B. w_heap w b \<noteq> None \<longrightarrow> w_heap w' b = w_heap w b)
    \<and> sends fd (w_log w') = sends fd (w_log w) @ [(Sys (Sys_send fd (take (unat (f_size f) + 2) blk) 0), r)]"
proof -
  let ?d = "take (unat (f_size f) + 2) blk"
  have "\<forall>v v'. calm fd B v v' \<and> w_heap v = w_heap w \<and> sworld.more v = sworld.more w \<longrightarrow>
      b_load (Vptr b 0) (unat (f_size f) + 2) v' = Some ?d"
    using assms(6-8) by (auto simp: calm_def b_load_def mem_read_def)
  from async_sendto_served [OF assms(1-3) this, of fd 0 "Vsa (endpoint_addr (pe_addr p))"
      "int (unat (endpoint_addrlen (pe_addr p)))"]
  obtain v v' ls r w' where x: "calm fd B v v'" "w_log v = w_log w @ ls" "lev_only ls" "w_heap v = w_heap w"
    "w_next v = w_next w" "sworld.more v = sworld.more w"
    "send_packet E (ev_loop E k others) s u f p w = Some (Vint r, w')" "ready s k w'"
    "w_log w' = w_log v' @ [(Sys (Sys_send fd ?d 0), r)]" "w_heap w' = w_heap v'" "w_next w' = Suc (w_next v')"
    "sworld.more w' = sworld.more v'"
    unfolding send_packet_def assms(4,5) sizeof_packet_hdr_def by blast
  then show ?thesis
    using smore_uworld [OF x(6)] smore_uworld [OF x(12)] by (auto simp: calm_def)
qed

text \<open>
  \<open>S\<close> are the calls of a loop that sends the packet \<open>c\<close> to \<open>n\<close> peers and gives up at the first
  error.
\<close>

definition sent_until_error :: "xcall \<Rightarrow> nat \<Rightarrow> history \<Rightarrow> bool" where
  "sent_until_error c n S \<longleftrightarrow> map fst S = replicate (length S) c \<and> length S \<le> n
     \<and> (\<forall>x \<in> set (butlast S). snd x \<noteq> -1) \<and> (length S < n \<longrightarrow> S \<noteq> [] \<and> snd (last S) = -1)"

lemma sent_until_error_simps [simp]:
  "sent_until_error c 0 []" "sent_until_error c (Suc n) [(c, -1)]"
  "r \<noteq> -1 \<Longrightarrow> sent_until_error c n S \<Longrightarrow> sent_until_error c (Suc n) ((c, r) # S)"
  by (auto simp: sent_until_error_def)

lemma forward_loop_served:
  assumes "events_ok E" and "polite s k (calm fd B) others" and "f_raw f = Vptr b 0" and "b \<in> B" and "w_udp w = Some u"
    and "u_fd u = fd" and "ready s k w" and "w_heap w b = Some blk" and "unat (f_size f) + 2 \<le> length blk"
    and "i + n = length (u_peers u)"
  shows "\<exists>w' S. forward_loop E (ev_loop E k others) s f cur (u_gen u) i n w = Some w' \<and> ready s k w'
    \<and> w_udp w' = w_udp w \<and> w_frames w' = w_frames w \<and> w_fgen w' = w_fgen w
    \<and> w_next w \<le> w_next w' \<and> (\<forall>b \<in> B. w_heap w b \<noteq> None \<longrightarrow> w_heap w' b = w_heap w b) \<and> sends fd (w_log w') = sends fd (w_log w) @ S
    \<and> sent_until_error (Sys (Sys_send fd (take (unat (f_size f) + 2) blk) 0))
        (length (filter (\<lambda>p. endpoint_cmp (e_cmp E) (pe_addr p) cur \<noteq> 0) (drop i (u_peers u)))) S"
  using assms
proof (induction n arbitrary: i w)
  case 0
  then show ?case by (intro exI [of _ w] exI [of _ "[]"]) simp
next
  case (Suc n)
  let ?p = "u_peers u ! i"
  have at: "peer_at (u_gen u) i w = Some (u, ?p)" and d: "drop i (u_peers u) = ?p # drop (Suc i) (u_peers u)"
    using Suc.prems by (simp_all add: peer_at_def Cons_nth_drop_Suc)
  show ?case
  proof (cases "endpoint_cmp (e_cmp E) (pe_addr ?p) cur = 0")
    case True
    then show ?thesis using Suc.IH [OF Suc.prems(1-9), of "Suc i"] Suc.prems(10) at d by simp
  next
    case False
    from send_packet_served [OF Suc.prems(1,7,2,6,3,4,8,9), of ?p]
    obtain r w1 where w1: "send_packet E (ev_loop E k others) s u f ?p w = Some (Vint r, w1)" "ready s k w1"
      "w_udp w1 = w_udp w" "w_frames w1 = w_frames w" "w_fgen w1 = w_fgen w" "w_next w \<le> w_next w1" "\<forall>b \<in> B. w_heap w b \<noteq> None \<longrightarrow> w_heap w1 b = w_heap w b"
      "sends fd (w_log w1) = sends fd (w_log w) @ [(Sys (Sys_send fd (take (unat (f_size f) + 2) blk) 0), r)]" by blast
    have at1: "peer_at (u_gen u) i w1 = Some (u, ?p)" using at w1(3) by (simp add: peer_at_def)
    show ?thesis
    proof (cases "r = -1")
      case True
      then show ?thesis using w1 at at1 d False by simp
    next
      case nz: False
      have "w_udp w1 = Some u" "w_heap w1 b = Some blk" "Suc i + n = length (u_peers u)"
        using w1 Suc.prems by simp_all
      from Suc.IH [OF Suc.prems(1-4) this(1) Suc.prems(6) w1(2) this(2) Suc.prems(9) this(3)]
      obtain w' S where w': "forward_loop E (ev_loop E k others) s f cur (u_gen u) (Suc i) n w1 = Some w'" "ready s k w'"
        "w_udp w' = w_udp w1" "w_frames w' = w_frames w1" "w_fgen w' = w_fgen w1" "w_next w1 \<le> w_next w'"
        "\<forall>b \<in> B. w_heap w1 b \<noteq> None \<longrightarrow> w_heap w' b = w_heap w1 b" "sends fd (w_log w') = sends fd (w_log w1) @ S"
        "sent_until_error (Sys (Sys_send fd (take (unat (f_size f) + 2) blk) 0))
          (length (filter (\<lambda>p. endpoint_cmp (e_cmp E) (pe_addr p) cur \<noteq> 0) (drop (Suc i) (u_peers u)))) S"
        by blast
      then show ?thesis using w1 at at1 d False nz
        by (intro exI [of _ w'] exI [of _ "(Sys (Sys_send fd (take (unat (f_size f) + 2) blk) 0), r) # S"]) simp
    qed
  qed
qed

lemma forward_served:
  assumes "events_ok E" and "ready s k w" and "polite s k (calm (u_fd u) B) others" and "w_udp w = Some u"
    and "f_raw f = Vptr b 0" and "b \<in> B" and "w_heap w b = Some blk" and "unat (f_size f) + 2 \<le> length blk"
    and "endpoint_init sa sl = Some cur"
  shows "\<exists>w' S. forward_udp_frame_to_other_peers E (ev_loop E k others) s f sa sl w = Some w'
    \<and> sends (u_fd u) (w_log w') = sends (u_fd u) (w_log w) @ S
    \<and> sent_until_error (Sys (Sys_send (u_fd u) (take (unat (f_size f) + 2) blk) 0))
        (length (filter (\<lambda>p. endpoint_cmp (e_cmp E) (pe_addr p) cur \<noteq> 0) (u_peers u))) S
    \<and> w_udp w' = w_udp w \<and> w_next w \<le> w_next w' \<and> (\<forall>x \<in> B. w_heap w x \<noteq> None \<longrightarrow> w_heap w' x = w_heap w x)
    \<and> ready s k w'"
  using forward_loop_served [OF assms(1,3,5,6,4) refl assms(2,7,8), of 0 "length (u_peers u)" cur] assms(4,9)
  by (auto simp: forward_udp_frame_to_other_peers_def)

text \<open>
  Claim C18. Forwarding: a packet received from one peer is sent once for every peer with
  another address, in the order of the table, and never for the sender, until a send fails;
  each of these packets is the header and the frame as received. Peers, queue and the frame
  are unchanged. The number of packets is right, but not their destination: every one is a
  \<open>send\<close> without an address.
\<close>

theorem forward_to_others:
  assumes "events_ok E" and "ready s k w" and "polite s k (calm (u_fd u) {b}) others" and "w_udp w = Some u"
    and "f_raw f = Vptr b 0" and "w_heap w b = Some blk" and "unat (f_size f) + 2 \<le> length blk"
    and "endpoint_init sa sl = Some cur"
  shows "\<exists>w' S. forward_udp_frame_to_other_peers E (ev_loop E k others) s f sa sl w = Some w'
    \<and> sends (u_fd u) (w_log w') = sends (u_fd u) (w_log w) @ S
    \<and> sent_until_error (Sys (Sys_send (u_fd u) (take (unat (f_size f) + 2) blk) 0))
        (length (filter (\<lambda>p. endpoint_cmp (e_cmp E) (pe_addr p) cur \<noteq> 0) (u_peers u))) S
    \<and> w_udp w' = w_udp w \<and> w_heap w' b = w_heap w b \<and> ready s k w'"
  using forward_served [OF assms(1-5) _ assms(6-8)] assms(6) by auto

section \<open>Broadcasting the queue\<close>

definition blocks :: "frame list \<Rightarrow> nat set" where
  "blocks fs = {b. Vptr b 0 \<in> f_raw ` set fs}"

text \<open>The queue: every frame has a live block of its own.\<close>

definition queue_ok :: "'w world_scheme \<Rightarrow> frame list \<Rightarrow> bool" where
  "queue_ok w fs \<longleftrightarrow> (\<forall>f \<in> set fs. frame_ok w f) \<and> distinct (map f_raw fs)"

text \<open>The payload of a frame and the call that sends it.\<close>

definition payload :: "'w world_scheme \<Rightarrow> frame \<Rightarrow> bytes option" where
  "payload w f = b_load (f_frame f) (unat (f_size f)) w"

definition send_call :: "int \<Rightarrow> u16 \<Rightarrow> bytes \<Rightarrow> xcall" where
  "send_call fd sz d = Sys (Sys_send fd (packet_hdr sz @ d) 0)"

lemma frame_ok_payload:
  assumes "frame_ok w f"
  obtains b blk where "f_raw f = Vptr b 0" "w_heap w b = Some blk" "unat (f_size f) + 2 \<le> length blk"
    "payload w f = Some (take (unat (f_size f)) (drop 2 blk))"
  using assms by (auto simp: frame_ok_def payload_def b_load_def mem_read_def sizeof_packet_hdr_def)

lemma broadcast_frame_served:
  assumes "events_ok E" and "polite s k (calm fd B) others" and "w_udp w = Some u" and "u_fd u = fd"
    and "frame_at fg j w = Some f" and "f_raw f = Vptr b 0" and "b \<in> B"
    and "ready s k w" and "w_heap w b = Some blk" and "unat (f_size f) + 2 \<le> length blk" and "drop 2 blk = R"
    and "i + n = length (u_peers u)"
  shows "\<exists>w' S blk'. broadcast_frame E (ev_loop E k others) s fg j (u_gen u) i n w = Some w' \<and> ready s k w'
    \<and> w_udp w' = w_udp w \<and> w_frames w' = w_frames w \<and> w_fgen w' = w_fgen w
    \<and> (\<forall>x \<in> B - {b}. w_heap w x \<noteq> None \<longrightarrow> w_heap w' x = w_heap w x) \<and> w_heap w' b = Some blk' \<and> drop 2 blk' = R \<and> length blk' = length blk
    \<and> sends fd (w_log w') = sends fd (w_log w) @ S
    \<and> sent_until_error (send_call fd (f_size f) (take (unat (f_size f)) R)) n S"
  using assms
proof (induction n arbitrary: i w blk)
  case 0
  then show ?case by (intro exI [of _ w] exI [of _ "[]"] exI [of _ blk]) simp
next
  case (Suc n)
  let ?p = "u_peers u ! i" and ?h = "packet_hdr (f_size f)"
  let ?blk = "?h @ R"
  let ?w0 = "w\<lparr>w_heap := (w_heap w)(b \<mapsto> ?blk)\<rparr>"
  have at: "peer_at (u_gen u) i w = Some (u, ?p)" using Suc.prems by (simp add: peer_at_def)
  have st: "b_store (f_raw f) ?h w = Some ?w0"
    using b_store_at [of w b blk ?h] Suc.prems by (auto simp: put_bytes_def)
  have r0: "ready s k ?w0" using Suc.prems(8) by (simp add: ready_def fib_of_def origin_valid_def)
  have len: "length ?blk = length blk" "unat (f_size f) + 2 \<le> length ?blk"
    "take (unat (f_size f) + 2) ?blk = ?h @ take (unat (f_size f)) R" "drop 2 ?blk = R"
    using Suc.prems(10,11) by auto
  from send_packet_served [OF Suc.prems(1) r0 Suc.prems(2,4,6,7) _ len(2), of ?p]
  obtain r w1 where w1: "send_packet E (ev_loop E k others) s u f ?p ?w0 = Some (Vint r, w1)" "ready s k w1"
    "w_udp w1 = w_udp w" "w_frames w1 = w_frames w" "w_fgen w1 = w_fgen w" "\<forall>x \<in> B. w_heap ?w0 x \<noteq> None \<longrightarrow> w_heap w1 x = w_heap ?w0 x"
    "sends fd (w_log w1) = sends fd (w_log w) @ [(send_call fd (f_size f) (take (unat (f_size f)) R), r)]"
    unfolding len(3) send_call_def by auto
  have at1: "peer_at (u_gen u) i w1 = Some (u, ?p)" "frame_at fg j w1 = Some f" "w_heap w1 b = Some ?blk"
    using at w1(3-6) Suc.prems(5,7) by (simp_all add: peer_at_def frame_at_def split: if_splits)
  show ?case
  proof (cases "r = -1")
    case True
    then show ?thesis using w1 at at1 st len(1,4) Suc.prems(5)
      by (intro exI [of _ w1] exI [of _ "[(send_call fd (f_size f) (take (unat (f_size f)) R), r)]"] exI [of _ ?blk])
        (simp add: sent_until_error_simps)
  next
    case False
    have "w_udp w1 = Some u" "Suc i + n = length (u_peers u)"
      using w1 Suc.prems by simp_all
    from Suc.IH [OF Suc.prems(1,2) this(1) Suc.prems(4) at1(2) Suc.prems(6,7) w1(2) at1(3) len(2,4) this(2)]
    obtain w' S blk' where w': "broadcast_frame E (ev_loop E k others) s fg j (u_gen u) (Suc i) n w1 = Some w'" "ready s k w'"
      "w_udp w' = w_udp w1" "w_frames w' = w_frames w1" "w_fgen w' = w_fgen w1"
      "\<forall>x \<in> B - {b}. w_heap w1 x \<noteq> None \<longrightarrow> w_heap w' x = w_heap w1 x" "w_heap w' b = Some blk'" "drop 2 blk' = R" "length blk' = length ?blk"
      "sends fd (w_log w') = sends fd (w_log w1) @ S"
      "sent_until_error (send_call fd (f_size f) (take (unat (f_size f)) R)) n S" by blast
    then show ?thesis using w1 at at1 st len(1) Suc.prems(5) False
      by (intro exI [of _ w'] exI [of _ "(send_call fd (f_size f) (take (unat (f_size f)) R), r) # S"] exI [of _ blk'])
        (simp add: sent_until_error_simps)
  qed
qed

lemma frame_ok_cong:
  assumes "frame_ok w f" and "f_raw f = Vptr b 0" and "w_heap w' b = Some blk'" and "w_heap w b = Some blk"
    and "length blk' = length blk" and "drop 2 blk' = drop 2 blk"
  shows "frame_ok w' f" "payload w' f = payload w f"
  using assms by (auto simp: frame_ok_def payload_def b_load_def mem_read_def sizeof_packet_hdr_def)

lemma queue_ok_cong:
  assumes "queue_ok w fs" and "\<And>b blk. b \<in> blocks fs \<Longrightarrow> w_heap w b = Some blk \<Longrightarrow>
      \<exists>blk'. w_heap w' b = Some blk' \<and> length blk' = length blk \<and> drop 2 blk' = drop 2 blk"
  shows "queue_ok w' fs" "f \<in> set fs \<Longrightarrow> payload w' f = payload w f"
proof -
  have *: "frame_ok w' f \<and> payload w' f = payload w f" if f: "f \<in> set fs" for f
  proof -
    have ok: "frame_ok w f" using assms(1) f by (simp add: queue_ok_def)
    then obtain b blk where b: "f_raw f = Vptr b 0" "w_heap w b = Some blk" by (rule frame_ok_payload)
    then have "b \<in> blocks fs" using f by (force simp: blocks_def)
    with assms(2) b obtain blk' where "w_heap w' b = Some blk'" "length blk' = length blk" "drop 2 blk' = drop 2 blk"
      by blast
    with frame_ok_cong [OF ok b(1) _ b(2)] show ?thesis by blast
  qed
  then show "queue_ok w' fs" "f \<in> set fs \<Longrightarrow> payload w' f = payload w f"
    using assms(1) by (auto simp: queue_ok_def)
qed

lemma broadcast_frames_served:
  assumes "events_ok E" and "polite s k (calm fd (blocks fs)) others" and "w_udp w = Some u" and "u_fd u = fd"
    and "w_frames w = fs" and "w_fgen w = fg" and "ready s k w" and "queue_ok w fs" and "j + m = length fs"
  shows "\<exists>w' Ss. broadcast_frames E (ev_loop E k others) s fg j m w = Some w' \<and> ready s k w'
    \<and> w_udp w' = w_udp w \<and> w_frames w' = fs \<and> w_fgen w' = fg \<and> queue_ok w' fs
    \<and> sends fd (w_log w') = sends fd (w_log w) @ concat Ss
    \<and> list_all2 (\<lambda>f S. \<exists>d. payload w f = Some d \<and> sent_until_error (send_call fd (f_size f) d) (length (u_peers u)) S)
        (drop j fs) Ss"
  using assms
proof (induction m arbitrary: j w)
  case 0
  then show ?case by (intro exI [of _ w] exI [of _ "[]"]) simp
next
  case (Suc m)
  let ?f = "fs ! j"
  have j: "j < length fs" "drop j fs = ?f # drop (Suc j) fs" using Suc.prems(9) by (simp_all add: Cons_nth_drop_Suc)
  have ok: "frame_ok w ?f" using Suc.prems(8) j by (simp add: queue_ok_def)
  then obtain b blk where b: "f_raw ?f = Vptr b 0" "w_heap w b = Some blk" "unat (f_size ?f) + 2 \<le> length blk"
    "payload w ?f = Some (take (unat (f_size ?f)) (drop 2 blk))" by (rule frame_ok_payload)
  have at: "frame_at fg j w = Some ?f" using Suc.prems(5,6) j by (simp add: frame_at_def)
  have bB: "b \<in> blocks fs" using b(1) j(1) nth_mem by (force simp: blocks_def)
  from broadcast_frame_served [OF Suc.prems(1-4) at b(1) bB Suc.prems(7) b(2,3) refl, of 0 "length (u_peers u)"]
  obtain w1 S blk' where w1: "broadcast_frame E (ev_loop E k others) s fg j (u_gen u) 0 (length (u_peers u)) w = Some w1"
    "ready s k w1" "w_udp w1 = w_udp w" "w_frames w1 = w_frames w" "w_fgen w1 = w_fgen w"
    "\<forall>x \<in> blocks fs - {b}. w_heap w x \<noteq> None \<longrightarrow> w_heap w1 x = w_heap w x" "w_heap w1 b = Some blk'" "drop 2 blk' = drop 2 blk"
    "length blk' = length blk" "sends fd (w_log w1) = sends fd (w_log w) @ S"
    "sent_until_error (send_call fd (f_size ?f) (take (unat (f_size ?f)) (drop 2 blk))) (length (u_peers u)) S"
    by auto
  have "\<exists>blk'. w_heap w1 x = Some blk' \<and> length blk' = length blk0 \<and> drop 2 blk' = drop 2 blk0"
    if "x \<in> blocks fs" "w_heap w x = Some blk0" for x blk0
    using that w1(6-9) b(2) by (cases "x = b") auto
  note q = queue_ok_cong [OF Suc.prems(8) this]
  have *: "w_udp w1 = Some u" "w_frames w1 = fs" "w_fgen w1 = fg" "Suc j + m = length fs"
    using w1 Suc.prems by simp_all
  from Suc.IH [OF Suc.prems(1,2) *(1) Suc.prems(4) *(2,3) w1(2) q(1) *(4)]
  obtain w' Ss where w': "broadcast_frames E (ev_loop E k others) s fg (Suc j) m w1 = Some w'" "ready s k w'"
    "w_udp w' = w_udp w1" "w_frames w' = fs" "w_fgen w' = fg" "queue_ok w' fs"
    "sends fd (w_log w') = sends fd (w_log w1) @ concat Ss"
    "list_all2 (\<lambda>f S. \<exists>d. payload w1 f = Some d \<and> sent_until_error (send_call fd (f_size f) d) (length (u_peers u)) S)
        (drop (Suc j) fs) Ss" by blast
  have "list_all2 (\<lambda>f S. \<exists>d. payload w f = Some d \<and> sent_until_error (send_call fd (f_size f) d) (length (u_peers u)) S)
        (drop (Suc j) fs) Ss"
    using w'(8) by (rule list.rel_mono_strong) (use q(2) in \<open>auto dest: in_set_dropD\<close>)
  with w' w1 b(4) j(2) Suc.prems(3) show ?case
    by (intro exI [of _ w'] exI [of _ "S # Ss"]) simp
qed

lemma free_frames_ok:
  assumes "queue_ok w fs"
  shows "\<exists>w'. free_frames fs w = Some w' \<and> w' = w\<lparr>w_heap := (\<lambda>b. if b \<in> blocks fs then None else w_heap w b)\<rparr>"
  using assms
proof (induction fs arbitrary: w)
  case Nil
  then show ?case by (simp add: blocks_def)
next
  case (Cons f fs)
  have "frame_ok w f" using Cons.prems by (simp add: queue_ok_def)
  then obtain b blk where b: "f_raw f = Vptr b 0" "w_heap w b = Some blk" by (rule frame_ok_payload)
  let ?w1 = "w\<lparr>w_heap := (w_heap w)(b := None)\<rparr>"
  have f1: "frame_free f w = Some ?w1" using b by (simp add: frame_free_def b_free_def)
  have nb: "b \<notin> blocks fs" using Cons.prems b by (auto simp: queue_ok_def blocks_def)
  have q0: "queue_ok w fs" using Cons.prems by (simp add: queue_ok_def)
  have "queue_ok ?w1 fs" by (rule queue_ok_cong(1) [OF q0]) (use nb in auto)
  from Cons.IH [OF this] f1 b nb show ?case
    by (auto simp: blocks_def fun_eq_iff intro!: arg_cong [where f = "\<lambda>h. w\<lparr>w_heap := h\<rparr>"])
qed

lemma broadcast_now_served:
  assumes "events_ok E" and "vec_ok (e_vframe E)" and "ready s k w" and "w_udp w = Some u"
    and "polite s k (calm (u_fd u) (blocks (w_frames w))) others" and "queue_ok w (w_frames w)"
  shows "\<exists>w' Ss. broadcast_udp_to_peers_now E (ev_loop E k others) s w = Some w'
    \<and> sends (u_fd u) (w_log w') = sends (u_fd u) (w_log w) @ concat Ss
    \<and> list_all2 (\<lambda>f S. \<exists>d. payload w f = Some d
         \<and> sent_until_error (send_call (u_fd u) (f_size f) d) (length (u_peers u)) S) (w_frames w) Ss
    \<and> w_frames w' = [] \<and> (\<forall>b \<in> blocks (w_frames w). w_heap w' b = None) \<and> w_udp w' = Some u \<and> ready s k w'"
proof -
  let ?fs = "w_frames w" and ?fd = "u_fd u"
  from broadcast_frames_served [OF assms(1,5,4) refl refl refl assms(3,6), of 0 "length ?fs"]
  obtain w1 Ss where w1: "broadcast_frames E (ev_loop E k others) s (w_fgen w) 0 (length ?fs) w = Some w1"
    "ready s k w1" "w_udp w1 = w_udp w" "w_frames w1 = ?fs" "queue_ok w1 ?fs"
    "sends ?fd (w_log w1) = sends ?fd (w_log w) @ concat Ss"
    "list_all2 (\<lambda>f S. \<exists>d. payload w f = Some d \<and> sent_until_error (send_call ?fd (f_size f) d) (length (u_peers u)) S) ?fs Ss"
    by auto
  let ?w2 = "w1\<lparr>w_heap := (\<lambda>b. if b \<in> blocks ?fs then None else w_heap w1 b)\<rparr>"
  have "free_frames ?fs w1 = Some ?w2" using free_frames_ok [OF w1(5)] by blast
  moreover have "ready s k (w1\<lparr>w_heap := h, w_frames := [], w_fgen := g\<rparr>)" for h g
    using w1(2) by (simp add: ready_def fib_of_def origin_valid_def)
  ultimately show ?thesis
    using w1 assms(4) by (simp add: broadcast_udp_to_peers_now_def vec_clean [OF assms(2)]) blast
qed


section \<open>Registering peers\<close>

lemma logs_udp: "logs w w' \<Longrightarrow> logs (w\<lparr>w_udp := u\<rparr>) (w'\<lparr>w_udp := u\<rparr>)"
  by (cases w; cases w') (simp add: logs_def)

lemma udp_register_ok:
  assumes "vec_ok (e_vpeer E)" and "sockaddr_cmp_ok (e_cmp E)" and "ep_ok remote" and "w_udp w = Some u"
  shows "\<exists>i w' u' p. udp_register_new_peer E remote flags w = Some (i, w') \<and> w_udp w' = Some u'
    \<and> mset (u_peers u') = add_mset p (mset (u_peers u)) \<and> i < length (u_peers u') \<and> u_peers u' ! i = p
    \<and> endpoint_cmp (e_cmp E) (pe_addr p) remote = 0 \<and> ep_ok (pe_addr p)
    \<and> sa_key (e_addr (pe_addr p)) = sa_key (e_addr remote) \<and> pe_flags p = flags
    \<and> u_fd u' = u_fd u \<and> u_endpoint u' = u_endpoint u \<and> logs (w\<lparr>w_udp := Some u'\<rparr>) w'
    \<and> (flags \<noteq> DTLS_ENABLE \<longrightarrow> pe_ssl p = 0 \<and> w_log w' = w_log w)"
proof -
  let ?z = "\<lparr>e_addr = replicate sizeof_storage 0, e_addrlen = 0\<rparr>"
  obtain e where e: "endpoint_copy ?z remote = Some e" "ep_ok e" "sa_key (e_addr e) = sa_key (e_addr remote)"
    using endpoint_copy_ok [OF assms(3), of ?z] by auto
  have c: "endpoint_cmp (e_cmp E) e remote = 0"
    using endpoint_cmp_ok [OF assms(2) e(2) assms(3)] e(3) by simp
  let ?p = "\<lparr>pe_addr = e, pe_bio = 0, pe_bio_backend = 0, pe_ssl = 0, pe_flags = flags\<rparr>"
  obtain err p w1 where d: "dtls_new_peer E (e_bio E) (u_ctx u) ?p w = (err, p, w1)"
    by (cases "dtls_new_peer E (e_bio E) (u_ctx u) ?p w") auto
  let ?q = "if flags = DTLS_ENABLE then p else ?p" and ?w = "if flags = DTLS_ENABLE then w1 else w"
  obtain v i where vi: "v_insert (e_vpeer E) (u_peers u) ?q = (v, i)" by (cases "v_insert (e_vpeer E) (u_peers u) ?q")
  have "pe_addr p = e" "pe_flags p = flags"
    using dtls_new_peer_keeps(1,2) [OF d] by simp_all
  moreover have "udp_register_new_peer E remote flags w = Some (i, ?w\<lparr>w_udp := Some (u\<lparr>u_peers := v, u_gen := Suc (u_gen u)\<rparr>)\<rparr>)"
    using assms(4) e(1) d vi by (auto simp: udp_register_new_peer_def Let_def split: if_splits)
  ultimately show ?thesis
    using vec_insert [OF assms(1) vi] c e(2,3) dtls_new_peer_keeps(3) [OF d]
    by (cases "flags = DTLS_ENABLE") (auto simp: logs_udp)
qed

text \<open>
  Claim C36. Registering a peer adds exactly one entry to the table, whether or not the peer is
  already in it: the entry compares equal to the address given and has the flags given, the
  other entries are kept, and the result is the position of the new one. Unless the flags are
  exactly \<open>DTLS_ENABLE\<close> no SSL object is made for it and OpenSSL is not called: with
  \<open>DTLS_CLIENT\<close> or \<open>DTLS_SERVER\<close> added to the flags, as the header file allows, the peer has none.
\<close>

theorem udp_register_correct:
  assumes "vec_ok (e_vpeer E)" and "sockaddr_cmp_ok (e_cmp E)" and "ep_ok remote" and "w_udp w = Some u"
  shows "\<exists>i w' u' p. udp_register_new_peer E remote flags w = Some (i, w') \<and> w_udp w' = Some u'
    \<and> mset (u_peers u') = add_mset p (mset (u_peers u)) \<and> i < length (u_peers u') \<and> u_peers u' ! i = p
    \<and> endpoint_cmp (e_cmp E) (pe_addr p) remote = 0 \<and> pe_flags p = flags \<and> u_fd u' = u_fd u
    \<and> (flags \<noteq> DTLS_ENABLE \<longrightarrow> pe_ssl p = 0 \<and> w_log w' = w_log w)"
  using udp_register_ok [OF assms, of flags] by blast


section \<open>Receiving a datagram\<close>

text \<open>
  A datagram \<open>P\<close> from \<open>adr\<close> is waiting on the descriptor: a peek returns its first bytes and
  leaves it there, a receive returns it, cut off at the size of the buffer.
\<close>

definition datagram :: "'e env_scheme \<Rightarrow> int \<Rightarrow> bytes \<Rightarrow> bytes \<Rightarrow> bool" where
  "datagram E fd P adr \<longleftrightarrow>
     (\<forall>h n. e_ret E h (Sys (Sys_recvfrom fd n MSG_PEEK)) = int (min n (length P))
        \<and> e_out E h (Sys (Sys_recvfrom fd n MSG_PEEK)) = take n P
        \<and> e_adr E h (Sys (Sys_recvfrom fd n MSG_PEEK)) = adr
        \<and> e_ret E h (Sys (Sys_recv fd n 0)) = int (min n (length P))
        \<and> e_out E h (Sys (Sys_recv fd n 0)) = take n P)"

lemma received_datagram:
  assumes "datagram E fd P adr"
  shows "received E h (Sys_recvfrom fd n MSG_PEEK) = take n P" "received E h (Sys_recv fd n 0) = take n P"
  using assms by (simp_all add: datagram_def received_def)

text \<open>The two variables of \<open>server_udp\<close> that receive the address of the sender.\<close>

definition addr_vars :: "nat \<Rightarrow> nat \<Rightarrow> nat \<Rightarrow> 'w world_scheme \<Rightarrow> bool" where
  "addr_vars n sb lb w \<longleftrightarrow> sb \<noteq> lb \<and> sb < w_next w \<and> lb < w_next w
     \<and> (\<exists>sblk lblk. w_heap w sb = Some sblk \<and> length sblk = sizeof_storage
          \<and> w_heap w lb = Some lblk \<and> length lblk = 4 \<and> n \<le> unat (of_le32 lblk) \<and> unat (of_le32 lblk) \<le> sizeof_storage)"

lemma unat_u32_small [simp]: "n \<le> sizeof_storage \<Longrightarrow> unat (word_of_nat n :: u32) = n"
  by (simp add: sizeof_storage_def unat_of_nat take_bit_nat_eq_self)

lemma ready_heap [simp]:
  "ready s k (w\<lparr>w_heap := h, w_next := n\<rparr>) = ready s k w" "ready s k (w\<lparr>w_heap := h\<rparr>) = ready s k w"
  by (simp_all add: ready_def fib_of_def origin_valid_def)

section \<open>A concrete daemon\<close>

text \<open>
  The witnesses: a socket on which the datagram \<open>P\<close> from 10.0.0.1 waits, two peers, one frame in
  the queue, events for everything; allocations succeed or fail as \<open>al\<close> says.
\<close>

definition demo_adr :: bytes where
  "demo_adr = [2, 0, 0x10, 0x92, 10, 0, 0, 1, 0, 0, 0, 0, 0, 0, 0, 0]"

definition demo_uenv :: "bytes \<Rightarrow> bool \<Rightarrow> uenv" where
  "demo_uenv P al = \<lparr>e_ret = (\<lambda>h c. case c of Sys (Sys_recvfrom fd n fl) \<Rightarrow> int (min n (length P))
       | Sys (Sys_recv fd n fl) \<Rightarrow> int (min n (length P)) | Sys (Sys_send fd d fl) \<Rightarrow> int (length d) | Lev (Ev_new fd what k) \<Rightarrow> 1 | _ \<Rightarrow> 0),
     e_err = (\<lambda>h c. EAGAIN),
     e_out = (\<lambda>h c. case c of Sys (Sys_recvfrom fd n fl) \<Rightarrow> take n P | Sys (Sys_recv fd n fl) \<Rightarrow> take n P | _ \<Rightarrow> []),
     e_adr = (\<lambda>h c. demo_adr), e_alloc = (\<lambda>k. al), e_junk = (\<lambda>k i. 0xAA),
     m_find = (\<lambda>m k. m k), m_insert = (\<lambda>m k v. Some (m(k \<mapsto> v))),
     e_vframe = list_vec, e_vpeer = list_vec, e_cmp = demo_cmp, e_bio = (\<lambda>h. (5, 6))\<rparr>"

definition demo_udp :: udp where
  "demo_udp = no_udp\<lparr>u_fd := 5, u_peers := [demo_peer, demo_peer\<lparr>pe_addr := endpoint_set_port demo_ep 99\<rparr>]\<rparr>"

definition demo_frame :: frame where
  "demo_frame = \<lparr>f_size = 3, f_frame = Vptr 9 2, f_raw = Vptr 9 0\<rparr>"

definition demo_uworld :: uworld where
  "demo_uworld = \<lparr>w_log = [], w_errno = E0,
     w_heap = [4 \<mapsto> [], 7 \<mapsto> replicate sizeof_storage 0, 8 \<mapsto> le32 (word_of_nat sizeof_storage), 9 \<mapsto> [0, 0, 7, 8, 9]],
     w_next = 10, w_fibers = [6 \<mapsto> demo_fiber], w_args = [2 \<mapsto> \<lparr>a_fib = 6, a_userptr = null\<rparr>],
     w_maps = [3 \<mapsto> Map.empty], w_sched = \<lparr>sc_evbase = 1, sc_origin = Some 0\<rparr>, w_ctxs = {0},
     w_udp = Some demo_udp, w_frames = [demo_frame], w_fgen = 0, w_tap = 6\<rparr>"

lemma demo_uenv_ok [simp]:
  "events_ok (demo_uenv P al)" "kernel_ok (demo_uenv P al)" "datagram (demo_uenv P al) fd P demo_adr"
  "e_alloc (demo_uenv P al) = (\<lambda>k. al)" "e_vframe (demo_uenv P al) = list_vec" "e_vpeer (demo_uenv P al) = list_vec"
  "e_cmp (demo_uenv P al) = demo_cmp" "e_junk (demo_uenv P al) = (\<lambda>k i. 0xAA)"
proof -
  show "events_ok (demo_uenv P al)" by (simp add: events_ok_def map_ok_def demo_uenv_def)
  show "kernel_ok (demo_uenv P al)"
    unfolding kernel_ok_def
  proof (intro allI impI)
    fix h c n
    assume "recv_room c = Some n"
    then show "e_ret (demo_uenv P al) h (Sys c) = -1 \<or> 0 \<le> e_ret (demo_uenv P al) h (Sys c)
        \<and> length (e_out (demo_uenv P al) h (Sys c)) = nat (e_ret (demo_uenv P al) h (Sys c))
        \<and> length (e_out (demo_uenv P al) h (Sys c)) \<le> n"
      by (cases c) (auto simp: demo_uenv_def)
  qed
qed (simp_all add: datagram_def demo_uenv_def)

lemma demo_uworld_ok [simp]:
  "ready 2 6 demo_uworld" "w_udp demo_uworld = Some demo_udp" "u_fd demo_udp = 5" "w_tap demo_uworld = 6"
  "w_heap demo_uworld 9 = Some [0, 0, 7, 8, 9]" "w_log demo_uworld = []" "w_frames demo_uworld = [demo_frame]" "length (u_peers demo_udp) = 2"
  "length demo_adr = 16" "addr_vars 16 7 8 demo_uworld" "polite s k (calm fd B) Some"
  "queue_ok demo_uworld [demo_frame]"
  by (simp_all add: ready_def fib_of_def origin_valid_def demo_uworld_def demo_fiber_def demo_udp_def demo_adr_def
      addr_vars_def polite_idle queue_ok_def frame_ok_def demo_frame_def sizeof_packet_hdr_def)
    (simp add: sizeof_storage_def)?

abbreviation demo_P :: bytes where
  "demo_P \<equiv> packet_hdr 3 @ [7, 8, 9]"

lemma demo_adr_small [simp]: "16 \<le> sizeof_storage"
  by (simp add: sizeof_storage_def)

section \<open>Witnesses\<close>

theorem forward_to_others_witness:
  "\<exists>w' S. forward_udp_frame_to_other_peers (demo_uenv demo_P True) (ev_loop (demo_uenv demo_P True) 6 Some) 2 demo_frame
      (e_addr demo_ep) 16 demo_uworld = Some w'
    \<and> sends 5 (w_log w') = S \<and> sent_until_error (Sys (Sys_send 5 [0, 0, 7, 8, 9] 0)) 1 S"
proof -
  have i: "endpoint_init (e_addr demo_ep) 16 = Some demo_ep"
    by (simp add: endpoint_init_def copy_addr_def demo_ep_def ep_consts replicate_add [symmetric])
  have n: "length (filter (\<lambda>p. endpoint_cmp demo_cmp (pe_addr p) demo_ep \<noteq> 0) (u_peers demo_udp)) = 1"
    by (simp add: demo_udp_def demo_peer_def endpoint_cmp_def demo_cmp_def sa_key_def endpoint_addr_def demo_ep_def
        endpoint_set_port_def put_port_def ss_family_def raw_port_def of_le16_def le16_def htons_def ep_consts)
  from forward_to_others [of "demo_uenv demo_P True" 2 6 demo_uworld demo_udp 9 Some demo_frame "[0, 0, 7, 8, 9]" "e_addr demo_ep" 16]
  show ?thesis using i n by (auto simp: demo_frame_def sends_def [of 5 "[]"])
qed


theorem udp_register_correct_witness:
  "\<exists>i w' u'. udp_register_new_peer (demo_uenv demo_P True) demo_ep 5 demo_uworld = Some (i, w') \<and> w_udp w' = Some u'
    \<and> size (mset (u_peers u')) = 3 \<and> w_log w' = []"
proof -
  have "w_log demo_uworld = []" by (simp add: demo_uworld_def)
  moreover have "size (mset (u_peers demo_udp)) = 2" by simp
  ultimately show ?thesis
    using udp_register_correct [of "demo_uenv demo_P True" demo_ep demo_uworld demo_udp 5]
    by (auto simp: DTLS_ENABLE_def simp del: size_mset)
qed

end
