(* ===== verification/Udp_Recv.thy ===== *)
theory Udp_Recv
  imports Udp_Send
begin

text \<open>
  What the UDP fibers receive: a packet of another daemon becomes the same frame, one round of
  the receiving fiber, any number of rounds, and what happens when the header lies or memory
  runs out.
\<close>

text \<open>The peek: the header is read, the address of the sender is stored.\<close>

lemma peek_served:
  assumes ok: "events_ok E" "kernel_ok E" "ready s k w" "polite s k (calm fd UNIV) others"
    and dg: "datagram E fd P adr" "2 \<le> length P" "length adr \<le> sizeof_storage"
    and av: "addr_vars (length adr) sb lb w" and lo: "b_local E 2 w = (hdr, w0)"
  shows "\<exists>r w1. async_recvfrom E (ev_loop E k others) s fd hdr 2 MSG_PEEK (Vptr sb 0) (Vptr lb 0) w0 = Some (Vint r, w1)
    \<and> r \<noteq> -1 \<and> ready s k w1 \<and> b_load hdr 2 w1 = Some (take 2 P) \<and> addr_vars (length adr) sb lb w1
    \<and> (\<exists>sblk. w_heap w1 sb = Some sblk \<and> length sblk = sizeof_storage \<and> take (length adr) sblk = adr)
    \<and> w_heap w1 lb = Some (le32 (word_of_nat (length adr)))
    \<and> sends fd (w_log w1) = sends fd (w_log w) \<and> w_udp w1 = w_udp w \<and> w_frames w1 = w_frames w"
proof -
  let ?hb = "w_next w" and ?c = "Sys_recvfrom fd 2 MSG_PEEK" and ?j = "block_junk E (w_next w) 2"
  obtain sblk lblk where h: "sb \<noteq> lb" "sb < ?hb" "lb < ?hb" "w_heap w sb = Some sblk" "length sblk = sizeof_storage"
    "w_heap w lb = Some lblk" "length lblk = 4" "length adr \<le> unat (of_le32 lblk)" "unat (of_le32 lblk) \<le> sizeof_storage"
    using av by (auto simp: addr_vars_def)
  have w0: "hdr = Vptr ?hb 0" "w0 = w\<lparr>w_heap := (w_heap w)(?hb \<mapsto> ?j), w_next := Suc ?hb\<rparr>"
    using lo by (auto simp: b_local_def)
  have r0: "ready s k w0" using ok(3) w0(2) by simp
  have bl: "\<forall>v v'. calm fd UNIV v v' \<and> w_heap v = w_heap w0 \<and> sworld.more v = sworld.more w0 \<longrightarrow>
      w_heap v' ?hb = Some ?j \<and> w_heap v' sb = Some sblk \<and> w_heap v' lb = Some lblk"
    using h w0(2) by (auto simp: calm_def)
  from async_recvfrom_served [OF ok(1) r0 ok(4,2) refl bl, of 2 fd MSG_PEEK] h
  obtain v v' ls r w1 where x: "calm fd UNIV v v'" "w_log v = w_log w0 @ ls" "lev_only ls" "w_heap v = w_heap w0"
    "w_next v = w_next w0" "sworld.more v = sworld.more w0"
    "async_recvfrom E (ev_loop E k others) s fd (Vptr ?hb 0) (int 2) MSG_PEEK (Vptr sb 0) (Vptr lb 0) w0 = Some (Vint r, w1)"
    "ready s k w1" "r = e_ret E (w_log v') (Sys ?c)" "w_log w1 = w_log v' @ [(Sys ?c, r)]" "w_next w1 = Suc (w_next v')"
    "w_heap w1 = recvfrom_heap E (w_log v') ?c ?hb ?j sb sblk lb lblk (w_heap v')" "sworld.more w1 = sworld.more v'"
    by (auto simp: sizeof_storage_def)
  have r: "r \<noteq> -1" using x(9) dg by (simp add: datagram_def)
  have hp: "w_heap w1 = (w_heap v')(?hb \<mapsto> put_bytes (take 2 P) ?j, sb \<mapsto> put_bytes adr sblk,
      lb \<mapsto> le32 (word_of_nat (length adr)))"
    using x(9,12) r dg h(8) received_datagram [OF dg(1)] by (simp add: recvfrom_heap_def datagram_def)
  have nx: "Suc ?hb \<le> w_next w1" using x(1,5,11) w0(2) by (simp add: calm_def)
  have "b_load hdr 2 w1 = Some (take 2 P)"
    using hp h(1-3) dg(2) w0(1) by (simp add: b_load_def mem_read_def put_bytes_def)
  moreover have "addr_vars (length adr) sb lb w1"
    using hp h nx dg(3) by (auto simp: addr_vars_def)
  moreover have "take (length adr) (put_bytes adr sblk) = adr" "length (put_bytes adr sblk) = sizeof_storage"
    using h dg(3) by simp_all
  moreover have "sends fd (w_log w1) = sends fd (w_log w)"
    using x(1,2,3,10) w0(2) by (simp add: calm_def)
  moreover have "w_udp w1 = w_udp w" "w_frames w1 = w_frames w"
    using smore_uworld [OF x(13)] smore_uworld [OF x(6)] x(1) w0(2) by (simp_all add: calm_def)
  ultimately show ?thesis using x(7,8) r hp h(1) w0(1) by simp
qed

lemma of_le16_take [simp]: "2 \<le> n \<Longrightarrow> of_le16 (take n a) = of_le16 a"
  by (simp add: of_le16_def)

lemma ucast_u16_u32 [simp]: "unat (ucast (x :: u16) :: u32) = unat x" "ucast (ucast (x :: u16) :: u32) = x"
proof -
  show "unat (ucast x :: u32) = unat x"
  proof -
    have "unat x < 2 ^ 16" using unsigned_less [of x] by simp
    then show ?thesis by (simp add: unsigned_ucast_eq take_bit_nat_eq_self)
  qed
  show "ucast (ucast x :: u32) = x"
    by (rule bit_word_eqI) (simp add: bit_simps)
qed

text \<open>The two variables hold the address of the last sender.\<close>

definition sender_is :: "bytes \<Rightarrow> nat \<Rightarrow> nat \<Rightarrow> 'w world_scheme \<Rightarrow> bool" where
  "sender_is adr sb lb w \<longleftrightarrow> addr_vars (length adr) sb lb w
     \<and> (\<exists>sblk. w_heap w sb = Some sblk \<and> length sblk = sizeof_storage \<and> take (length adr) sblk = adr)
     \<and> w_heap w lb = Some (le32 (word_of_nat (length adr)))"

text \<open>
  Reading one packet: the size of the frame is what the header says, and the block holds what
  was received, followed by what the allocator left there.
\<close>

lemma frame_recvfrom_served:
  assumes ok: "events_ok E" "kernel_ok E" "ready s k w" "polite s k (calm fd UNIV) others" and al: "\<And>k. e_alloc E k"
    and dg: "datagram E fd P adr" "2 \<le> length P" "length adr \<le> sizeof_storage" and av: "addr_vars (length adr) sb lb w"
    and n: "n = unat (ntohs (of_le16 P)) + 2"
  shows "\<exists>r f' nb w'. frame_recvfrom E (ev_loop E k others) s fd f (Vptr sb 0) (Vptr lb 0) w = Some (Vint r, f', w')
    \<and> r = int (min n (length P)) \<and> f_size f' = ntohs (of_le16 P) \<and> f_raw f' = Vptr nb 0 \<and> f_frame f' = Vptr nb 2
    \<and> nb \<noteq> sb \<and> nb \<noteq> lb \<and> w_heap w' nb = Some (take n P @ drop (length P) (block_junk E nb n))
    \<and> ready s k w' \<and> sender_is adr sb lb w' \<and> w_udp w' = w_udp w \<and> sends fd (w_log w') = sends fd (w_log w)"
proof -
  obtain hdr w0 where lo: "b_local E 2 w = (hdr, w0)" by (cases "b_local E 2 w")
  obtain r0 w1 where w1: "async_recvfrom E (ev_loop E k others) s fd hdr 2 MSG_PEEK (Vptr sb 0) (Vptr lb 0) w0 = Some (Vint r0, w1)"
    "r0 \<noteq> -1" "ready s k w1" "b_load hdr 2 w1 = Some (take 2 P)" "addr_vars (length adr) sb lb w1"
    "\<exists>sblk. w_heap w1 sb = Some sblk \<and> length sblk = sizeof_storage \<and> take (length adr) sblk = adr"
    "w_heap w1 lb = Some (le32 (word_of_nat (length adr)))"
    "sends fd (w_log w1) = sends fd (w_log w)" "w_udp w1 = w_udp w"
    using peek_served [OF ok dg av lo] by blast
  obtain ra f' w2 where fa: "frame_alloc E f (ucast (ntohs (of_le16 P))) w1 = (ra, f', w2)"
    by (cases "frame_alloc E f (ucast (ntohs (of_le16 P))) w1") auto
  let ?nb = "w_next w1"
  have w2: "f_raw f' = Vptr ?nb 0" "f_frame f' = Vptr ?nb 2" "f_size f' = ntohs (of_le16 P)"
    "w_heap w2 = (w_heap w1)(?nb \<mapsto> block_junk E ?nb n)" "w_log w2 = w_log w1" "world.more w2 = world.more w1"
    "w_next w2 = Suc ?nb"
    using frame_alloc_ok [OF fa] al n by simp_all
  have r2: "ready s k w2" using w1(3) more_sworld [OF w2(6)] by (simp add: ready_def fib_of_def origin_valid_def)
  have u2: "sworld.more w2 = sworld.more w1" using w2(6) by (cases w1; cases w2) simp
  have bl: "\<forall>v v'. calm fd UNIV v v' \<and> w_heap v = w_heap w2 \<and> sworld.more v = sworld.more w2 \<longrightarrow>
      w_heap v' ?nb = Some (block_junk E ?nb n)"
    using w2(4) by (auto simp: calm_def)
  have ln: "0 + n \<le> length (block_junk E ?nb n)" by simp
  from async_recv_served [OF ok(1) r2 ok(4,2) bl ln, of fd 0]
  obtain v v' ls r w' where x: "calm fd UNIV v v'" "w_log v = w_log w2 @ ls" "lev_only ls" "w_heap v = w_heap w2"
    "w_next v = w_next w2" "sworld.more v = sworld.more w2"
    "async_recv E (ev_loop E k others) s fd (Vptr ?nb 0) n 0 w2 = Some (Vint r, w')" "ready s k w'"
    "r = e_ret E (w_log v') (Sys (Sys_recv fd n 0))" "w_log w' = w_log v' @ [(Sys (Sys_recv fd n 0), r)]"
    "w_next w' = Suc (w_next v')"
    "w_heap w' = (w_heap v')(?nb \<mapsto> take n P @ drop (length (take n P)) (block_junk E ?nb n))"
    "sworld.more w' = sworld.more v'"
    unfolding received_datagram [OF dg(1)] add_0 take_0 append_Nil by blast
  have nb: "sb < ?nb" "lb < ?nb" "sb \<noteq> lb" using w1(5) by (auto simp: addr_vars_def)
  have same: "w_heap w' sb = w_heap w1 sb" "w_heap w' lb = w_heap w1 lb"
    using x(1,4,12) nb w1(6,7) w2(4) by (auto simp: calm_def)
  have dr: "drop (length (take n P)) (block_junk E ?nb n) = drop (length P) (block_junk E ?nb n)"
    by (cases "n \<le> length P") simp_all
  have "frame_recvfrom E (ev_loop E k others) s fd f (Vptr sb 0) (Vptr lb 0) w = Some (Vint r, f', w')"
    using lo w1(1,2,4) fa x(7) w2(1,3) n dg(2) by (simp add: frame_recvfrom_def sizeof_packet_hdr_def)
  moreover have "r = int (min n (length P))" using x(9) dg(1) by (simp add: datagram_def)
  moreover have "sender_is adr sb lb w'"
  proof -
    have "?nb < w_next w'" using x(1,5,11) w2(7) by (simp add: calm_def)
    then have "addr_vars (length adr) sb lb w'"
      using w1(5) same nb unfolding addr_vars_def by auto
    then show ?thesis using w1(6,7) same by (simp add: sender_is_def)
  qed
  moreover have "sends fd (w_log w') = sends fd (w_log w)"
    using x(1,2,3,10) w2(5) w1(8) by (simp add: calm_def)
  moreover have "w_udp w' = w_udp w"
    using smore_uworld [OF x(13)] smore_uworld [OF x(6)] smore_uworld [OF u2] x(1) w1(9) by (simp add: calm_def)
  ultimately show ?thesis using x(8,12) w2(1-3) nb dr by (intro exI [of _ r] exI [of _ f'] exI [of _ ?nb] exI [of _ w']) simp
qed

text \<open>
  Claim C10. What one daemon broadcasts, another receives: if the datagram waiting on the
  socket is a packet as \<open>_broadcast_udp_to_peers\<close> sends it, with the payload \<open>d\<close>, then
  \<open>frame_recvfrom\<close> returns its length and leaves a valid frame of the same size with exactly
  that payload, and the address of the sender in the variables of its caller. This holds
  whatever ran while the fiber slept, as long as it left live memory and the socket alone.
\<close>

theorem frame_roundtrip:
  assumes "events_ok E" and "kernel_ok E" and "ready s k w" and "polite s k (calm fd UNIV) others"
    and "\<forall>k. e_alloc E k" and "datagram E fd P adr" and "length adr \<le> sizeof_storage"
    and "addr_vars (length adr) sb lb w"
    and "send_call sfd sz d = Sys (Sys_send sfd P 0)" and "length d = unat sz"
  shows "\<exists>f' w'. frame_recvfrom E (ev_loop E k others) s fd f (Vptr sb 0) (Vptr lb 0) w
      = Some (Vint (int (length P)), f', w')
    \<and> f_size f' = sz \<and> payload w' f' = Some d \<and> frame_ok w' f' \<and> sender_is adr sb lb w'"
proof -
  have P: "P = packet_hdr sz @ d" "2 \<le> length P" using assms(9) by (auto simp: send_call_def)
  have h: "ntohs (of_le16 P) = sz" by (simp add: P packet_hdr_def)
  from frame_recvfrom_served [OF assms(1-4) _ assms(6) P(2) assms(7,8) refl, of f] assms(5)
  obtain r f' nb w' where x: "frame_recvfrom E (ev_loop E k others) s fd f (Vptr sb 0) (Vptr lb 0) w = Some (Vint r, f', w')"
    "r = int (min (unat sz + 2) (length P))" "f_size f' = sz" "f_raw f' = Vptr nb 0" "f_frame f' = Vptr nb 2"
    "w_heap w' nb = Some (take (unat sz + 2) P @ drop (length P) (block_junk E nb (unat sz + 2)))"
    "sender_is adr sb lb w'"
    unfolding h by blast
  have "w_heap w' nb = Some P" using x(6) assms(10) by (simp add: P)
  with x assms(10) show ?thesis
    by (auto simp: P payload_def b_load_def mem_read_def frame_ok_def sizeof_packet_hdr_def)
qed

text \<open>
  The size in the header is trusted: a datagram shorter than its header claims
  becomes a frame of the claimed size, whose last bytes are what the allocator left in the
  block. They are forwarded to the other peers and written to the device with the rest.
\<close>

lemma frame_header_trusted:
  assumes "events_ok E" and "kernel_ok E" and "ready s k w" and "polite s k (calm fd UNIV) others"
    and "\<forall>k. e_alloc E k" and "datagram E fd P adr" and "length adr \<le> sizeof_storage"
    and "addr_vars (length adr) sb lb w"
    and "2 \<le> length P" and "n = unat (ntohs (of_le16 P))" and "length P < n + 2"
  shows "\<exists>r f' nb w'. frame_recvfrom E (ev_loop E k others) s fd f (Vptr sb 0) (Vptr lb 0) w = Some (Vint r, f', w')
    \<and> r \<noteq> -1 \<and> unat (f_size f') = n
    \<and> payload w' f' = Some (drop 2 P @ map (e_junk E nb) [length P..<n + 2])"
proof -
  from frame_recvfrom_served [OF assms(1-4) _ assms(6,9,7,8) refl, of f] assms(5)
  obtain r f' nb w' where x: "frame_recvfrom E (ev_loop E k others) s fd f (Vptr sb 0) (Vptr lb 0) w = Some (Vint r, f', w')"
    "r = int (min (n + 2) (length P))" "f_size f' = ntohs (of_le16 P)" "f_raw f' = Vptr nb 0" "f_frame f' = Vptr nb 2"
    "w_heap w' nb = Some (take (n + 2) P @ drop (length P) (block_junk E nb (n + 2)))"
    unfolding assms(10) by blast
  have "drop (length P) (block_junk E nb (n + 2)) = map (e_junk E nb) [length P..<n + 2]"
    by (simp only: block_junk_def drop_map drop_upt add_0)
  then have "w_heap w' nb = Some (P @ map (e_junk E nb) [length P..<n + 2])"
    using x(6) assms(11) by simp
  with x assms(9-11) show ?thesis
    by (intro exI [of _ r] exI [of _ f'] exI [of _ nb] exI [of _ w'])
      (simp add: payload_def b_load_def mem_read_def)
qed

text \<open>The endpoint made of an address of a sender.\<close>

definition sender_ep :: "bytes \<Rightarrow> endpoint" where
  "sender_ep adr = \<lparr>e_addr = adr @ replicate (sizeof_storage - length adr) 0, e_addrlen = word_of_nat (length adr)\<rparr>"

lemma endpoint_init_sender:
  assumes "length adr \<le> sizeof_storage" and "take (length adr) sblk = adr" and "length sblk = sizeof_storage"
  shows "endpoint_init sblk (word_of_nat (length adr)) = Some (sender_ep adr)"
  using assms by (simp add: endpoint_init_def copy_addr_def sender_ep_def ep_consts)

text \<open>One round of the receiving fiber, for a packet that is as long as its header says.\<close>

lemma server_udp_round_served:
  assumes ok: "events_ok E" "kernel_ok E" "ready s k w" "polite s k (calm fd UNIV) others" and al: "\<And>k. e_alloc E k"
    and u: "w_udp w = Some u" "u_fd u = fd"
    and dg: "datagram E fd P adr" "length adr \<le> sizeof_storage" "P = packet_hdr sz @ d" "length d = unat sz"
    and av: "addr_vars (length adr) sb lb w"
  shows "\<exists>f' w' S h r. server_udp_round E (ev_loop E k others) s fd tap (Vptr sb 0) (Vptr lb 0) f w = Some (False, f', w')
    \<and> sends fd (w_log w') = sends fd (w_log w) @ S
    \<and> sent_until_error (Sys (Sys_send fd P 0))
        (length (filter (\<lambda>p. endpoint_cmp (e_cmp E) (pe_addr p) (sender_ep adr) \<noteq> 0) (u_peers u))) S
    \<and> w_log w' = h @ [(Sys (Sys_write tap d), r)]
    \<and> (\<exists>nb. f_raw f' = Vptr nb 0 \<and> w_heap w' nb = None)
    \<and> ready s k w' \<and> w_udp w' = Some u \<and> addr_vars (length adr) sb lb w'"
proof -
  have P: "2 \<le> length P" "ntohs (of_le16 P) = sz" using dg(3) by (simp_all add: packet_hdr_def)
  from frame_recvfrom_served [OF ok al dg(1) P(1) dg(2) av refl, of f]
  obtain r f' nb w1 where x: "frame_recvfrom E (ev_loop E k others) s fd f (Vptr sb 0) (Vptr lb 0) w = Some (Vint r, f', w1)"
    "r = int (min (unat sz + 2) (length P))" "f_size f' = sz" "f_raw f' = Vptr nb 0" "f_frame f' = Vptr nb 2"
    "nb \<noteq> sb" "nb \<noteq> lb" "w_heap w1 nb = Some (take (unat sz + 2) P @ drop (length P) (block_junk E nb (unat sz + 2)))"
    "ready s k w1" "sender_is adr sb lb w1" "w_udp w1 = w_udp w" "sends fd (w_log w1) = sends fd (w_log w)"
    unfolding P(2) by blast
  have r: "r \<noteq> -1" using x(2) by linarith
  have hp: "w_heap w1 nb = Some P" and tk: "take (unat (f_size f') + 2) P = P"
    "unat (f_size f') + 2 \<le> length P"
    using x(2,3,8) dg(3,4) by simp_all
  obtain sblk where sb: "w_heap w1 sb = Some sblk" "length sblk = sizeof_storage" "take (length adr) sblk = adr"
    "w_heap w1 lb = Some (le32 (word_of_nat (length adr)))" "addr_vars (length adr) sb lb w1"
    using x(10) by (auto simp: sender_is_def)
  let ?e = "sender_ep adr"
  have e: "endpoint_init sblk (word_of_nat (length adr)) = Some ?e"
    "endpoint_init (endpoint_addr ?e) (endpoint_addrlen ?e) = Some ?e"
    using endpoint_init_sender [OF dg(2)] sb dg(2) by (simp_all add: sender_ep_def endpoint_addr_def endpoint_addrlen_def)
  have ld: "b_load (Vptr sb 0) sizeof_storage w1 = Some sblk" "b_load (Vptr lb 0) 4 w1 = Some (le32 (word_of_nat (length adr)))"
    using sb by (simp_all add: b_load_def mem_read_def sizeof_storage_def)
  have pol: "polite s k (calm (u_fd u) UNIV) others" using ok(4) u(2) by simp
  have u1: "w_udp w1 = Some u" using x(11) u by simp
  from forward_served [OF ok(1) x(9) pol u1 x(4) UNIV_I hp tk(2) e(2)] u(2)
  obtain w2 S where w2: "forward_udp_frame_to_other_peers E (ev_loop E k others) s f' (endpoint_addr ?e) (endpoint_addrlen ?e) w1 = Some w2"
    "sends fd (w_log w2) = sends fd (w_log w1) @ S"
    "sent_until_error (Sys (Sys_send fd P 0)) (length (filter (\<lambda>p. endpoint_cmp (e_cmp E) (pe_addr p) ?e \<noteq> 0) (u_peers u))) S"
    "w_udp w2 = w_udp w1" "w_next w1 \<le> w_next w2" "\<forall>y. w_heap w1 y \<noteq> None \<longrightarrow> w_heap w2 y = w_heap w1 y" "ready s k w2"
    unfolding tk(1) by auto
  have h2: "w_heap w2 nb = Some P" "w_heap w2 sb = w_heap w1 sb" "w_heap w2 lb = w_heap w1 lb"
    using w2(6) hp sb by simp_all
  have ldw: "\<forall>v v'. calm fd UNIV v v' \<and> w_heap v = w_heap w2 \<and> sworld.more v = sworld.more w2 \<longrightarrow>
      b_load (Vptr nb 2) (unat (f_size f')) v' = Some d"
    using h2(1) x(3) dg(3,4) by (auto simp: calm_def b_load_def mem_read_def)
  from async_write_served [OF ok(1) w2(7) ok(4) ldw, of tap]
  obtain v v' ls rw w3 where w3: "calm fd UNIV v v'" "w_log v = w_log w2 @ ls" "lev_only ls" "w_heap v = w_heap w2"
    "w_next v = w_next w2" "sworld.more v = sworld.more w2"
    "async_write E (ev_loop E k others) s tap (Vptr nb 2) (unat (f_size f')) w2 = Some (Vint rw, w3)" "ready s k w3"
    "w_log w3 = w_log v' @ [(Sys (Sys_write tap d), rw)]" "w_heap w3 = w_heap v'" "w_next w3 = Suc (w_next v')"
    "sworld.more w3 = sworld.more v'" by blast
  have h3: "w_heap w3 nb = Some P" "w_heap w3 sb = w_heap w1 sb" "w_heap w3 lb = w_heap w1 lb" "w_next w1 \<le> w_next w3"
    "w_udp w3 = Some u" "sends fd (w_log w3) = sends fd (w_log w2)"
    using w3(1-5,9-11) h2 sb w2(4,5) u1 smore_uworld(1) [OF w3(6)] smore_uworld(1) [OF w3(12)] by (auto simp: calm_def)
  let ?w4 = "w3\<lparr>w_heap := (w_heap w3)(nb := None)\<rparr>"
  have "server_udp_round E (ev_loop E k others) s fd tap (Vptr sb 0) (Vptr lb 0) f w = Some (False, f', ?w4)"
    using x(1,4,5) r ld e(1) w2(1) w3(7) h3(1)
    by (simp add: server_udp_round_def frame_free_def b_free_def)
  moreover have "addr_vars (length adr) sb lb ?w4"
    using sb(5) h3 x(6,7) by (auto simp: addr_vars_def)
  ultimately show ?thesis
    using w2(2,3) w3(8,9) h3 x(4,12)
    by (intro exI [of _ f'] exI [of _ ?w4] exI [of _ S] exI [of _ "w_log v'"] exI [of _ rw]) simp
qed


lemma server_udp_loop_served:
  assumes ok: "events_ok E" "kernel_ok E" and pol: "polite s k (calm fd UNIV) others" and al: "\<And>k. e_alloc E k"
    and dg: "datagram E fd P adr" "length adr \<le> sizeof_storage" "P = packet_hdr sz @ d" "length d = unat sz"
    and w: "ready s k w" "w_udp w = Some u" "u_fd u = fd" "addr_vars (length adr) sb lb w"
  shows "\<exists>w'. server_udp_loop E (ev_loop E k others) s fd tap (Vptr sb 0) (Vptr lb 0) n f w = Some (False, w')
    \<and> ready s k w' \<and> w_udp w' = Some u \<and> (0 < n \<longrightarrow> (\<exists>h r. w_log w' = h @ [(Sys (Sys_write tap d), r)]))"
  using w
proof (induction n arbitrary: f w)
  case 0
  then show ?case by simp
next
  case (Suc n)
  from server_udp_round_served [OF ok Suc.prems(1) pol al Suc.prems(2,3) dg Suc.prems(4), of tap f]
  obtain f' w1 h r where w1: "server_udp_round E (ev_loop E k others) s fd tap (Vptr sb 0) (Vptr lb 0) f w = Some (False, f', w1)"
    "w_log w1 = h @ [(Sys (Sys_write tap d), r)]" "ready s k w1" "w_udp w1 = Some u" "addr_vars (length adr) sb lb w1"
    by blast
  from Suc.IH [OF w1(3,4) Suc.prems(3) w1(5), of f'] w1(1,2) show ?case
    by (cases n) auto
qed


text \<open>
  A failed allocation is not noticed: \<open>frame_recvfrom\<close> then receives into whatever
  the frame pointed to before. For the first packet, whose frame its caller has cleared, that
  is NULL, and the call is undefined. (After the first one it is the block of the previous
  frame, which \<open>server_udp\<close> has freed.)
\<close>

lemma frame_recvfrom_alloc_failure:
  assumes "events_ok E" and "kernel_ok E" and "ready s k w" and "polite s k (calm fd UNIV) others"
    and "\<forall>k. \<not> e_alloc E k" and "datagram E fd P adr" and "2 \<le> length P" and "length adr \<le> sizeof_storage"
    and "addr_vars (length adr) sb lb w"
    and "f_raw f = null"
  shows "frame_recvfrom E (ev_loop E k others) s fd f (Vptr sb 0) (Vptr lb 0) w = None"
proof -
  obtain hdr w0 where lo: "b_local E 2 w = (hdr, w0)" by (cases "b_local E 2 w")
  obtain r0 w1 where w1: "async_recvfrom E (ev_loop E k others) s fd hdr 2 MSG_PEEK (Vptr sb 0) (Vptr lb 0) w0 = Some (Vint r0, w1)"
    "r0 \<noteq> -1" "ready s k w1" "b_load hdr 2 w1 = Some (take 2 P)"
    using peek_served [OF assms(1-4) assms(6-9) lo] by blast
  obtain ra f' w2 where fa: "frame_alloc E f (ucast (ntohs (of_le16 P))) w1 = (ra, f', w2)"
    by (cases "frame_alloc E f (ucast (ntohs (of_le16 P))) w1") auto
  have w2: "f' = f" "world.more w2 = world.more w1" using frame_alloc_ok [OF fa] assms(5) by simp_all
  have r2: "ready s k w2" using w1(3) more_sworld [OF w2(2)] by (simp add: ready_def fib_of_def origin_valid_def)
  have "k_store E (Sys_recv fd (n + 2) 0) null (n + 2) v = None" for n and v :: "'b uworld_scheme"
    using assms(6,7) by (auto simp: k_store_def b_store_def datagram_def call_def Let_def)
  from async_recv_dead [OF assms(1) r2 assms(4) this]
  show ?thesis
    using lo w1(1,2,4) fa w2(1) assms(7,10) by (simp add: frame_recvfrom_def sizeof_packet_hdr_def)
qed

section \<open>Witnesses\<close>

theorem frame_roundtrip_witness:
  "\<exists>f' w'. frame_recvfrom (demo_uenv demo_P True) (ev_loop (demo_uenv demo_P True) 6 Some) 2 5 demo_frame
      (Vptr 7 0) (Vptr 8 0) demo_uworld = Some (Vint 5, f', w') \<and> f_size f' = 3 \<and> payload w' f' = Some [7, 8, 9]"
  using frame_roundtrip [of "demo_uenv demo_P True" 2 6 demo_uworld 5 Some demo_P demo_adr 7 8 4 3 "[7, 8, 9]" demo_frame]
  by (auto simp: send_call_def)

lemma frame_header_trusted_witness:
  "\<exists>r f' w'. frame_recvfrom (demo_uenv [0, 4, 7] True) (ev_loop (demo_uenv [0, 4, 7] True) 6 Some) 2 5 demo_frame
      (Vptr 7 0) (Vptr 8 0) demo_uworld = Some (Vint r, f', w')
    \<and> unat (f_size f') = 4 \<and> payload w' f' = Some [7, 0xAA, 0xAA, 0xAA]"
proof -
  have "ntohs (of_le16 [0, 4, 7]) = 4" by (simp add: of_le16_def ntohs_def)
  moreover note frame_header_trusted [of "demo_uenv [0, 4, 7] True" 2 6 demo_uworld 5 Some "[0, 4, 7]" demo_adr 7 8 4 demo_frame]
  moreover have "map (\<lambda>i. 0xAA) [Suc (Suc (Suc 0))..<6] = [0xAA, 0xAA, 0xAA :: byte]" by (simp add: upt_rec)
  ultimately show ?thesis by auto
qed



lemma frame_recvfrom_alloc_failure_witness:
  "frame_recvfrom (demo_uenv demo_P False) (ev_loop (demo_uenv demo_P False) 6 Some) 2 5
     \<lparr>f_size = 0, f_frame = null, f_raw = null\<rparr> (Vptr 7 0) (Vptr 8 0) demo_uworld = None"
  using frame_recvfrom_alloc_failure [of "demo_uenv demo_P False" 2 6 demo_uworld 5 Some demo_P demo_adr 7 8]
  by simp

end
