(* ===== verification/Mc.thy ===== *)
theory Mc
  imports Udp
begin

text \<open>
  Meta-connections (\<open>src/mc.c\<close>, \<open>include/mc.h\<close>): the TCP or TLS connections over which daemons
  tell each other their UDP ports, and the two lists of the server they are kept in. A
  buffered socket of libevent is its address; the world keeps which of them are live, and
  using or freeing another is undefined. The lists are vectors with generations, as in the
  UDP part. The rest of \<open>struct server\<close> is here as well, since the functions take it.
\<close>

section \<open>State\<close>

definition TLS_ENABLE :: int where "TLS_ENABLE = 1"
definition TLS_DISABLE :: int where "TLS_DISABLE = 2"

definition BUFFEREVENT_SSL_CONNECTING :: int where "BUFFEREVENT_SSL_CONNECTING = 1"
definition BUFFEREVENT_SSL_ACCEPTING :: int where "BUFFEREVENT_SSL_ACCEPTING = 2"

record mc =
  m_address :: val
  m_len :: u32
  m_bev :: int
  m_flags :: int
  m_tunel :: int

definition no_mc :: mc where
  "no_mc = \<lparr>m_address = null, m_len = 0, m_bev = 0, m_flags = 0, m_tunel = 0\<rparr>"

text \<open>
  \<open>w_input\<close> are the complete lines waiting in the input buffer of a socket that is read by lines,
  \<open>w_raw\<close> the characters waiting in one that is read as they come.
\<close>

record srvworld = uworld +
  w_peers :: "mc list"
  w_pgen :: nat
  w_pending :: "mc list"
  w_pdgen :: nat
  w_listeners :: "int list"
  w_evbase :: int
  w_ctx :: int
  w_client :: mc
  w_devfib :: "nat option"
  w_bevs :: "int set"
  w_input :: "int \<Rightarrow> string list"
  w_raw :: "int \<Rightarrow> string"

text \<open>
  The vectors of connections and listeners, the address comparison that ignores the port, and
  how many errors OpenSSL has queued for a socket.
\<close>

record srvenv = uenv +
  e_vmc :: "mc vec_ops"
  e_vevl :: "int vec_ops"
  e_cmp0 :: sockaddr_cmp
  e_nerr :: "history \<Rightarrow> int \<Rightarrow> nat"

type_synonym 'w srun = "'w srvworld_scheme \<Rightarrow> 'w srvworld_scheme option"

section \<open>Buffered sockets\<close>

definition bev_call :: "'e env_scheme \<Rightarrow> lev \<Rightarrow> int \<Rightarrow> 'w srun" where
  "bev_call E c bev w = (if bev \<in> w_bevs w then Some (call0 E (Lev c) w) else None)"

definition bev_free :: "'e env_scheme \<Rightarrow> int \<Rightarrow> 'w srun" where
  "bev_free E bev w =
     do { w \<leftarrow> bev_call E (Bev_free bev) bev w; Some (w\<lparr>w_bevs := w_bevs w - {bev}\<rparr>) }"

text \<open>A call that makes a new socket; 0 is a failure.\<close>

definition bev_new :: "'e env_scheme \<Rightarrow> lev \<Rightarrow> 'w srvworld_scheme \<Rightarrow> int \<times> 'w srvworld_scheme" where
  "bev_new E c w =
     (let (bev, w) = call E (Lev c) w in (bev, if bev = 0 then w else w\<lparr>w_bevs := insert bev (w_bevs w)\<rparr>))"

section \<open>Presentation\<close>

definition address_presentation :: "(u16 \<Rightarrow> bytes \<Rightarrow> string) \<Rightarrow> bytes \<Rightarrow> nat \<Rightarrow> string" where
  "address_presentation inet_ntop sock namelen =
     take (namelen - 1)
       ((if ss_family sock = AF_INET then inet_ntop AF_INET (take 4 (drop 4 sock))
         else inet_ntop AF_INET6 (take 16 (drop 8 sock)))
        @ '':'' @ show_nat (unat (ntohs (raw_port sock))))"

text \<open>The bytes at \<open>p.address\<close>.\<close>

definition mc_sock :: "mc \<Rightarrow> 'w world_scheme \<Rightarrow> bytes option" where
  "mc_sock m w = b_load (m_address m) (unat (m_len m)) w"

definition mc_presentation :: "(u16 \<Rightarrow> bytes \<Rightarrow> string) \<Rightarrow> mc \<Rightarrow> nat \<Rightarrow> 'w world_scheme \<Rightarrow> string option" where
  "mc_presentation inet_ntop self len w =
     map_option (\<lambda>a. address_presentation inet_ntop a len) (mc_sock self w)"

section \<open>Opening and closing\<close>

text \<open>The socket of a new connection, over TLS if the server has a context.\<close>

definition mc_open_bev :: "'e env_scheme \<Rightarrow> mc \<Rightarrow> int \<Rightarrow> int \<Rightarrow> 'w srvworld_scheme \<Rightarrow> mc \<times> 'w srvworld_scheme" where
  "mc_open_bev E self fd server_ctx w =
     (if server_ctx \<noteq> 0 then
        (let (client_ctx, w) = call E (Tls (Ssl_new server_ctx)) w;
             (bev, w) = bev_new E (Bev_new_ssl fd client_ctx (m_flags self)) w
         in (self\<lparr>m_bev := bev, m_flags := TLS_ENABLE\<rparr>, w))
      else (let (bev, w) = bev_new E (Bev_new fd) w in (self\<lparr>m_flags := TLS_DISABLE, m_bev := bev\<rparr>, w)))"

text \<open>
  \<open>sock\<close> are the bytes of the address given. If the allocation fails or there is no socket, the
  socket is freed, which is undefined if it is NULL.
\<close>

definition mc_init ::
    "'e env_scheme \<Rightarrow> mc \<Rightarrow> int \<Rightarrow> bytes \<Rightarrow> u32 \<Rightarrow> int \<Rightarrow> 'w srvworld_scheme \<Rightarrow> (int \<times> mc \<times> 'w srvworld_scheme) option" where
  "mc_init E self fd sock len server_ctx w =
     do { let (tmp, w) = b_new E (unat len) w;
          let (self, w) = mc_open_bev E self fd server_ctx w;
          if tmp = null \<or> m_bev self = 0
          then do { w \<leftarrow> bev_free E (m_bev self) w; w \<leftarrow> b_free tmp w; Some (-1, self, w) }
          else do { d \<leftarrow> mem_read sock 0 (unat len);
                    w \<leftarrow> b_store tmp d w;
                    w \<leftarrow> bev_call E (Bev_enable (m_bev self)) (m_bev self) w;
                    Some (0, self\<lparr>m_address := tmp, m_len := len\<rparr>, w) } }"

definition mc_shutdown :: "'e env_scheme \<Rightarrow> mc \<Rightarrow> 'w srun" where
  "mc_shutdown E self w =
     (if m_flags self AND TLS_ENABLE \<noteq> 0 then
        (if m_bev self \<notin> w_bevs w then None
         else let (ssl, w) = call E (Lev (Bev_get_ssl (m_bev self))) w in
              Some (call0 E (Tls (Ssl_shutdown ssl)) (call0 E (Tls (Ssl_set_shutdown ssl)) w)))
      else Some w)"

definition mc_close :: "'e env_scheme \<Rightarrow> mc \<Rightarrow> 'w srun" where
  "mc_close E self w =
     do { w \<leftarrow> mc_shutdown E self w;
          w \<leftarrow> b_free (m_address self) w;
          bev_free E (m_bev self) w }"

section \<open>The lists of the server\<close>

definition find_established :: "'e srvenv_scheme \<Rightarrow> 'w world_scheme \<Rightarrow> bytes \<Rightarrow> mc \<Rightarrow> bool" where
  "find_established E w test m = (case mc_sock m w of None \<Rightarrow> False | Some a \<Rightarrow> e_cmp0 E a test = 0)"

text \<open>An address in the list that is not live makes the search undefined.\<close>

definition mc_known :: "'e srvenv_scheme \<Rightarrow> mc list \<Rightarrow> bytes \<Rightarrow> 'w world_scheme \<Rightarrow> bool option" where
  "mc_known E v sck w =
     (if list_all (\<lambda>m. mc_sock m w \<noteq> None) v
      then Some (v_find_if (e_vmc E) (find_established E w sck) v \<noteq> length v) else None)"

definition mc_established :: "'e srvenv_scheme \<Rightarrow> bytes \<Rightarrow> 'w srvworld_scheme \<Rightarrow> bool option" where
  "mc_established E sck w = mc_known E (w_peers w) sck w"

definition mc_pending :: "'e srvenv_scheme \<Rightarrow> bytes \<Rightarrow> 'w srvworld_scheme \<Rightarrow> bool option" where
  "mc_pending E sck w = mc_known E (w_pending w) sck w"

text \<open>Adding a connection to the pending list; the result is its position there.\<close>

definition insert_pending :: "'e srvenv_scheme \<Rightarrow> mc \<Rightarrow> 'w srvworld_scheme \<Rightarrow> nat \<times> 'w srvworld_scheme" where
  "insert_pending E m w =
     (case v_insert (e_vmc E) (w_pending w) m of
        (v, i) \<Rightarrow> (i, w\<lparr>w_pending := v, w_pdgen := Suc (w_pdgen w)\<rparr>))"

definition mc_peer_connect ::
    "'e srvenv_scheme \<Rightarrow> bytes \<Rightarrow> u32 \<Rightarrow> 'w srvworld_scheme \<Rightarrow> (nat option \<times> 'w srvworld_scheme) option" where
  "mc_peer_connect E sock socklen w =
     do { est \<leftarrow> mc_established E sock w;
          if est then Some (None, w)
          else
            do { (err, tmp, w) \<leftarrow> mc_init E (no_mc\<lparr>m_flags := BUFFEREVENT_SSL_CONNECTING\<rparr>) (-1) sock socklen (w_ctx w) w;
                 if err = -1 then Some (None, w)
                 else
                   do { w \<leftarrow> bev_call E (Bev_setcb (m_bev tmp) ''server_mc'') (m_bev tmp) w;
                        let (err, w) = call E (Lev (Bev_connect (m_bev tmp) (take (unat socklen) sock))) w;
                        if err = -1 then Some (None, w)
                        else
                          do { w \<leftarrow> bev_call E (Bev_disable (m_bev tmp)) (m_bev tmp) w;
                               let (i, w) = insert_pending E tmp w;
                               Some (Some i, w) } } } }"

definition mc_peer_accept ::
    "'e srvenv_scheme \<Rightarrow> bytes \<Rightarrow> u32 \<Rightarrow> int \<Rightarrow> 'w srvworld_scheme \<Rightarrow> (nat option \<times> 'w srvworld_scheme) option" where
  "mc_peer_accept E sock socklen fd w =
     do { est \<leftarrow> mc_established E sock w;
          if est then Some (None, call0 E (Sys (Sys_close fd)) w)
          else
            do { (err, m, w) \<leftarrow> mc_init E (no_mc\<lparr>m_flags := BUFFEREVENT_SSL_ACCEPTING\<rparr>) fd sock socklen (w_ctx w) w;
                 if err = -1 then Some (None, w)
                 else
                   do { w \<leftarrow> bev_call E (Bev_setcb (m_bev m) ''server_mc'') (m_bev m) w;
                        w \<leftarrow> (if m_flags m AND TLS_ENABLE \<noteq> 0 then Some w
                              else bev_call E (Bev_disable (m_bev m)) (m_bev m) w);
                        let (i, w) = insert_pending E m w;
                        Some (Some i, w) } } }"

section \<open>What is said over a connection\<close>

definition crlf :: string where
  "crlf = [CHR 0x0D, CHR 0x0A]"

text \<open>The result of adding to the buffer is not used: the size is returned in any case.\<close>

definition mc_add_raw_data :: "'e env_scheme \<Rightarrow> mc \<Rightarrow> val \<Rightarrow> nat \<Rightarrow> 'w srvworld_scheme \<Rightarrow> (nat \<times> 'w srvworld_scheme) option" where
  "mc_add_raw_data E self data sz w =
     do { d \<leftarrow> b_load data sz w;
          w \<leftarrow> bev_call E (Bev_output (m_bev self) d) (m_bev self) w;
          Some (sz, w) }"

definition mc_hello :: "'e env_scheme \<Rightarrow> mc \<Rightarrow> 'w srun" where
  "mc_hello E self w =
     do { w \<leftarrow> bev_call E (Bev_enable (m_bev self)) (m_bev self) w;
          bev_call E (Bev_print (m_bev self) (''Hello ~!'' @ crlf)) (m_bev self) w }"

definition tunnel_line :: "u16 \<Rightarrow> string" where
  "tunnel_line port = ''udp_port:'' @ show_int (int (unat port))"

definition mc_establish_tunnel :: "'e env_scheme \<Rightarrow> mc \<Rightarrow> 'w srun" where
  "mc_establish_tunnel E self w =
     do { u \<leftarrow> w_udp w;
          port \<leftarrow> udp_get_port u;
          bev_call E (Bev_print (m_bev self) (tunnel_line port @ crlf)) (m_bev self) w }"

text \<open>What calls leave alone.\<close>

lemma logs_srv:
  assumes "logs w w'"
  shows "w_udp w' = w_udp w" "w_frames w' = w_frames w" "w_fgen w' = w_fgen w" "w_tap w' = w_tap w"
    "w_peers w' = w_peers w" "w_pgen w' = w_pgen w" "w_pending w' = w_pending w" "w_pdgen w' = w_pdgen w"
    "w_listeners w' = w_listeners w" "w_ctx w' = w_ctx w" "w_client w' = w_client w" "w_bevs w' = w_bevs w"
    "w_input w' = w_input w" "w_raw w' = w_raw w" "w_heap w' = w_heap w" "w_next w' = w_next w" "w_evbase w' = w_evbase w"
  using assms by (cases w; cases w'; simp add: logs_def)+

lemma mc_sock_heap: "w_heap w' = w_heap w \<Longrightarrow> mc_sock m w' = mc_sock m w"
  by (cases "m_address m") (simp_all add: mc_sock_def b_load_def)

end
