(* ===== verification/Server.thy ===== *)
theory Server
  imports Mc
begin

text \<open>
  The server (\<open>src/server.c\<close>, \<open>include/server.h\<close>): reading the lines of a meta-connection, the
  life of a meta-connection, accepting, the TLS context, starting and stopping. Diagnostics
  are not modelled, so values that are only printed are not read.
\<close>

section \<open>Lines\<close>

definition delimiters :: "char set" where
  "delimiters = {CHR '' '', CHR '':''}"

text \<open>
  Cutting a string at the first delimiter: the token, and what is kept for the next call. The
  C code writes a terminator over the delimiter; as every token is a suffix of the line up to
  a terminator, tokens are strings here.
\<close>

fun cut_token :: "char set \<Rightarrow> string \<Rightarrow> string \<times> string option" where
  "cut_token D [] = ([], None)"
| "cut_token D (c # s) = (if c \<in> D then ([], Some s) else (case cut_token D s of (t, r) \<Rightarrow> (c # t, r)))"

definition next_token :: "string option \<Rightarrow> string option \<Rightarrow> char set \<Rightarrow> string option \<times> string option" where
  "next_token ptr saveit D =
     (case ptr of
        None \<Rightarrow> (case saveit of None \<Rightarrow> (None, None) | Some p \<Rightarrow> (case cut_token D p of (t, r) \<Rightarrow> (Some t, r)))
      | Some p \<Rightarrow> (case cut_token D (dropWhile (\<lambda>c. c \<in> D) p) of (t, r) \<Rightarrow> (Some t, r)))"

lemma cut_token_shorter: "cut_token D s = (t, Some r) \<Longrightarrow> length r < length s"
  by (induction s arbitrary: t) (auto split: if_splits prod.splits)

text \<open>The loop of \<open>split\<close> after the first token.\<close>

function split_rest :: "string option \<Rightarrow> string list" where
  "split_rest saveptr =
     (case next_token None saveptr delimiters of (None, _) \<Rightarrow> [] | (Some t, r) \<Rightarrow> t # split_rest r)"
  by auto
termination
proof (relation "measure (\<lambda>p. case p of None \<Rightarrow> 0 | Some s \<Rightarrow> Suc (length s))", simp)
  fix saveptr x y t r
  assume "(x, y) = next_token None saveptr delimiters" "x = Some t"
  then show "(y, saveptr) \<in> measure (\<lambda>p. case p of None \<Rightarrow> 0 | Some s \<Rightarrow> Suc (length s))"
    by (auto simp: next_token_def split: option.splits prod.splits dest: cut_token_shorter)
qed

declare split_rest.simps [simp del]

definition split :: "string \<Rightarrow> string list" where
  "split line =
     (case next_token (Some line) None delimiters of (None, _) \<Rightarrow> [] | (Some t, r) \<Rightarrow> t # split_rest r)"

text \<open>Reading past the end of a vector is undefined.\<close>

definition at :: "'a list \<Rightarrow> nat \<Rightarrow> 'a option" where
  "at v i = (if i < length v then Some (v ! i) else None)"

text \<open>The part of a block before its terminator.\<close>

definition c_string :: "string \<Rightarrow> string" where
  "c_string s = takeWhile (\<lambda>c. c \<noteq> NUL) s"

definition handle_line :: "'e srvenv_scheme \<Rightarrow> mc \<Rightarrow> string \<Rightarrow> 'w srun" where
  "handle_line E m line w =
     do { let splited = split (c_string line);
          cmd_name \<leftarrow> at splited 0;
          if strncmp_eq (cstr cmd_name) (cstr ''udp_port'') (length cmd_name) = Some True
          then
            do { s_udp_port \<leftarrow> at splited 1;
                 v \<leftarrow> c_atoi (cstr s_udp_port);
                 let port = (word_of_int v :: u16);
                 sa \<leftarrow> mc_sock m w;
                 e \<leftarrow> endpoint_init sa (m_len m);
                 (_, w) \<leftarrow> udp_register_new_peer E (endpoint_set_port e (uint port)) DTLS_DISABLE w;
                 Some w }
          else Some w }"

fun read_lines :: "'e srvenv_scheme \<Rightarrow> mc \<Rightarrow> string list \<Rightarrow> 'w srun" where
  "read_lines E m [] w = Some w"
| "read_lines E m (l # ls) w = do { w \<leftarrow> handle_line E m l w; read_lines E m ls w }"

definition find_bev :: "'e srvenv_scheme \<Rightarrow> mc list \<Rightarrow> int \<Rightarrow> nat" where
  "find_bev E v bev = v_find_if (e_vmc E) (\<lambda>a. m_bev a = bev) v"

definition server_mc_read_cb :: "'e srvenv_scheme \<Rightarrow> int \<Rightarrow> 'w srun" where
  "server_mc_read_cb E bev w =
     (let i = find_bev E (w_peers w) bev in
      if i = length (w_peers w) then Some w
      else read_lines E (w_peers w ! i) (w_input w bev) (w\<lparr>w_input := (w_input w)(bev := [])\<rparr>))"

section \<open>Events of a meta-connection\<close>

definition BEV_EVENT_EOF :: int where "BEV_EVENT_EOF = 0x10"
definition BEV_EVENT_ERROR :: int where "BEV_EVENT_ERROR = 0x20"
definition BEV_EVENT_CONNECTED :: int where "BEV_EVENT_CONNECTED = 0x80"

definition pending_at :: "nat \<Rightarrow> nat \<Rightarrow> 'w srvworld_scheme \<Rightarrow> mc option" where
  "pending_at g i w = (if w_pdgen w = g then at (w_pending w) i else None)"

definition erase_pending :: "'e srvenv_scheme \<Rightarrow> nat \<Rightarrow> 'w srvworld_scheme \<Rightarrow> 'w srvworld_scheme" where
  "erase_pending E i w = w\<lparr>w_pending := v_erase (e_vmc E) (w_pending w) i, w_pdgen := Suc (w_pdgen w)\<rparr>"

definition erase_peer :: "'e srvenv_scheme \<Rightarrow> nat \<Rightarrow> 'w srvworld_scheme \<Rightarrow> 'w srvworld_scheme" where
  "erase_peer E i w = w\<lparr>w_peers := v_erase (e_vmc E) (w_peers w) i, w_pgen := Suc (w_pgen w)\<rparr>"

definition insert_peer :: "'e srvenv_scheme \<Rightarrow> mc \<Rightarrow> 'w srvworld_scheme \<Rightarrow> nat \<times> 'w srvworld_scheme" where
  "insert_peer E m w =
     (case v_insert (e_vmc E) (w_peers w) m of (v, i) \<Rightarrow> (i, w\<lparr>w_peers := v, w_pgen := Suc (w_pgen w)\<rparr>))"

text \<open>
  The certificate check: whether the connection goes on. A connection without one is erased
  from the list and then closed through the iterator that pointed to it.
\<close>

definition check_cert :: "'e srvenv_scheme \<Rightarrow> nat \<Rightarrow> mc \<Rightarrow> 'w srvworld_scheme \<Rightarrow> (bool \<times> 'w srvworld_scheme) option" where
  "check_cert E i m w =
     (if m_flags m AND TLS_ENABLE \<noteq> 0 then
        (if m_bev m \<notin> w_bevs w then None
         else
           let (ssl, w) = call E (Lev (Bev_get_ssl (m_bev m))) w; (cert, w) = call E (Tls (Ssl_peer_cert ssl)) w in
           if cert = 0 then
             (let g = w_pdgen w; w = erase_pending E i w
              in do { m \<leftarrow> pending_at g i w; w \<leftarrow> mc_close E m w; Some (False, w) })
           else Some (True, call0 E (Tls (Ssl_pubkey cert)) w))
      else Some (True, w))"

definition ev_connected :: "'e srvenv_scheme \<Rightarrow> int \<Rightarrow> 'w srun" where
  "ev_connected E bev w =
     (let i = find_bev E (w_pending w) bev in
      if i = length (w_pending w) then Some w
      else
        let m = w_pending w ! i in
        do { sa \<leftarrow> mc_sock m w;
             _ \<leftarrow> endpoint_init sa (m_len m);
             (go, w) \<leftarrow> check_cert E i m w;
             if \<not> go then Some w
             else
               do { let w = erase_pending E i w;
                    let (j, w) = insert_peer E m w;
                    m \<leftarrow> at (w_peers w) j;
                    w \<leftarrow> mc_hello E m w;
                    mc_establish_tunnel E m w } })"

definition find_udppeer :: "'e srvenv_scheme \<Rightarrow> bytes \<Rightarrow> udp_peer \<Rightarrow> bool" where
  "find_udppeer E sock a \<longleftrightarrow> e_cmp0 E (endpoint_addr (pe_addr a)) sock = 0"

text \<open>Removing the first UDP peer with the address of a connection, whatever its port.\<close>

definition drop_udppeer :: "'e srvenv_scheme \<Rightarrow> bytes \<Rightarrow> 'w srun" where
  "drop_udppeer E sock w =
     do { u \<leftarrow> w_udp w;
          let k = v_find_if (e_vpeer E) (find_udppeer E sock) (u_peers u);
          Some (if k = length (u_peers u) then w
                else w\<lparr>w_udp := Some (u\<lparr>u_peers := v_erase (e_vpeer E) (u_peers u) k, u_gen := Suc (u_gen u)\<rparr>)\<rparr>) }"

definition ev_eof :: "'e srvenv_scheme \<Rightarrow> int \<Rightarrow> 'w srun" where
  "ev_eof E bev w =
     (let i = find_bev E (w_peers w) bev in
      if i = length (w_peers w) then Some w
      else
        let m = w_peers w ! i in
        do { sock \<leftarrow> mc_sock m w;
             w \<leftarrow> drop_udppeer E sock w;
             w \<leftarrow> mc_close E m w;
             Some (erase_peer E i w) })"

text \<open>The queue of OpenSSL errors is emptied, for the log.\<close>

definition drain_ssl_errors :: "'e srvenv_scheme \<Rightarrow> int \<Rightarrow> 'w srvworld_scheme \<Rightarrow> 'w srvworld_scheme" where
  "drain_ssl_errors E bev w = (call0 E (Lev (Bev_ssl_error bev)) ^^ Suc (e_nerr E (w_log w) bev)) w"

definition ev_error :: "'e srvenv_scheme \<Rightarrow> int \<Rightarrow> 'w srun" where
  "ev_error E bev w =
     (let w = drain_ssl_errors E bev w; i = find_bev E (w_pending w) bev in
      if i \<noteq> length (w_pending w) then
        do { w' \<leftarrow> mc_close E (w_pending w ! i) w; Some (erase_pending E i w') }
      else
        let i = find_bev E (w_peers w) bev in
        if i \<noteq> length (w_peers w) then
          do { w' \<leftarrow> mc_close E (w_peers w ! i) w; Some (erase_peer E i w') }
        else Some w)"

definition server_mc_event_cb :: "'e srvenv_scheme \<Rightarrow> int \<Rightarrow> int \<Rightarrow> 'w srun" where
  "server_mc_event_cb E bev events w =
     (if events AND BEV_EVENT_CONNECTED \<noteq> 0 then ev_connected E bev w
      else if events AND BEV_EVENT_EOF \<noteq> 0 then ev_eof E bev w
      else if events AND BEV_EVENT_ERROR \<noteq> 0 then ev_error E bev w
      else Some w)"

text \<open>\<open>mc\<close> is dereferenced without a check.\<close>

definition listen_callback :: "'e srvenv_scheme \<Rightarrow> int \<Rightarrow> bytes \<Rightarrow> u32 \<Rightarrow> 'w srun" where
  "listen_callback E fd sock len w =
     do { (mc, w) \<leftarrow> mc_peer_accept E sock len fd w;
          i \<leftarrow> mc;
          m \<leftarrow> at (w_pending w) i;
          if m_flags m AND TLS_ENABLE = 0 then server_mc_event_cb E (m_bev m) BEV_EVENT_CONNECTED w
          else Some w }"

section \<open>TLS\<close>

text \<open>Every certificate is accepted.\<close>

definition server_preverify_cert :: "int \<Rightarrow> int" where
  "server_preverify_cert preverify_ok = 1"

definition server_verify_cert :: int where
  "server_verify_cert = 1"

text \<open>
  The context is used without a check, which is undefined if it could not be made. The files
  are loaded only if both are configured.
\<close>

definition evssl_init :: "'e env_scheme \<Rightarrow> options \<Rightarrow> 'w world_scheme \<Rightarrow> (int \<times> 'w world_scheme) option" where
  "evssl_init E opts w =
     (let (ctx, w) = call E (Tls (Ctx_new ''SSLv23'')) w in
      if ctx = 0 then None
      else
        let (failed, w) =
          (case (o_key_path opts, o_cert_path opts) of
             (Some key, Some cert) \<Rightarrow>
               (let (r, w) = call E (Tls (Ctx_chain ctx cert)) w in
                if r = 0 then (True, w)
                else let (r, w) = call E (Tls (Ctx_key ctx key)) w in (r = 0, w))
           | _ \<Rightarrow> (False, w))
        in if failed then Some (0, w)
           else Some (ctx, call0 E (Tls (Ctx_verify ctx ''server_preverify_cert'')) w))"

section \<open>Starting\<close>

text \<open>
  A listener per configured address, with the UDP side on the same address. Each iteration
  overwrites \<open>s->udp\<close>; a listener whose UDP side fails is dropped without being freed.
\<close>

fun init_listeners ::
    "'e srvenv_scheme \<Rightarrow> options \<Rightarrow> val \<Rightarrow> cfg_sockaddress list \<Rightarrow> 'w srun" where
  "init_listeners E opts s [] w = Some w"
| "init_listeners E opts s (a # as) w =
     (let (evl, w) = call E (Lev (Evl_bind ''listen_callback'' (take (nat (cs_len a)) (cs_sockaddr a)))) w in
      if evl = 0 then init_listeners E opts s as w
      else
        do { let w = call0 E (Lev (Evl_disable evl)) w;
             e \<leftarrow> endpoint_init (cs_sockaddr a) (word_of_int (cs_len a));
             (udp, w) \<leftarrow> server_udp_new E opts s e w;
             let w = w\<lparr>w_udp := udp\<rparr>;
             if udp = None then init_listeners E opts s as w
             else init_listeners E opts s as (w\<lparr>w_listeners := v_push (e_vevl E) (w_listeners w) evl\<rparr>) })"

fun init_client_listeners :: "'e srvenv_scheme \<Rightarrow> cfg_sockaddress list \<Rightarrow> 'w srvworld_scheme \<Rightarrow> 'w srvworld_scheme" where
  "init_client_listeners E [] w = w"
| "init_client_listeners E (a # as) w =
     (let (evl, w) = call E (Lev (Evl_bind ''listen_client_callback'' (take (nat (cs_len a)) (cs_sockaddr a)))) w in
      if evl = 0 then init_client_listeners E as w
      else
        let w = call0 E (Lev (Evl_enable evl)) w
        in init_client_listeners E as (w\<lparr>w_listeners := v_push (e_vevl E) (w_listeners w) evl\<rparr>))"

text \<open>
  Connecting to the configured peers. If a client were connected it would be told, with a
  structure of which only the name has been set; reading the rest of it is undefined.
\<close>

fun init_peers :: "'e srvenv_scheme \<Rightarrow> cfg_sockaddress list \<Rightarrow> 'w srun" where
  "init_peers E [] w = Some w"
| "init_peers E (a # as) w =
     do { (mc, w) \<leftarrow> mc_peer_connect E (cs_sockaddr a) (word_of_int (cs_len a)) w;
          if mc \<noteq> None \<and> m_bev (w_client w) \<noteq> 0 then None else init_peers E as w }"

definition server_init :: "'e srvenv_scheme \<Rightarrow> options \<Rightarrow> val \<Rightarrow> int \<Rightarrow> 'w srvworld_scheme \<Rightarrow> (int \<times> 'w srvworld_scheme) option" where
  "server_init E opts s evbase w =
     do { let w = w\<lparr>w_peers := [], w_pending := [], w_listeners := [], w_frames := [], w_evbase := evbase\<rparr>;
          w \<leftarrow> sched_new E evbase w;
          w \<leftarrow> init_listeners E opts s (o_listen_addrs opts) w;
          let w = init_client_listeners E (o_client_addrs opts) w;
          if o_peer_addrs opts = [] then Some (0, w)
          else do { w \<leftarrow> init_peers E (o_peer_addrs opts) w; Some (0, w) } }"

section \<open>Stopping\<close>

fun close_all :: "'e srvenv_scheme \<Rightarrow> mc list \<Rightarrow> 'w srun" where
  "close_all E [] w = Some w"
| "close_all E (m # ms) w = do { w \<leftarrow> mc_close E m w; close_all E ms w }"

definition server_delete :: "'e srvenv_scheme \<Rightarrow> 'w srun" where
  "server_delete E w =
     do { let w = fold (\<lambda>evl. call0 E (Lev (Evl_free evl))) (w_listeners w) w;
          w \<leftarrow> server_udp_exit E w;
          w \<leftarrow> close_all E (w_pending w) w;
          w \<leftarrow> close_all E (w_peers w) w;
          w \<leftarrow> free_frames (w_frames w) w;
          Some (if w_ctx w \<noteq> 0 then call0 E (Tls (Ctx_free (w_ctx w))) w else w) }"

end
