(* ===== verification/Meta.thy ===== *)
theory Meta
  imports Server Udp_Recv
begin

text \<open>
  The language of the meta-connections: the tokens of a line, and what one daemon understands
  of what another one says.
\<close>

section \<open>Tokens\<close>

text \<open>The reference: the fields between delimiters, empty ones included.\<close>

fun fields :: "char set \<Rightarrow> string \<Rightarrow> string list" where
  "fields D [] = [[]]"
| "fields D (c # s) =
     (if c \<in> D then [] # fields D s else (case fields D s of f # fs \<Rightarrow> (c # f) # fs | [] \<Rightarrow> [[c]]))"

lemma fields_nonempty [simp]: "fields D s \<noteq> []"
  by (cases s) (auto split: list.splits)

lemma cut_token_fields:
  "fields D s = (case cut_token D s of (t, None) \<Rightarrow> [t] | (t, Some r) \<Rightarrow> t # fields D r)"
  by (induction s) (auto split: prod.splits option.splits list.splits)

lemma split_rest_fields: "split_rest (Some s) = fields delimiters s"
proof (induction s rule: measure_induct_rule [where f = length])
  case (less s)
  obtain t r where c: "cut_token delimiters s = (t, r)" by (cases "cut_token delimiters s")
  show ?case
  proof (cases r)
    case None
    then show ?thesis
      using c by (simp add: split_rest.simps [of "Some s"] split_rest.simps [of None] next_token_def cut_token_fields [of _ s])
  next
    case (Some q)
    then show ?thesis
      using c less [of q] cut_token_shorter [of delimiters s t q]
      by (simp add: split_rest.simps [of "Some s"] next_token_def cut_token_fields [of _ s])
  qed
qed

lemma split_fields: "split line = fields delimiters (dropWhile (\<lambda>c. c \<in> delimiters) line)"
proof -
  let ?s = "dropWhile (\<lambda>c. c \<in> delimiters) line"
  obtain t r where c: "cut_token delimiters ?s = (t, r)" by (cases "cut_token delimiters ?s")
  show ?thesis
    using c split_rest_fields
    by (cases r) (simp_all add: split_def next_token_def cut_token_fields [of _ ?s] split_rest.simps [of None])
qed

text \<open>
  Claim C34. \<open>split\<close>, with the state \<open>next_token\<close> keeps between calls, computes the fields of the
  line after its leading delimiters: a field for every delimiter and one more, the empty ones
  included. In particular there always is a first field, and an empty line has just an empty
  one.
\<close>

theorem split_is_fields:
  "split line = fields delimiters (dropWhile (\<lambda>c. c \<in> delimiters) line) \<and> split line \<noteq> [] \<and> split [] = [[]]"
  by (simp add: split_fields)

lemma fields_none: "(\<forall>c \<in> set s. c \<notin> D) \<Longrightarrow> fields D s = [s]"
  by (induction s) auto

lemma fields_one: "(\<forall>c \<in> set s. c \<notin> D) \<Longrightarrow> d \<in> D \<Longrightarrow> fields D (s @ d # r) = s # fields D r"
  by (induction s) auto

section \<open>Telling a port\<close>

lemma digit_no_delim: "d < 10 \<Longrightarrow> digit_char d \<notin> delimiters"
proof -
  assume d: "d < 10"
  have "(of_char (digit_char d) :: nat) = 48 + d" using d by (simp add: digit_char_def)
  then have "digit_char d \<noteq> CHR '' ''" "digit_char d \<noteq> CHR '':''" using d by auto
  then show ?thesis by (simp add: delimiters_def)
qed

lemma show_nat_no_delim: "c \<in> set (show_nat n) \<Longrightarrow> c \<notin> delimiters \<and> c \<noteq> NUL"
  using show_nat_digits [of c n] digit_no_delim by auto

lemma split_tunnel: "split (c_string (tunnel_line p)) = [''udp_port'', show_nat (unat p)]"
proof -
  let ?n = "show_nat (unat p)"
  have l: "tunnel_line p = ''udp_port'' @ CHR '':'' # ?n" by (simp add: tunnel_line_def show_int_def)
  have d: "\<forall>c \<in> set ''udp_port''. c \<notin> delimiters \<and> c \<noteq> NUL" "CHR '':'' \<in> delimiters" "CHR '':'' \<noteq> NUL"
    by (simp_all add: delimiters_def NUL_def)
  have "c_string (tunnel_line p) = tunnel_line p"
    using d show_nat_no_delim unfolding c_string_def l by (subst takeWhile_eq_all_conv) auto
  moreover have "dropWhile (\<lambda>c. c \<in> delimiters) (tunnel_line p) = tunnel_line p"
    unfolding l by (simp add: delimiters_def)
  moreover have "fields delimiters (tunnel_line p) = [''udp_port'', ?n]"
    unfolding l using d show_nat_no_delim fields_none [of ?n delimiters] by (subst fields_one) auto
  ultimately show ?thesis by (simp add: split_fields)
qed

lemma endpoint_init_exact:
  "length sa \<le> sizeof_storage \<Longrightarrow> endpoint_init sa (word_of_nat (length sa)) = Some (sender_ep sa)"
  by (simp add: endpoint_init_def copy_addr_def sender_ep_def ep_consts)

lemma port_of_key:
  assumes "ep_ok a" and "ep_ok b" and "sa_key (e_addr a) = sa_key (e_addr b)"
  shows "endpoint_port a = endpoint_port b"
  using assms by (auto simp: endpoint_port_def sa_key_def ep_ok_def)

lemma handle_tunnel_line:
  assumes "vec_ok (e_vpeer E)" and "sockaddr_cmp_ok (e_cmp E)" and "w_udp w = Some u"
    and "mc_sock m w = Some sa" and "m_len m = word_of_nat (length sa)" and "length sa \<le> sizeof_storage"
    and "ep_ok (sender_ep sa)"
  shows "\<exists>w' u' q. handle_line E m (tunnel_line p) w = Some w' \<and> w_udp w' = Some u'
    \<and> mset (u_peers u') = add_mset q (mset (u_peers u)) \<and> pe_flags q = DTLS_DISABLE
    \<and> endpoint_cmp (e_cmp E) (pe_addr q) (endpoint_set_port (sender_ep sa) (uint p)) = 0
    \<and> endpoint_port (pe_addr q) = Some (uint p) \<and> logs (w\<lparr>w_udp := Some u'\<rparr>) w'"
proof -
  let ?r = "endpoint_set_port (sender_ep sa) (uint p)"
  have n: "unat p < 2 ^ 16" using unsigned_less [of p] by simp
  have m: "uint p mod 65536 = uint p" using uint_lt2p [of p] by simp
  have ok: "ep_ok ?r" "endpoint_port ?r = Some (uint p)"
    using endpoint_set_port_ok [OF assms(7), of "uint p"] m by simp_all
  from udp_register_ok [OF assms(1,2) ok(1) assms(3), of DTLS_DISABLE]
  obtain i w' u' q where x: "udp_register_new_peer E ?r DTLS_DISABLE w = Some (i, w')" "w_udp w' = Some u'"
    "mset (u_peers u') = add_mset q (mset (u_peers u))" "endpoint_cmp (e_cmp E) (pe_addr q) ?r = 0" "ep_ok (pe_addr q)"
    "sa_key (e_addr (pe_addr q)) = sa_key (e_addr ?r)" "pe_flags q = DTLS_DISABLE"
    "logs (w\<lparr>w_udp := Some u'\<rparr>) w'"
    by blast
  have "c_atoi (cstr (show_nat (unat p))) = Some (uint p)" using n atoi_show [of "unat p"] by simp
  moreover have "strncmp_eq (cstr ''udp_port'') (cstr ''udp_port'') (length ''udp_port'') = Some True"
    by (simp add: cstr_def NUL_def numeral_eq_Suc)
  moreover have "uint (word_of_int (uint p) :: u16) = uint p" by simp
  ultimately have "handle_line E m (tunnel_line p) w = Some w'"
    using x(1) assms(4) endpoint_init_exact [OF assms(6)] assms(5)
    by (simp add: handle_line_def split_tunnel at_def del: of_int_of_nat_eq)
  moreover have "endpoint_port (pe_addr q) = Some (uint p)" using port_of_key [OF x(5) ok(1) x(6)] ok(2) by simp
  ultimately show ?thesis using x by blast
qed

lemma handle_hello: "handle_line E m ''Hello ~!'' w = Some w"
proof -
  have "split (c_string ''Hello ~!'') = [''Hello'', ''~!'']"
    by (simp add: split_fields c_string_def NUL_def delimiters_def)
  then show ?thesis by (simp add: handle_line_def at_def cstr_def NUL_def)
qed

text \<open>
  The bytes a daemon has printed to a connection, and the lines the other side reads from
  them: a line ends with a line feed, a carriage return before it is not part of the line.
\<close>

definition said :: "int \<Rightarrow> history \<Rightarrow> string" where
  "said bev h = concat (map (\<lambda>(c, r). case c of Lev (Bev_print b s) \<Rightarrow> if b = bev then s else [] | _ \<Rightarrow> []) h)"

fun eol_lines :: "string \<Rightarrow> string \<Rightarrow> string list" where
  "eol_lines acc [] = []"
| "eol_lines acc (c # s) =
     (if c = CHR 0x0A then rev (if acc \<noteq> [] \<and> hd acc = CHR 0x0D then tl acc else acc) # eol_lines [] s
      else eol_lines (c # acc) s)"

lemma eol_line: "(\<forall>c \<in> set s. c \<noteq> CHR 0x0A) \<Longrightarrow> eol_lines acc (s @ crlf @ r) = (rev acc @ s) # eol_lines [] r"
  by (induction s arbitrary: acc) (auto simp: crlf_def)

lemma tunnel_line_no_lf: "\<forall>c \<in> set (tunnel_line p). c \<noteq> CHR 0x0A"
proof
  fix c
  assume "c \<in> set (tunnel_line p)"
  then have "c \<in> set ''udp_port:'' \<or> c \<in> set (show_nat (unat p))"
    by (auto simp: tunnel_line_def show_int_def)
  then show "c \<noteq> CHR 0x0A"
  proof
    assume "c \<in> set (show_nat (unat p))"
    then obtain d where "c = digit_char d" "d < 10" using show_nat_digits by auto
    then have "(of_char c :: nat) = 48 + d" by (simp add: digit_char_def)
    then show ?thesis by auto
  qed auto
qed

lemma established_says:
  assumes "mc_hello E m w = Some wh" and "mc_establish_tunnel E m wh = Some wt"
    and "w_udp w = Some u" and "udp_get_port u = Some p"
  shows "said (m_bev m) (drop (length (w_log w)) (w_log wt)) = ''Hello ~!'' @ crlf @ tunnel_line p @ crlf"
  using assms
  by (auto simp: mc_hello_def mc_establish_tunnel_def bev_call_def call0_def call_def Let_def said_def split: if_splits option.splits)

lemma find_bev_unique:
  assumes "vec_ok (e_vmc E)" and "m \<in> set v" and "distinct (map m_bev v)"
  shows "find_bev E v (m_bev m) < length v \<and> v ! find_bev E v (m_bev m) = m"
proof -
  let ?i = "find_bev E v (m_bev m)"
  have i: "?i < length v" "m_bev (v ! ?i) = m_bev m"
    using vec_find [OF assms(1), of "\<lambda>a. m_bev a = m_bev m" v] assms(2) by (auto simp: find_bev_def)
  obtain j where j: "j < length v" "v ! j = m" using assms(2) by (auto simp: in_set_conv_nth)
  have "?i = j" using nth_eq_iff_index_eq [OF assms(3), of ?i j] i j by simp
  with i j show ?thesis by simp
qed

text \<open>
  Claim C7. Two daemons understand each other. What one prints on a new connection (its
  greeting and the port of its UDP socket), read as lines by the other from an established
  connection, is taken by the other without error: exactly one UDP peer is added there, with
  the address of the connection and the port that was announced, without DTLS, and the input
  is consumed.
\<close>

theorem tunnel_roundtrip:
  assumes "mc_hello Ea ma wa = Some wh" and "mc_establish_tunnel Ea ma wh = Some wt"
    and "w_udp wa = Some ua" and "udp_get_port ua = Some p"
    and "w_input w (m_bev m) = eol_lines [] (said (m_bev ma) (drop (length (w_log wa)) (w_log wt)))"
    and "vec_ok (e_vmc E)" and "m \<in> set (w_peers w)" and "distinct (map m_bev (w_peers w))"
    and "vec_ok (e_vpeer E)" and "sockaddr_cmp_ok (e_cmp E)" and "w_udp w = Some u"
    and "mc_sock m w = Some sa" and "m_len m = word_of_nat (length sa)" and "length sa \<le> sizeof_storage"
    and "ep_ok (sender_ep sa)"
  shows "\<exists>w' u' q. server_mc_read_cb E (m_bev m) w = Some w' \<and> w_input w' (m_bev m) = [] \<and> w_peers w' = w_peers w
    \<and> w_udp w' = Some u' \<and> mset (u_peers u') = add_mset q (mset (u_peers u)) \<and> pe_flags q = DTLS_DISABLE
    \<and> endpoint_cmp (e_cmp E) (pe_addr q) (endpoint_set_port (sender_ep sa) (uint p)) = 0
    \<and> endpoint_port (pe_addr q) = Some (uint p)"
proof -
  let ?w = "w\<lparr>w_input := (w_input w)(m_bev m := [])\<rparr>"
  have "eol_lines [] (tunnel_line p @ crlf) = [tunnel_line p]"
    using eol_line [of "tunnel_line p" "[]" "[]"] tunnel_line_no_lf by simp
  then have l: "w_input w (m_bev m) = [''Hello ~!'', tunnel_line p]"
    unfolding assms(5) established_says [OF assms(1-4)] by (subst eol_line) simp_all
  have s: "mc_sock m ?w = Some sa" using assms(12) mc_sock_heap [of ?w w m] by simp
  from handle_tunnel_line [OF assms(9,10), of ?w u, OF _ s assms(13-15), of p] assms(11)
  obtain w' u' q where h: "handle_line E m (tunnel_line p) ?w = Some w'" "w_udp w' = Some u'" "logs (?w\<lparr>w_udp := Some u'\<rparr>) w'"
    "mset (u_peers u') = add_mset q (mset (u_peers u))" "pe_flags q = DTLS_DISABLE"
    "endpoint_cmp (e_cmp E) (pe_addr q) (endpoint_set_port (sender_ep sa) (uint p)) = 0" "endpoint_port (pe_addr q) = Some (uint p)"
    by auto
  have "server_mc_read_cb E (m_bev m) w = Some w'"
    using find_bev_unique [OF assms(6-8)] h(1) by (simp add: server_mc_read_cb_def l handle_hello)
  moreover have "w_input w' (m_bev m) = []" "w_peers w' = w_peers w" using logs_srv [OF h(3)] by simp_all
  ultimately show ?thesis using h by blast
qed

section \<open>What a peer can break\<close>

lemma strncmp_prefix: "NUL \<notin> set s \<Longrightarrow> strncmp_eq (cstr s) (cstr (s @ r)) (length s) = Some True"
  by (induction s) (auto simp: cstr_def)

text \<open>
  Claim C37. A line whose only field is a beginning of \<open>udp_port\<close>, in particular an empty line,
  takes the reader past the end of the vector of fields: the comparison goes no further than
  the length of the peer's word, and the port is then taken from a second field that is not
  there. Any established peer can send it.
\<close>

theorem short_line_undefined:
  assumes "vec_ok (e_vmc E)" and "m \<in> set (w_peers w)" and "distinct (map m_bev (w_peers w))"
    and "w_input w (m_bev m) = l # ls" and "split (c_string l) = [cmd]" and "''udp_port'' = cmd @ r"
  shows "server_mc_read_cb E (m_bev m) w = None"
proof -
  have "NUL \<notin> set ''udp_port''" by (simp add: NUL_def)
  then have "strncmp_eq (cstr cmd) (cstr ''udp_port'') (length cmd) = Some True"
    unfolding assms(6) by (intro strncmp_prefix) simp
  then have "handle_line E m l (w\<lparr>w_input := i\<rparr>) = None" for i
    using assms(5) by (simp add: handle_line_def at_def)
  then show ?thesis
    using find_bev_unique [OF assms(1-3)] assms(4) by (simp add: server_mc_read_cb_def)
qed

text \<open>
  A connection from the address of an established peer, whatever its port, is closed
  and then used through the null pointer that stands for it.
\<close>

lemma listen_known_undefined:
  assumes "vec_ok (e_vmc E)" and "m \<in> set (w_peers w)" and "mc_sock m w = Some a" and "e_cmp0 E a sock = 0"
  shows "listen_callback E fd sock len w = None"
proof -
  have "find_established E w sock m" using assms(3,4) by (simp add: find_established_def)
  then have "v_find_if (e_vmc E) (find_established E w sock) (w_peers w) \<noteq> length (w_peers w)"
    using vec_find [OF assms(1), of "find_established E w sock" "w_peers w"] assms(2) by auto
  then have "mc_established E sock w \<in> {None, Some True}"
    by (simp add: mc_established_def mc_known_def)
  then show ?thesis by (auto simp: listen_callback_def mc_peer_accept_def)
qed

section \<open>Concrete connections\<close>

text \<open>
  A daemon with one established peer at 10.0.0.1, whose socket is 51 and on which \<open>ls\<close> waits.
  New sockets get fresh addresses, larger than every result so far.
\<close>

definition demo_senv :: "bool \<Rightarrow> srvenv" where
  "demo_senv al = \<lparr>e_ret = (\<lambda>h c. case c of Lev (Bev_new fd) \<Rightarrow> 100 + sum_list (map (\<lambda>x. \<bar>snd x\<bar>) h)
       | Lev (Bev_new_ssl fd ssl fl) \<Rightarrow> 100 + sum_list (map (\<lambda>x. \<bar>snd x\<bar>) h)
       | Lev (Evl_bind cb sa) \<Rightarrow> 2 | Lev (Ev_new fd what k) \<Rightarrow> 2 | Tls (Ssl_peer_cert ssl) \<Rightarrow> 2 | _ \<Rightarrow> 0),
     e_err = (\<lambda>h c. EAGAIN), e_out = (\<lambda>h c. []), e_adr = (\<lambda>h c. demo_adr), e_alloc = (\<lambda>k. al), e_junk = (\<lambda>k i. 0xAA),
     m_find = (\<lambda>m k. m k), m_insert = (\<lambda>m k v. Some (m(k \<mapsto> v))),
     e_vframe = list_vec, e_vpeer = list_vec, e_cmp = demo_cmp, e_bio = (\<lambda>h. (5, 6)),
     e_vmc = list_vec, e_vevl = list_vec, e_cmp0 = (\<lambda>a b. if take 4 (drop 4 a) = take 4 (drop 4 b) then 0 else 1),
     e_nerr = (\<lambda>h b. 2)\<rparr>"

definition demo_mc :: mc where
  "demo_mc = \<lparr>m_address = Vptr 4 0, m_len = 16, m_bev = 51, m_flags = TLS_DISABLE, m_tunel = 0\<rparr>"

definition demo_sworld :: "string list \<Rightarrow> srvworld" where
  "demo_sworld ls = \<lparr>w_log = [(Lev (Bev_new 3), 51)], w_errno = E0, w_heap = [4 \<mapsto> demo_adr], w_next = 10, w_fibers = Map.empty, w_args = Map.empty,
     w_maps = Map.empty, w_sched = \<lparr>sc_evbase = 1, sc_origin = None\<rparr>, w_ctxs = {},
     w_udp = Some (demo_udp\<lparr>u_endpoint := demo_ep\<rparr>), w_frames = [], w_fgen = 0, w_tap = 6,
     w_peers = [demo_mc], w_pgen = 0, w_pending = [], w_pdgen = 0, w_listeners = [2], w_evbase = 3, w_ctx = 0, w_client = no_mc,
     w_devfib = None, w_bevs = {51}, w_input = (\<lambda>b. ls), w_raw = (\<lambda>b. [])\<rparr>"

lemma demo_senv_ok [simp]:
  "vec_ok (e_vmc (demo_senv al))" "vec_ok (e_vpeer (demo_senv al))" "sockaddr_cmp_ok (e_cmp (demo_senv al))"
  "e_alloc (demo_senv al) = (\<lambda>k. al)"
  by (simp_all add: demo_senv_def)

lemma demo_sworld_ok [simp]:
  "w_peers (demo_sworld ls) = [demo_mc]" "w_input (demo_sworld ls) b = ls" "m_bev demo_mc = 51" "m_len demo_mc = 16"
  "w_udp (demo_sworld ls) = Some (demo_udp\<lparr>u_endpoint := demo_ep\<rparr>)" "mc_sock demo_mc (demo_sworld ls) = Some demo_adr"
  "w_bevs (demo_sworld ls) = {51}" "w_pending (demo_sworld ls) = []"
  by (simp_all add: demo_sworld_def demo_mc_def mc_sock_def b_load_def mem_read_def demo_adr_def)

theorem short_line_undefined_witness:
  "server_mc_read_cb (demo_senv True) 51 (demo_sworld [[]]) = None"
proof -
  have "split (c_string []) = [[]]" by (simp add: split_fields c_string_def)
  then show ?thesis
    using short_line_undefined [of "demo_senv True" demo_mc "demo_sworld [[]]" "[]" "[]" "[]" "''udp_port''"] by simp
qed

lemma listen_known_undefined_witness:
  "listen_callback (demo_senv True) 9 demo_adr 16 (demo_sworld []) = None"
  using listen_known_undefined [of "demo_senv True" demo_mc "demo_sworld []" demo_adr demo_adr 9 16]
  by (simp add: demo_senv_def)

lemma demo_sender_ep [simp]: "ep_ok (sender_ep demo_adr)"
  by (simp add: sender_ep_def demo_adr_def ep_ok_def ep_consts ss_family_def of_le16_def)

theorem tunnel_roundtrip_witness:
  "\<exists>wh wt w' u' q. mc_hello (demo_senv True) demo_mc (demo_sworld []) = Some wh
    \<and> mc_establish_tunnel (demo_senv True) demo_mc wh = Some wt
    \<and> server_mc_read_cb (demo_senv True) 51 (demo_sworld (eol_lines [] (said 51 (drop 1 (w_log wt))))) = Some w'
    \<and> w_udp w' = Some u' \<and> size (mset (u_peers u')) = 3 \<and> q \<in># mset (u_peers u') \<and> endpoint_port (pe_addr q) = Some 4242"
proof -
  let ?E = "demo_senv True" and ?u = "demo_udp\<lparr>u_endpoint := demo_ep\<rparr>"
  have p: "udp_get_port ?u = Some 4242"
    by (simp add: udp_get_port_def endpoint_port_def demo_ep_def ss_family_def of_le16_def ep_consts raw_port_def ntohs_def htons_def)
  obtain wh where h: "mc_hello ?E demo_mc (demo_sworld []) = Some wh" "w_udp wh = Some ?u" "w_bevs wh = {51}"
    by (simp add: mc_hello_def bev_call_def logs_srv [OF logs_call0])
  obtain wt where t: "mc_establish_tunnel ?E demo_mc wh = Some wt"
    using h p by (simp add: mc_establish_tunnel_def bev_call_def)
  have l: "length (w_log (demo_sworld [])) = 1" by (simp add: demo_sworld_def)
  have n: "size (mset (u_peers ?u)) = 2" by (simp add: demo_udp_def)
  show ?thesis
    using tunnel_roundtrip [OF h(1) t, of ?u 4242 "demo_sworld (eol_lines [] (said 51 (drop 1 (w_log wt))))" demo_mc ?E ?u demo_adr]
      h(1) t p l n by (auto simp del: size_mset set_mset_mset)
qed

end
