(* ===== verification/Client.thy ===== *)
theory Client
  imports Server
begin

text \<open>
  The connection of the graphical client (\<open>src/client.c\<close>, \<open>include/client.h\<close>, and
  \<open>listen_client_callback\<close> of \<open>src/server.c\<close>). The commands are parsed and printed by the
  library libtclt, which is a parameter: \<open>t_commands\<close> are the commands it finds in a text,
  \<open>t_ip\<close> the address field of its peers, \<open>t_add_peer\<close> the text of a command, or failure.
\<close>

datatype 'p command = ADD_PEER_CMD 'p | DELETE_PEER_CMD string

record 'p tclt =
  t_commands :: "string \<Rightarrow> 'p command list"
  t_ip :: "'p \<Rightarrow> string"
  t_add_peer :: "'p \<Rightarrow> string option"

text \<open>
  A peer the client asks for: the daemon connects to it and repeats the command to the client.
  The address is parsed into zeroed storage.
\<close>

definition add_peer ::
    "'e srvenv_scheme \<Rightarrow> parse_sockaddr \<Rightarrow> 'p tclt \<Rightarrow> int \<Rightarrow> 'p \<Rightarrow> 'w srvworld_scheme \<Rightarrow> (int \<times> 'w srvworld_scheme) option" where
  "add_peer E parse T bev p w =
     (case parse (t_ip T p) sizeof_storage of
        None \<Rightarrow> Some (1, w)
      | Some sa \<Rightarrow>
          do { (tmp, w) \<leftarrow> mc_peer_connect E (sa @ replicate (sizeof_storage - length sa) 0) (word_of_nat (length sa)) w;
               if tmp = None then Some (1, w)
               else
                 case t_add_peer T p of
                   None \<Rightarrow> Some (2, w)
                 | Some cmd \<Rightarrow> do { w \<leftarrow> bev_call E (Bev_print bev cmd) bev w; Some (0, w) } })"

definition delete_peer :: int where
  "delete_peer = 0"

text \<open>The table of callbacks that \<open>client_init_callback\<close> installs.\<close>

definition client_init_callback ::
    "'e srvenv_scheme \<Rightarrow> parse_sockaddr \<Rightarrow> 'p tclt \<Rightarrow> int \<Rightarrow> 'p command \<Rightarrow> 'w srvworld_scheme \<Rightarrow> (int \<times> 'w srvworld_scheme) option" where
  "client_init_callback E parse T bev c w =
     (case c of ADD_PEER_CMD p \<Rightarrow> add_peer E parse T bev p w | DELETE_PEER_CMD _ \<Rightarrow> Some (delete_peer, w))"

fun run_commands :: "'e srvenv_scheme \<Rightarrow> parse_sockaddr \<Rightarrow> 'p tclt \<Rightarrow> int \<Rightarrow> 'p command list \<Rightarrow> 'w srun" where
  "run_commands E parse T bev [] w = Some w"
| "run_commands E parse T bev (c # cs) w =
     do { (_, w) \<leftarrow> client_init_callback E parse T bev c w; run_commands E parse T bev cs w }"

text \<open>
  What the client sent is taken in pieces of at most 4095 characters, each of which is parsed by
  itself.
\<close>

function client_read ::
    "'e srvenv_scheme \<Rightarrow> parse_sockaddr \<Rightarrow> 'p tclt \<Rightarrow> int \<Rightarrow> string \<Rightarrow> 'w srun" where
  "client_read E parse T bev inp w =
     (if inp = [] then Some w
      else
        do { w \<leftarrow> run_commands E parse T bev (t_commands T (c_string (take 4095 inp))) w;
             client_read E parse T bev (drop 4095 inp) w })"
  by pat_completeness auto
termination by (relation "measure (\<lambda>(E, parse, T, bev, inp, w). length inp)") simp_all

declare client_read.simps [simp del]

definition client_mc_read_cb :: "'e srvenv_scheme \<Rightarrow> parse_sockaddr \<Rightarrow> 'p tclt \<Rightarrow> int \<Rightarrow> 'w srun" where
  "client_mc_read_cb E parse T bev w =
     client_read E parse T bev (w_raw w bev) (w\<lparr>w_raw := (w_raw w)(bev := [])\<rparr>)"

text \<open>The connection is kept when it fails or ends.\<close>

definition client_mc_event_cb :: "'e srvenv_scheme \<Rightarrow> int \<Rightarrow> int \<Rightarrow> 'w srvworld_scheme \<Rightarrow> 'w srvworld_scheme" where
  "client_mc_event_cb E bev events w =
     (if events AND BEV_EVENT_ERROR \<noteq> 0 then drain_ssl_errors E bev w else w)"

text \<open>A new client takes the place of the one before, which is not closed.\<close>

definition listen_client_callback :: "'e srvenv_scheme \<Rightarrow> int \<Rightarrow> bytes \<Rightarrow> u32 \<Rightarrow> 'w srun" where
  "listen_client_callback E fd sock len w =
     do { (errcode, m, w) \<leftarrow> mc_init E (no_mc\<lparr>m_flags := BUFFEREVENT_SSL_ACCEPTING\<rparr>) fd sock len (w_ctx w) w;
          let w = w\<lparr>w_client := m\<rparr>;
          if errcode \<noteq> -1 then bev_call E (Bev_setcb (m_bev m) ''client_mc'') (m_bev m) w else Some w }"

end
