(* ===== verification/Peers.thy ===== *)
theory Peers
  imports Meta Client
begin

text \<open>
  The life of the meta-connections: the invariant of the two lists of the server, that every
  handler keeps it, that the handlers implement a small abstract machine (a connection is
  opened, established, closed), and when the handlers are defined.
\<close>

section \<open>Sockets and the log\<close>

text \<open>
  The buffered sockets that are live after a log: the ones made and not freed. libevent does
  not hand out a socket that is live.
\<close>

fun live_step :: "xcall \<times> int \<Rightarrow> int set \<Rightarrow> int set" where
  "live_step (Lev (Bev_new fd), r) B = (if r = 0 then B else insert r B)"
| "live_step (Lev (Bev_new_ssl fd ssl fl), r) B = (if r = 0 then B else insert r B)"
| "live_step (Lev (Bev_free b), r) B = B - {b}"
| "live_step _ B = B"

definition live_bevs :: "history \<Rightarrow> int set" where
  "live_bevs h = fold live_step h {}"

fun makes_bev :: "xcall \<Rightarrow> bool" where
  "makes_bev (Lev (Bev_new fd)) = True"
| "makes_bev (Lev (Bev_new_ssl fd ssl fl)) = True"
| "makes_bev _ = False"

fun quiet :: "xcall \<Rightarrow> bool" where
  "quiet (Lev (Bev_new fd)) = False"
| "quiet (Lev (Bev_new_ssl fd ssl fl)) = False"
| "quiet (Lev (Bev_free b)) = False"
| "quiet _ = True"

definition bevs_fresh :: "'e env_scheme \<Rightarrow> bool" where
  "bevs_fresh E \<longleftrightarrow> (\<forall>h c. makes_bev c \<longrightarrow> e_ret E h c \<notin> live_bevs h)"

definition tracks :: "'w srvworld_scheme \<Rightarrow> bool" where
  "tracks w \<longleftrightarrow> w_bevs w = live_bevs (w_log w)"

lemma live_snoc: "live_bevs (h @ [x]) = live_step x (live_bevs h)"
  by (simp add: live_bevs_def)

lemma live_quiet: "quiet c \<Longrightarrow> live_step (c, r) B = B"
  by (cases "((c, r), B)" rule: live_step.cases) auto

lemma live_makes: "makes_bev c \<Longrightarrow> live_step (c, r) B = (if r = 0 then B else insert r B)"
  by (cases "((c, r), B)" rule: live_step.cases) auto

lemma live_nonzero: "0 \<notin> live_bevs h"
proof (induction h rule: rev_induct)
  case (snoc x h)
  then show ?case by (cases "(x, live_bevs h)" rule: live_step.cases) (auto simp: live_snoc)
qed (simp add: live_bevs_def)

lemma tracks_call: "tracks w \<Longrightarrow> quiet c \<Longrightarrow> call E c w = (r, w') \<Longrightarrow> tracks w'"
  by (auto simp: tracks_def call_def Let_def live_snoc live_quiet)

lemma tracks_call0 [simp]: "tracks w \<Longrightarrow> quiet c \<Longrightarrow> tracks (call0 E c w)"
  using tracks_call [of w c E "fst (call E c w)" "snd (call E c w)"] by (simp add: call0_def)

text \<open>Nothing the connections depend on has changed.\<close>

definition keeps :: "'w srvworld_scheme \<Rightarrow> 'w srvworld_scheme \<Rightarrow> bool" where
  "keeps w w' \<longleftrightarrow> w_peers w' = w_peers w \<and> w_pending w' = w_pending w \<and> w_udp w' = w_udp w \<and> w_ctx w' = w_ctx w
     \<and> (tracks w \<longrightarrow> tracks w')"

lemma keeps_refl [simp]: "keeps w w"
  by (simp add: keeps_def)

lemma keeps_trans: "keeps w w1 \<Longrightarrow> keeps w1 w2 \<Longrightarrow> keeps w w2"
  by (simp add: keeps_def)

lemma bev_call_spec:
  assumes "bev_call E c b w = Some w'" and "quiet (Lev c)"
  shows "keeps w w'" "logs w w'" "b \<in> w_bevs w"
  using assms logs_srv [OF logs_call0 [of w E "Lev c"]]
  by (auto simp: bev_call_def keeps_def split: if_splits)

lemma bev_call_ok: "b \<in> w_bevs w \<Longrightarrow> bev_call E c b w = Some (call0 E (Lev c) w)"
  by (simp add: bev_call_def)

lemma bev_free_spec:
  assumes "bev_free E b w = Some w'"
  shows "keeps w w'" "w_bevs w' = w_bevs w - {b}" "w_heap w' = w_heap w" "w_next w' = w_next w" "b \<in> w_bevs w"
  using assms logs_srv [OF logs_call0 [of w E "Lev (Bev_free b)"]]
  by (auto simp: bev_free_def bev_call_def keeps_def tracks_def call0_def call_def Let_def live_snoc split: if_splits)

lemma bev_new_spec:
  assumes "bev_new E c w = (b, w')" and "makes_bev (Lev c)"
  shows "keeps w w'" "w_bevs w' = (if b = 0 then w_bevs w else insert b (w_bevs w))" "w_heap w' = w_heap w" "w_next w' = w_next w"
    and "bevs_fresh E \<Longrightarrow> tracks w \<Longrightarrow> b \<notin> w_bevs w"
proof -
  have e: "b = e_ret E (w_log w) (Lev c)" "w_log w' = w_log w @ [(Lev c, b)]"
    and k: "w_peers w' = w_peers w" "w_pending w' = w_pending w" "w_udp w' = w_udp w" "w_ctx w' = w_ctx w"
    and b: "w_bevs w' = (if b = 0 then w_bevs w else insert b (w_bevs w))"
    using assms(1) by (auto simp: bev_new_def call_def Let_def)
  show "w_bevs w' = (if b = 0 then w_bevs w else insert b (w_bevs w))" by (rule b)
  show "w_heap w' = w_heap w" "w_next w' = w_next w" using assms(1) by (auto simp: bev_new_def call_def Let_def)
  show "keeps w w'" using e k b live_makes [OF assms(2)] by (simp add: keeps_def tracks_def live_snoc)
  show "bevs_fresh E \<Longrightarrow> tracks w \<Longrightarrow> b \<notin> w_bevs w" using e assms(2) by (simp add: bevs_fresh_def tracks_def)
qed

section \<open>The invariant\<close>

text \<open>
  A connection in a list: its socket is live and its address is a block of its own with the
  recorded length, no longer than any socket address.
\<close>

definition mc_ok :: "'w srvworld_scheme \<Rightarrow> mc \<Rightarrow> bool" where
  "mc_ok w m \<longleftrightarrow> m_bev m \<in> w_bevs w \<and> unat (m_len m) \<le> sizeof_storage
     \<and> (\<exists>b blk. m_address m = Vptr b 0 \<and> b < w_next w \<and> w_heap w b = Some blk \<and> length blk = unat (m_len m))"

definition conns_ok :: "'w srvworld_scheme \<Rightarrow> mc list \<Rightarrow> bool" where
  "conns_ok w cs \<longleftrightarrow> distinct (map m_bev cs) \<and> distinct (map m_address cs) \<and> list_all (mc_ok w) cs"

definition srv_inv :: "'w srvworld_scheme \<Rightarrow> bool" where
  "srv_inv w \<longleftrightarrow> tracks w \<and> conns_ok w (w_pending w @ w_peers w)"

lemma distinct_map_cong: "mset cs = mset cs' \<Longrightarrow> distinct (map f cs) = distinct (map f cs')"
  by (metis mset_eq_imp_distinct_iff mset_map)

lemma conns_cong: "mset cs = mset cs' \<Longrightarrow> conns_ok w cs = conns_ok w cs'"
  using distinct_map_cong [of cs cs' m_bev] distinct_map_cong [of cs cs' m_address] mset_eq_setD [of cs cs']
  by (simp add: conns_ok_def list_all_iff)

lemma conns_same:
  "w_bevs w' = w_bevs w \<Longrightarrow> w_heap w' = w_heap w \<Longrightarrow> w_next w' = w_next w \<Longrightarrow> conns_ok w' cs = conns_ok w cs"
  by (simp add: conns_ok_def mc_ok_def list_all_iff)

text \<open>Opening and closing.\<close>

lemma conns_open:
  assumes "conns_ok w cs" and "w_bevs w' = insert (m_bev m) (w_bevs w)" and "m_bev m \<notin> w_bevs w"
    and "m_address m = Vptr (w_next w) 0" and "w_heap w' = (w_heap w)(w_next w \<mapsto> d)" and "w_next w' = Suc (w_next w)"
    and "length d = unat (m_len m)" and "unat (m_len m) \<le> sizeof_storage"
  shows "conns_ok w' (m # cs)"
proof -
  have old: "m_bev c \<noteq> m_bev m \<and> m_address c \<noteq> m_address m \<and> mc_ok w' c" if "c \<in> set cs" for c
  proof -
    have "mc_ok w c" using assms(1) that by (simp add: conns_ok_def list_all_iff)
    then obtain b blk where c: "m_bev c \<in> w_bevs w" "unat (m_len c) \<le> sizeof_storage" "m_address c = Vptr b 0" "b < w_next w"
      "w_heap w b = Some blk" "length blk = unat (m_len c)"
      by (auto simp: mc_ok_def)
    have "m_bev c \<noteq> m_bev m" using c(1) assms(3) by auto
    moreover have "m_address c \<noteq> m_address m" using c(3,4) assms(4) by simp
    moreover have "mc_ok w' c" using c assms(2,5,6) by (simp add: mc_ok_def)
    ultimately show ?thesis by blast
  qed
  have "mc_ok w' m" using assms(2,4-8) by (simp add: mc_ok_def)
  moreover have "m_bev m \<notin> m_bev ` set cs" "m_address m \<notin> m_address ` set cs" using old by force+
  ultimately show ?thesis using old assms(1) by (simp add: conns_ok_def list_all_iff)
qed

lemma conns_other:
  assumes "conns_ok w (m # cs)" and "c \<in> set cs"
  shows "mc_ok w c" "m_bev c \<noteq> m_bev m" "m_address c \<noteq> m_address m"
  using assms by (simp_all add: conns_ok_def list_all_iff image_iff) metis+

lemma conns_close:
  assumes "conns_ok w (m # cs)" and "m_address m = Vptr b 0"
    and "w_bevs w' = w_bevs w - {m_bev m}" and "w_heap w' = (w_heap w)(b := None)" and "w_next w' = w_next w"
  shows "conns_ok w' cs"
proof -
  have "mc_ok w' c" if "c \<in> set cs" for c
  proof -
    have "mc_ok w c" "m_bev c \<noteq> m_bev m" "m_address c \<noteq> Vptr b 0"
      using conns_other [OF assms(1) that] assms(2) by simp_all
    then show ?thesis using assms(3-5) by (auto simp: mc_ok_def)
  qed
  then show ?thesis using assms(1) by (auto simp: conns_ok_def list_all_iff)
qed

section \<open>Opening and closing\<close>

lemma keeps_call: "call E c w = (r, w') \<Longrightarrow> quiet c \<Longrightarrow> keeps w w'"
  using logs_srv [OF logs_call [of E c w r w']] tracks_call [of w c E r w'] by (simp add: keeps_def)

lemma keeps_call0: "quiet c \<Longrightarrow> keeps w (call0 E c w)"
  using logs_srv [OF logs_call0 [of w E c]] by (simp add: keeps_def)

lemma keeps_call0_trans: "keeps w w1 \<Longrightarrow> quiet c \<Longrightarrow> keeps w (call0 E c w1)"
  using keeps_call0 keeps_trans by blast

lemma keeps_heap: "keeps w (w\<lparr>w_heap := h\<rparr>)" "keeps w (w\<lparr>w_heap := h, w_next := n\<rparr>)" "keeps w (w\<lparr>w_next := n\<rparr>)"
  by (simp_all add: keeps_def tracks_def)

lemma shutdown_spec:
  assumes "mc_shutdown E m w = Some w'"
  shows "keeps w w'" "logs w w'"
proof -
  have "keeps w w' \<and> logs w w'"
  proof (cases "m_flags m AND TLS_ENABLE \<noteq> 0")
    case True
    obtain ssl w1 where c: "call E (Lev (Bev_get_ssl (m_bev m))) w = (ssl, w1)" by fastforce
    have k: "keeps w w1" "logs w w1" using keeps_call [OF c] logs_call [OF c] by simp_all
    have "w' = call0 E (Tls (Ssl_shutdown ssl)) (call0 E (Tls (Ssl_set_shutdown ssl)) w1)"
      using assms True c by (simp add: mc_shutdown_def split: if_splits)
    then show ?thesis
      using k keeps_call0 [of "Tls (Ssl_set_shutdown ssl)" w1 E]
        keeps_call0 [of "Tls (Ssl_shutdown ssl)" "call0 E (Tls (Ssl_set_shutdown ssl)) w1" E]
      by (auto intro: keeps_trans logs_call0_trans)
  qed (use assms in \<open>simp add: mc_shutdown_def\<close>)
  then show "keeps w w'" "logs w w'" by simp_all
qed

lemma shutdown_ok: "m_bev m \<in> w_bevs w \<Longrightarrow> \<exists>w'. mc_shutdown E m w = Some w'"
  by (simp add: mc_shutdown_def split: prod.split)

lemma mc_close_spec:
  assumes "mc_close E m w = Some w'" and "m_address m = Vptr b 0"
  shows "keeps w w'" "w_bevs w' = w_bevs w - {m_bev m}" "w_heap w' = (w_heap w)(b := None)" "w_next w' = w_next w"
proof -
  obtain w1 where s: "keeps w w1" "logs w w1" and f: "b_free (m_address m) w1 \<bind> bev_free E (m_bev m) = Some w'"
    using assms(1) shutdown_spec [of E m w] unfolding mc_close_def bind_eq_Some_conv by blast
  have "bev_free E (m_bev m) (w1\<lparr>w_heap := (w_heap w1)(b := None)\<rparr>) = Some w'"
    using f assms(2) by (auto simp: b_free_def split: if_splits)
  note x = bev_free_spec [OF this] and l = logs_srv [OF s(2)]
  show "keeps w w'" using s(1) x(1) keeps_heap(1) [of w1] keeps_trans by blast
  show "w_bevs w' = w_bevs w - {m_bev m}" "w_heap w' = (w_heap w)(b := None)" "w_next w' = w_next w"
    using x(2-4) l by simp_all
qed

lemma mc_close_ok:
  assumes "mc_ok w m"
  shows "\<exists>w'. mc_close E m w = Some w'"
proof -
  obtain b blk where m: "m_bev m \<in> w_bevs w" "m_address m = Vptr b 0" "w_heap w b = Some blk" using assms by (auto simp: mc_ok_def)
  obtain w1 where s: "mc_shutdown E m w = Some w1" using shutdown_ok [OF m(1)] by blast
  show ?thesis
    using m s logs_srv [OF shutdown_spec(2) [OF s]] by (simp add: mc_close_def b_free_def bev_free_def bev_call_def)
qed

lemma mc_close_conns:
  assumes "conns_ok w (m # cs)" and "mc_close E m w = Some w'"
  shows "conns_ok w' cs"
proof -
  obtain b where b: "m_address m = Vptr b 0" using assms(1) by (auto simp: conns_ok_def mc_ok_def)
  show ?thesis by (rule conns_close [OF assms(1) b mc_close_spec(2-4) [OF assms(2) b]])
qed

lemma mc_open_bev_spec:
  assumes "mc_open_bev E self fd server_ctx w = (m, w')"
  shows "keeps w w'" "w_bevs w' = (if m_bev m = 0 then w_bevs w else insert (m_bev m) (w_bevs w))" "w_heap w' = w_heap w" "w_next w' = w_next w"
    "bevs_fresh E \<Longrightarrow> tracks w \<Longrightarrow> m_bev m \<notin> w_bevs w" "m_flags m = (if server_ctx \<noteq> 0 then TLS_ENABLE else TLS_DISABLE)"
proof -
  have "keeps w w' \<and> w_bevs w' = (if m_bev m = 0 then w_bevs w else insert (m_bev m) (w_bevs w)) \<and> w_heap w' = w_heap w \<and> w_next w' = w_next w
    \<and> (bevs_fresh E \<longrightarrow> tracks w \<longrightarrow> m_bev m \<notin> w_bevs w) \<and> m_flags m = (if server_ctx \<noteq> 0 then TLS_ENABLE else TLS_DISABLE)"
  proof (cases "server_ctx = 0")
    case True
    obtain bev w2 where n: "bev_new E (Bev_new fd) w = (bev, w2)" by fastforce
    note x = bev_new_spec [OF n]
    show ?thesis using assms True n x by (auto simp: mc_open_bev_def)
  next
    case False
    obtain ssl w1 where c: "call E (Tls (Ssl_new server_ctx)) w = (ssl, w1)" by fastforce
    obtain bev w2 where n: "bev_new E (Bev_new_ssl fd ssl (m_flags self)) w1 = (bev, w2)" by fastforce
    note x = bev_new_spec [OF n] and l = logs_srv [OF logs_call [OF c]] and k = keeps_call [OF c]
    have "keeps w w2" using k x(1) keeps_trans by auto
    moreover have "tracks w \<longrightarrow> tracks w1" using k by (simp add: keeps_def)
    ultimately show ?thesis using assms False c n x(2-5) l by (auto simp: mc_open_bev_def)
  qed
  then show "keeps w w'" "w_bevs w' = (if m_bev m = 0 then w_bevs w else insert (m_bev m) (w_bevs w))" "w_heap w' = w_heap w" "w_next w' = w_next w"
    "bevs_fresh E \<Longrightarrow> tracks w \<Longrightarrow> m_bev m \<notin> w_bevs w" "m_flags m = (if server_ctx \<noteq> 0 then TLS_ENABLE else TLS_DISABLE)"
    by blast+
qed

text \<open>A new socket and a copy of the address given.\<close>

definition opened :: "mc \<Rightarrow> bytes \<Rightarrow> u32 \<Rightarrow> 'w srvworld_scheme \<Rightarrow> 'w srvworld_scheme \<Rightarrow> bool" where
  "opened m sock len w w' \<longleftrightarrow> m_bev m \<notin> w_bevs w \<and> w_bevs w' = insert (m_bev m) (w_bevs w) \<and> m_address m = Vptr (w_next w) 0
     \<and> w_heap w' = (w_heap w)(w_next w \<mapsto> take (unat len) sock) \<and> w_next w' = Suc (w_next w) \<and> m_len m = len \<and> unat len \<le> length sock"

lemma conns_opened:
  assumes "conns_ok w cs" and "opened m sock len w w'" and "unat len \<le> sizeof_storage"
  shows "conns_ok w' (m # cs)"
  using assms conns_open [of w cs w' m "take (unat len) sock"] by (simp add: opened_def)

lemma mc_init_spec:
  assumes i: "mc_init E self fd sock len ctx w = Some (r, m, w')" and f: "bevs_fresh E" "tracks w"
  shows "keeps w w'" "w_next w' = Suc (w_next w)"
    "r = 0 \<and> opened m sock len w w' \<and> m_flags m = (if ctx \<noteq> 0 then TLS_ENABLE else TLS_DISABLE)
     \<or> r = -1 \<and> w_bevs w' = w_bevs w \<and> w_heap w' = w_heap w"
proof -
  obtain tmp w1 where n: "b_new E (unat len) w = (tmp, w1)" by fastforce
  obtain m0 w2 where b: "mc_open_bev E self fd ctx w1 = (m0, w2)" by fastforce
  have w1: "keeps w w1" "w_next w1 = Suc (w_next w)" "w_bevs w1 = w_bevs w"
    "tmp = null \<and> w_heap w1 = w_heap w
     \<or> tmp = Vptr (w_next w) 0 \<and> w_heap w1 = (w_heap w)(w_next w \<mapsto> block_junk E (w_next w) (unat len))"
    using n by (auto simp: b_new_def o_new_def keeps_def tracks_def split: if_splits)
  have t1: "tracks w1" using w1(1) f(2) by (simp add: keeps_def)
  note x = mc_open_bev_spec [OF b] and fr = mc_open_bev_spec(5) [OF b f(1) t1]
  have k2: "keeps w w2" using w1(1) x(1) keeps_trans by blast
  have t2: "tracks w2" using k2 f(2) by (simp add: keeps_def)
  have "keeps w w' \<and> w_next w' = Suc (w_next w) \<and> (r = 0 \<and> opened m sock len w w' \<and> m_flags m = (if ctx \<noteq> 0 then TLS_ENABLE else TLS_DISABLE)
     \<or> r = -1 \<and> w_bevs w' = w_bevs w \<and> w_heap w' = w_heap w)"
  proof (cases "tmp = null \<or> m_bev m0 = 0")
    case True
    obtain w3 where c: "bev_free E (m_bev m0) w2 = Some w3" "b_free tmp w3 = Some w'" "r = -1"
      using i n b True by (auto simp: mc_init_def bind_eq_Some_conv)
    note y = bev_free_spec [OF c(1)]
    have "m_bev m0 \<noteq> 0" using y(5) t2 live_nonzero [of "w_log w2"] by (auto simp: tracks_def)
    with True have "tmp = null" "w' = w3" using c(2) by (auto simp: b_free_def)
    with y c(3) x w1 fr k2 show ?thesis using \<open>m_bev m0 \<noteq> 0\<close> by (auto intro: keeps_trans)
  next
    case False
    let ?d = "take (unat len) sock"
    from False i n b obtain w3 where c: "unat len \<le> length sock" "b_store tmp ?d w2 = Some w3"
      "bev_call E (Bev_enable (m_bev m0)) (m_bev m0) w3 = Some w'" "m = m0\<lparr>m_address := tmp, m_len := len\<rparr>" "r = 0"
      by (auto simp: mc_init_def bind_eq_Some_conv mem_read_def split: if_splits)
    have t: "tmp = Vptr (w_next w) 0" "w_heap w2 (w_next w) = Some (block_junk E (w_next w) (unat len))"
      "w_heap w2 = (w_heap w)(w_next w \<mapsto> block_junk E (w_next w) (unat len))"
      using False w1(4) x(3) by auto
    have "length ?d = length (block_junk E (w_next w) (unat len))" using c(1) by (simp add: block_junk_def)
    then have w3: "w3 = w2\<lparr>w_heap := (w_heap w)(w_next w \<mapsto> ?d)\<rparr>"
      using c(2) b_store_at [OF t(2), of ?d] t(1,3) by (simp add: put_bytes_def)
    have y: "keeps w3 w'" "logs w3 w'" using bev_call_spec [OF c(3)] by simp_all
    have "keeps w2 w3" by (simp add: w3 keeps_heap)
    then have "keeps w w'" using k2 y(1) keeps_trans by blast
    then show ?thesis using c(1,4,5) t(1) x fr w1(2,3) False logs_srv [OF y(2)] w3 by (auto simp: opened_def)
  qed
  then show "keeps w w'" "w_next w' = Suc (w_next w)"
    "r = 0 \<and> opened m sock len w w' \<and> m_flags m = (if ctx \<noteq> 0 then TLS_ENABLE else TLS_DISABLE)
     \<or> r = -1 \<and> w_bevs w' = w_bevs w \<and> w_heap w' = w_heap w"
    by blast+
qed

section \<open>Sessions\<close>

text \<open>
  The abstract machine: a session is a socket with a phase and the address of the other side.
  It is opened pending, may become established, and may be closed.
\<close>

datatype phase = Pending | Established

type_synonym sessions = "int \<Rightarrow> (phase \<times> bytes) option"

inductive session_step :: "sessions \<Rightarrow> sessions \<Rightarrow> bool" where
  Open: "S b = None \<Longrightarrow> session_step S (S(b \<mapsto> (Pending, a)))"
| Establish: "S b = Some (Pending, a) \<Longrightarrow> session_step S (S(b \<mapsto> (Established, a)))"
| Close: "S b = Some p \<Longrightarrow> session_step S (S(b := None))"

text \<open>The sessions of the two lists.\<close>

definition mc_addr :: "'w srvworld_scheme \<Rightarrow> mc \<Rightarrow> bytes" where
  "mc_addr w m = (case mc_sock m w of None \<Rightarrow> [] | Some a \<Rightarrow> a)"

definition entries :: "'w srvworld_scheme \<Rightarrow> mc list \<Rightarrow> mc list \<Rightarrow> (int \<times> phase \<times> bytes) list" where
  "entries w pend est =
     map (\<lambda>m. (m_bev m, Pending, mc_addr w m)) pend @ map (\<lambda>m. (m_bev m, Established, mc_addr w m)) est"

definition sess :: "'w srvworld_scheme \<Rightarrow> mc list \<Rightarrow> mc list \<Rightarrow> sessions" where
  "sess w pend est = map_of (entries w pend est)"

definition sessions_of :: "'w srvworld_scheme \<Rightarrow> sessions" where
  "sessions_of w = sess w (w_pending w) (w_peers w)"

lemma fst_entries: "map fst (entries w pend est) = map m_bev (pend @ est)"
  by (simp add: entries_def)

lemma sess_perm:
  assumes "distinct (map m_bev (pend @ est))" and "mset pend = mset pend'" and "mset est = mset est'"
  shows "sess w pend est = sess w pend' est'"
proof -
  have "mset (pend @ est) = mset (pend' @ est')" using assms(2,3) by simp
  then have "distinct (map m_bev (pend' @ est'))" using assms(1) distinct_map_cong by blast
  moreover have "set (entries w pend est) = set (entries w pend' est')"
    using mset_eq_setD [OF assms(2)] mset_eq_setD [OF assms(3)] by (simp add: entries_def)
  ultimately show ?thesis
    using assms(1) map_of_inject_set [of "entries w pend est" "entries w pend' est'"] by (simp add: sess_def fst_entries)
qed

lemma sess_pending: "sess w (m # pend) est = (sess w pend est)(m_bev m \<mapsto> (Pending, mc_addr w m))"
  by (simp add: sess_def entries_def)

lemma sess_established:
  assumes "distinct (map m_bev (pend @ m # est))"
  shows "sess w pend (m # est) = (sess w pend est)(m_bev m \<mapsto> (Established, mc_addr w m))"
proof -
  let ?e = "(m_bev m, Established, mc_addr w m)"
  have "distinct (map fst (entries w pend (m # est)))" unfolding fst_entries by (rule assms)
  moreover have "distinct (map fst (?e # entries w pend est))" using assms by (simp add: fst_entries)
  moreover have "set (entries w pend (m # est)) = set (?e # entries w pend est)" by (auto simp: entries_def)
  ultimately have "map_of (entries w pend (m # est)) = map_of (?e # entries w pend est)"
    using map_of_inject_set by blast
  then show ?thesis by (simp add: sess_def)
qed

lemma sess_none: "b \<notin> m_bev ` set (pend @ est) \<Longrightarrow> sess w pend est b = None"
  unfolding sess_def by (subst map_of_eq_None_iff) (auto simp: entries_def)

lemma sess_heap:
  assumes "\<forall>m \<in> set (pend @ est). mc_sock m w' = mc_sock m w"
  shows "sess w' pend est = sess w pend est"
proof -
  have "\<forall>m \<in> set (pend @ est). mc_addr w' m = mc_addr w m" using assms by (simp add: mc_addr_def)
  then have "entries w' pend est = entries w pend est" by (simp add: entries_def)
  then show ?thesis by (simp add: sess_def)
qed

text \<open>The address of a connection is where it was.\<close>

lemma mc_ok_sock:
  assumes "mc_ok w m" and "m_address m = Vptr b 0"
  shows "mc_sock m w = w_heap w b"
  using assms by (auto simp: mc_ok_def mc_sock_def b_load_def mem_read_def)

lemma sock_other:
  assumes "mc_ok w m" and "mc_ok w' m" and "w_heap w' = (w_heap w)(b := x)" and "m_address m \<noteq> Vptr b 0"
  shows "mc_sock m w' = mc_sock m w"
proof -
  obtain c where "m_address m = Vptr c 0" using assms(1) by (auto simp: mc_ok_def)
  then show ?thesis using mc_ok_sock [OF assms(1)] mc_ok_sock [OF assms(2)] assms(3,4) by auto
qed

section \<open>Handlers\<close>

text \<open>Adding an opened connection to the pending list.\<close>

lemma insert_pending_step:
  assumes inv: "srv_inv w" and o: "opened m sock len w w1" "keeps w w1" and len: "unat len \<le> sizeof_storage"
    and l: "logs w1 w2" "keeps w1 w2" and i: "insert_pending E m w2 = (i, w')" and V: "vec_ok (e_vmc E)"
  shows "srv_inv w'" "at (w_pending w') i = Some m" "w_peers w' = w_peers w" "w_udp w' = w_udp w" "w_ctx w' = w_ctx w"
    "sessions_of w (m_bev m) = None" "sessions_of w' = (sessions_of w)(m_bev m \<mapsto> (Pending, take (unat len) sock))"
proof -
  obtain v where v: "v_insert (e_vmc E) (w_pending w2) m = (v, i)" "w' = w2\<lparr>w_pending := v, w_pdgen := Suc (w_pdgen w2)\<rparr>"
    using i by (auto simp: insert_pending_def split: prod.splits)
  note vi = vec_insert [OF V v(1)] and s = logs_srv [OF l(1)]
  have p: "w_peers w' = w_peers w" "w_udp w' = w_udp w" "w_ctx w' = w_ctx w" "w_pending w2 = w_pending w"
    "tracks w'" "w_heap w' = w_heap w1" "w_next w' = w_next w1" "w_bevs w' = w_bevs w1"
    using v o(2) l(2) s inv by (simp_all add: keeps_def srv_inv_def tracks_def)
  show "w_peers w' = w_peers w" "w_udp w' = w_udp w" "w_ctx w' = w_ctx w" by (fact p)+
  show "at (w_pending w') i = Some m" using vi v(2) by (simp add: at_def)
  have m: "mset (w_pending w') = mset (m # w_pending w)" using vi(1) v(2) p(4) by simp
  have o': "opened m sock len w w'" using o(1) p(6-8) by (simp add: opened_def)
  have cs: "conns_ok w (w_pending w @ w_peers w)" using inv by (simp add: srv_inv_def)
  have c': "conns_ok w' (m # w_pending w @ w_peers w)" using conns_opened [OF cs o' len] .
  moreover have "mset (w_pending w' @ w_peers w') = mset (m # w_pending w @ w_peers w)" using m p(1) by simp
  ultimately show "srv_inv w'" using conns_cong p(5) unfolding srv_inv_def by blast
  have b: "m_bev m \<notin> w_bevs w" "m_address m = Vptr (w_next w) 0" "w_heap w' = (w_heap w)(w_next w \<mapsto> take (unat len) sock)"
    using o' by (simp_all add: opened_def)
  have "m_bev m \<notin> m_bev ` set (w_pending w @ w_peers w)"
    using cs b(1) by (auto simp: conns_ok_def list_all_iff mc_ok_def)
  then show "sessions_of w (m_bev m) = None" using sess_none by (simp add: sessions_of_def)
  have "mc_addr w' m = take (unat len) sock"
    using mc_ok_sock [of w' m "w_next w"] c' b by (simp add: mc_addr_def conns_ok_def)
  moreover have "sess w' (w_pending w) (w_peers w) = sess w (w_pending w) (w_peers w)"
  proof (intro sess_heap ballI)
    fix c
    assume c: "c \<in> set (w_pending w @ w_peers w)"
    then have "mc_ok w c" "mc_ok w' c" "m_address c \<noteq> Vptr (w_next w) 0"
      using cs conns_other [OF c' c] b(2) c by (auto simp: conns_ok_def list_all_iff)
    then show "mc_sock c w' = mc_sock c w" using sock_other b(3) by blast
  qed
  moreover have "sess w' (w_pending w') (w_peers w') = sess w' (m # w_pending w) (w_peers w)"
    using sess_perm [of "m # w_pending w" "w_peers w" "w_pending w'" "w_peers w'" w'] c' m p(1) by (simp add: conns_ok_def)
  ultimately show "sessions_of w' = (sessions_of w)(m_bev m \<mapsto> (Pending, take (unat len) sock))"
    by (simp add: sessions_of_def sess_pending)
qed

text \<open>Steps that leave the connections as they are; memory and sockets may have been added.\<close>

lemma same_conns_step:
  assumes inv: "srv_inv w" and t: "tracks w'" and p: "w_pending w' = w_pending w" "w_peers w' = w_peers w"
    and g: "w_bevs w \<subseteq> w_bevs w'" "w_next w \<le> w_next w'" "\<forall>b < w_next w. w_heap w' b = w_heap w b"
  shows "srv_inv w'" "sessions_of w' = sessions_of w"
proof -
  let ?cs = "w_pending w @ w_peers w"
  have "mc_ok w' m \<and> mc_sock m w' = mc_sock m w" if "mc_ok w m" for m
  proof -
    obtain b blk where m: "m_bev m \<in> w_bevs w" "unat (m_len m) \<le> sizeof_storage" "m_address m = Vptr b 0" "b < w_next w"
      "w_heap w b = Some blk" "length blk = unat (m_len m)"
      using \<open>mc_ok w m\<close> by (auto simp: mc_ok_def)
    moreover have "w_heap w' b = Some blk" using m(4,5) g(3) by simp
    ultimately have "mc_ok w' m" using g(1,2) by (auto simp: mc_ok_def)
    moreover have "mc_sock m w' = mc_sock m w"
      using mc_ok_sock [OF \<open>mc_ok w m\<close> m(3)] mc_ok_sock [OF \<open>mc_ok w' m\<close> m(3)] m(4) g(3) by simp
    ultimately show ?thesis by blast
  qed
  moreover have "conns_ok w ?cs" using inv by (simp add: srv_inv_def)
  ultimately show "srv_inv w'" "sessions_of w' = sessions_of w"
    using t p sess_heap [of "w_pending w" "w_peers w" w' w] by (auto simp: srv_inv_def conns_ok_def list_all_iff sessions_of_def)
qed

lemma keeps_step:
  assumes "srv_inv w" and "keeps w w'" and "w_bevs w \<subseteq> w_bevs w'" "w_next w \<le> w_next w'" "\<forall>b < w_next w. w_heap w' b = w_heap w b"
  shows "srv_inv w'" "sessions_of w' = sessions_of w"
  using same_conns_step [of w w'] assms by (simp_all add: keeps_def srv_inv_def)

lemma accept_step:
  assumes inv: "srv_inv w" and V: "vec_ok (e_vmc E)" and f: "bevs_fresh E" and len: "unat len \<le> sizeof_storage"
    and a: "mc_peer_accept E sock len fd w = Some (r, w')"
  shows "srv_inv w' \<and> w_peers w' = w_peers w \<and> w_udp w' = w_udp w
    \<and> (r = None \<and> sessions_of w' = sessions_of w
       \<or> (\<exists>i m. r = Some i \<and> at (w_pending w') i = Some m \<and> sessions_of w (m_bev m) = None
            \<and> m_flags m = (if w_ctx w \<noteq> 0 then TLS_ENABLE else TLS_DISABLE)
            \<and> sessions_of w' = (sessions_of w)(m_bev m \<mapsto> (Pending, take (unat len) sock))))"
proof (cases "mc_established E sock w = Some True")
  case True
  then have "r = None" "w' = call0 E (Sys (Sys_close fd)) w" using a by (simp_all add: mc_peer_accept_def)
  moreover have "keeps w (call0 E (Sys (Sys_close fd)) w)" by (rule keeps_call0) simp
  moreover note logs_srv [OF logs_call0 [of w E "Sys (Sys_close fd)"]]
  ultimately show ?thesis using keeps_step [of w w'] inv by (simp add: keeps_def)
next
  case False
  then obtain err m w1 where i: "mc_init E (no_mc\<lparr>m_flags := BUFFEREVENT_SSL_ACCEPTING\<rparr>) fd sock len (w_ctx w) w = Some (err, m, w1)"
    and e: "(if err = -1 then Some (None, w1)
       else do { w \<leftarrow> bev_call E (Bev_setcb (m_bev m) ''server_mc'') (m_bev m) w1;
                 w \<leftarrow> (if m_flags m AND TLS_ENABLE \<noteq> 0 then Some w else bev_call E (Bev_disable (m_bev m)) (m_bev m) w);
                 let (i, w) = insert_pending E m w;
                 Some (Some i, w) }) = Some (r, w')"
    using a by (auto simp: mc_peer_accept_def bind_eq_Some_conv split: if_splits)
  have t: "tracks w" using inv by (simp add: srv_inv_def)
  note x = mc_init_spec [OF i f t]
  show ?thesis
  proof (cases "err = -1")
    case True
    then have "r = None" "w' = w1" using e by simp_all
    then show ?thesis using keeps_step [OF inv x(1)] x True by (simp add: keeps_def)
  next
    case False
    then obtain w2 w3 where s: "bev_call E (Bev_setcb (m_bev m) ''server_mc'') (m_bev m) w1 = Some w2"
      and d: "(if m_flags m AND TLS_ENABLE \<noteq> 0 then Some w2 else bev_call E (Bev_disable (m_bev m)) (m_bev m) w2) = Some w3"
      and n: "(let (i, w) = insert_pending E m w3 in Some (Some i, w)) = Some (r, w')"
      using e by (simp only: if_False bind_eq_Some_conv) blast
    obtain j where j: "insert_pending E m w3 = (j, w')" "r = Some j" using n by (cases "insert_pending E m w3") simp
    have l: "keeps w1 w2" "logs w1 w2" using bev_call_spec [OF s] by simp_all
    have "keeps w2 w3 \<and> logs w2 w3"
      using d bev_call_spec [of E "Bev_disable (m_bev m)" "m_bev m" w2 w3] by (auto split: if_splits)
    then have l3: "keeps w1 w3" "logs w1 w3" using l keeps_trans logs_trans by blast+
    have o: "opened m sock len w w1" "m_flags m = (if w_ctx w \<noteq> 0 then TLS_ENABLE else TLS_DISABLE)" using x(3) False by auto
    show ?thesis using insert_pending_step [OF inv o(1) x(1) len l3(2,1) j(1) V] o(2) j(2) by blast
  qed
qed

lemma connect_step:
  assumes inv: "srv_inv w" and V: "vec_ok (e_vmc E)" and f: "bevs_fresh E" and len: "unat len \<le> sizeof_storage"
    and a: "mc_peer_connect E sock len w = Some (r, w')"
  shows "srv_inv w' \<and> w_peers w' = w_peers w \<and> w_udp w' = w_udp w
    \<and> (r = None \<and> sessions_of w' = sessions_of w
       \<or> (\<exists>i m. r = Some i \<and> at (w_pending w') i = Some m \<and> sessions_of w (m_bev m) = None
            \<and> sessions_of w' = (sessions_of w)(m_bev m \<mapsto> (Pending, take (unat len) sock))))"
proof (cases "mc_established E sock w = Some True")
  case True
  then have "r = None" "w' = w" using a by (simp_all add: mc_peer_connect_def)
  then show ?thesis using inv by simp
next
  case False
  then obtain err m w1 where i: "mc_init E (no_mc\<lparr>m_flags := BUFFEREVENT_SSL_CONNECTING\<rparr>) (-1) sock len (w_ctx w) w = Some (err, m, w1)"
    and e: "(if err = -1 then Some (None, w1)
       else do { w \<leftarrow> bev_call E (Bev_setcb (m_bev m) ''server_mc'') (m_bev m) w1;
                 let (err, w) = call E (Lev (Bev_connect (m_bev m) (take (unat len) sock))) w;
                 if err = -1 then Some (None, w)
                 else do { w \<leftarrow> bev_call E (Bev_disable (m_bev m)) (m_bev m) w;
                           let (i, w) = insert_pending E m w;
                           Some (Some i, w) } }) = Some (r, w')"
    using a by (auto simp: mc_peer_connect_def bind_eq_Some_conv split: if_splits)
  have t: "tracks w" using inv by (simp add: srv_inv_def)
  note x = mc_init_spec [OF i f t]
  show ?thesis
  proof (cases "err = -1")
    case True
    then have "r = None" "w' = w1" using e by simp_all
    then show ?thesis using keeps_step [OF inv x(1)] x True by (simp add: keeps_def)
  next
    case False
    have o: "opened m sock len w w1" using x(3) False by auto
    obtain w2 where s: "bev_call E (Bev_setcb (m_bev m) ''server_mc'') (m_bev m) w1 = Some w2"
      using e False by (auto simp: bind_eq_Some_conv)
    obtain c w3 where c: "call E (Lev (Bev_connect (m_bev m) (take (unat len) sock))) w2 = (c, w3)" by fastforce
    have k3: "keeps w1 w3" using bev_call_spec(1) [OF s] keeps_call [OF c] keeps_trans by simp blast
    have l3: "logs w1 w3" using bev_call_spec(2) [OF s] logs_call [OF c] logs_trans by simp blast
    show ?thesis
    proof (cases "c = -1")
      case True
      then have w: "r = None" "w' = w3" using e False s c by simp_all
      have "keeps w w3" using x(1) k3 keeps_trans by blast
      then show ?thesis using keeps_step [OF inv, of w3] o logs_srv [OF l3] w by (auto simp: keeps_def opened_def)
    next
      case d: False
      then obtain w4 where d: "bev_call E (Bev_disable (m_bev m)) (m_bev m) w3 = Some w4"
        and n: "(let (i, w) = insert_pending E m w4 in Some (Some i, w)) = Some (r, w')"
        using e False s c by (auto simp: bind_eq_Some_conv simp del: Let_def)
      obtain j where j: "insert_pending E m w4 = (j, w')" "r = Some j" using n by (cases "insert_pending E m w4") simp
      have "keeps w1 w4" "logs w1 w4" using bev_call_spec [OF d] k3 l3 keeps_trans logs_trans by simp_all blast+
      from insert_pending_step [OF inv o x(1) len this(2,1) j(1) V] j(2) show ?thesis by blast
    qed
  qed
qed

lemma close_step:
  assumes inv: "srv_inv w" and c: "mc_close E m w = Some w1"
    and s: "w_heap w' = w_heap w1" "w_next w' = w_next w1" "w_bevs w' = w_bevs w1" "tracks w1 \<longrightarrow> tracks w'"
    and p: "mset (w_pending w) = add_mset m (mset (w_pending w')) \<and> w_peers w' = w_peers w
            \<or> w_pending w' = w_pending w \<and> mset (w_peers w) = add_mset m (mset (w_peers w'))"
  shows "srv_inv w'" "sessions_of w (m_bev m) \<noteq> None" "sessions_of w' = (sessions_of w)(m_bev m := None)"
proof -
  let ?cs = "w_pending w' @ w_peers w'"
  have "mset (w_pending w @ w_peers w) = mset (m # ?cs)" using p by auto
  then have cs: "conns_ok w (m # ?cs)" using inv conns_cong unfolding srv_inv_def by blast
  obtain b where b: "m_address m = Vptr b 0" using cs by (auto simp: conns_ok_def mc_ok_def)
  note x = mc_close_spec [OF c b]
  have "tracks w'" using x(1) s(4) inv by (simp add: keeps_def srv_inv_def)
  moreover have cs': "conns_ok w' ?cs" using mc_close_conns [OF cs c] conns_same [of w' w1] s(1-3) by simp
  ultimately show "srv_inv w'" by (simp add: srv_inv_def)
  have "mc_sock a w' = mc_sock a w" if "a \<in> set ?cs" for a
  proof (rule sock_other)
    show "mc_ok w a" "m_address a \<noteq> Vptr b 0" using conns_other [OF cs that] b by simp_all
    show "mc_ok w' a" using cs' that by (auto simp: conns_ok_def list_all_iff)
    show "w_heap w' = (w_heap w)(b := None)" using x(3) s(1) by simp
  qed
  then have h: "sessions_of w' = sess w (w_pending w') (w_peers w')" by (simp add: sessions_of_def sess_heap)
  have d: "distinct (map m_bev (m # ?cs))" using cs by (simp add: conns_ok_def)
  have n: "sess w (w_pending w') (w_peers w') (m_bev m) = None" using d by (intro sess_none) auto
  have d0: "distinct (map m_bev (w_pending w @ w_peers w))" using inv by (simp add: srv_inv_def conns_ok_def)
  have "sessions_of w = sess w (m # w_pending w') (w_peers w') \<or> sessions_of w = sess w (w_pending w') (m # w_peers w')"
    using p sess_perm [OF d0, of "m # w_pending w'" "w_peers w'" w] sess_perm [OF d0, of "w_pending w'" "m # w_peers w'" w]
    by (auto simp: sessions_of_def)
  then obtain ph where o: "sessions_of w = (sess w (w_pending w') (w_peers w'))(m_bev m \<mapsto> (ph, mc_addr w m))"
    using sess_pending [of w m "w_pending w'" "w_peers w'"] sess_established [of "w_pending w'" m "w_peers w'" w] d
    by (metis distinct_map_cong mset.simps(2) mset_append union_mset_add_mset_right)
  show "sessions_of w (m_bev m) \<noteq> None" by (simp add: o)
  show "sessions_of w' = (sessions_of w)(m_bev m := None)" using h o n by (simp add: fun_upd_idem)
qed

lemma find_bev_spec:
  assumes "vec_ok (e_vmc E)" and "find_bev E v bev \<noteq> length v"
  shows "find_bev E v bev < length v" "m_bev (v ! find_bev E v bev) = bev"
  using assms vec_find [OF assms(1), of "\<lambda>a. m_bev a = bev" v] by (auto simp: find_bev_def)

lemma find_bev_none: "vec_ok (e_vmc E) \<Longrightarrow> find_bev E v bev = length v \<Longrightarrow> bev \<notin> m_bev ` set v"
  using vec_find [of "e_vmc E" "\<lambda>a. m_bev a = bev" v] by (auto simp: find_bev_def)

lemma mc_close_keeps:
  assumes "srv_inv w" and "m \<in> set (w_pending w @ w_peers w)" and "mc_close E m w = Some w'"
  shows "keeps w w'"
proof -
  have "mc_ok w m" using assms(1,2) by (auto simp: srv_inv_def conns_ok_def list_all_iff)
  then obtain b where b: "m_address m = Vptr b 0" by (auto simp: mc_ok_def)
  show ?thesis by (rule mc_close_spec(1) [OF assms(3) b])
qed

lemma drain_spec: "keeps w (drain_ssl_errors E bev w)" "logs w (drain_ssl_errors E bev w)"
proof -
  have "keeps w ((call0 E (Lev (Bev_ssl_error bev)) ^^ n) w) \<and> logs w ((call0 E (Lev (Bev_ssl_error bev)) ^^ n) w)" for n
    by (induction n) (simp_all add: keeps_call0_trans logs_call0_trans)
  then show "keeps w (drain_ssl_errors E bev w)" "logs w (drain_ssl_errors E bev w)"
    unfolding drain_ssl_errors_def by blast+
qed

text \<open>The sessions after a handler: unchanged, or the one of the socket is closed.\<close>

lemma error_step:
  assumes inv: "srv_inv w" and V: "vec_ok (e_vmc E)" and e: "ev_error E bev w = Some w'"
  shows "srv_inv w' \<and> w_udp w' = w_udp w
    \<and> sessions_of w' = (sessions_of w)(bev := None)"
proof -
  let ?v = "drain_ssl_errors E bev w"
  note k = drain_spec [of w E bev]
  note l = logs_srv [OF k(2)]
  have v: "srv_inv ?v" "sessions_of ?v = sessions_of w" using keeps_step [OF inv k(1)] l by auto
  have n: "sessions_of w bev = None" if "find_bev E (w_pending ?v) bev = length (w_pending ?v)" "find_bev E (w_peers ?v) bev = length (w_peers ?v)"
    using find_bev_none [OF V that(1)] find_bev_none [OF V that(2)] l by (auto simp: sessions_of_def intro!: sess_none)
  consider (none) "find_bev E (w_pending ?v) bev = length (w_pending ?v)" "find_bev E (w_peers ?v) bev = length (w_peers ?v)"
    | (pend) "find_bev E (w_pending ?v) bev \<noteq> length (w_pending ?v)"
    | (est) "find_bev E (w_pending ?v) bev = length (w_pending ?v)" "find_bev E (w_peers ?v) bev \<noteq> length (w_peers ?v)"
    by blast
  then show ?thesis
  proof cases
    case none
    then have "w' = ?v" using e by (simp add: ev_error_def)
    then show ?thesis using v l n [OF none] by (simp add: fun_upd_idem)
  next
    case pend
    note b = find_bev_spec [OF V pend]
    obtain w1 where c: "mc_close E (w_pending ?v ! find_bev E (w_pending ?v) bev) ?v = Some w1"
      "w' = erase_pending E (find_bev E (w_pending ?v) bev) w1"
      using e pend by (auto simp: ev_error_def Let_def bind_eq_Some_conv)
    have k1: "keeps ?v w1" using mc_close_keeps [OF v(1) _ c(1)] b(1) by simp
    then show ?thesis
      using close_step [OF v(1) c(1), of w'] vec_erase [OF V b(1)] b(2) v(2) c(2) l by (simp add: erase_pending_def tracks_def keeps_def)
  next
    case est
    note b = find_bev_spec [OF V est(2)]
    obtain w1 where c: "mc_close E (w_peers ?v ! find_bev E (w_peers ?v) bev) ?v = Some w1"
      "w' = erase_peer E (find_bev E (w_peers ?v) bev) w1"
      using e est by (auto simp: ev_error_def Let_def bind_eq_Some_conv)
    have k1: "keeps ?v w1" using mc_close_keeps [OF v(1) _ c(1)] b(1) by simp
    then show ?thesis
      using close_step [OF v(1) c(1), of w'] vec_erase [OF V b(1)] b(2) v(2) c(2) l by (simp add: erase_peer_def tracks_def keeps_def)
  qed
qed

lemma udp_step:
  assumes "srv_inv w"
  shows "srv_inv (w\<lparr>w_udp := u\<rparr>)" "sessions_of (w\<lparr>w_udp := u\<rparr>) = sessions_of w"
  using assms same_conns_step [of w "w\<lparr>w_udp := u\<rparr>"] by (simp_all add: srv_inv_def tracks_def)

lemma drop_udppeer_spec: "drop_udppeer E sock w = Some w' \<Longrightarrow> \<exists>u. w' = w\<lparr>w_udp := u\<rparr>"
  by (cases "w_udp w") (auto simp: drop_udppeer_def Let_def split: if_splits intro: exI [of _ "w_udp w"])

text \<open>The end of a stream only concerns established connections.\<close>

lemma eof_step:
  assumes inv: "srv_inv w" and V: "vec_ok (e_vmc E)" and e: "ev_eof E bev w = Some w'"
  shows "srv_inv w' \<and> sessions_of w' = (if bev \<in> m_bev ` set (w_peers w) then (sessions_of w)(bev := None) else sessions_of w)"
proof (cases "find_bev E (w_peers w) bev = length (w_peers w)")
  case True
  then have "w' = w" using e by (simp add: ev_eof_def)
  then show ?thesis using inv find_bev_none [OF V True] by simp
next
  case False
  note b = find_bev_spec [OF V False]
  let ?m = "w_peers w ! find_bev E (w_peers w) bev"
  obtain sock w1 w2 where x: "mc_sock ?m w = Some sock" "drop_udppeer E sock w = Some w1" "mc_close E ?m w1 = Some w2"
    "w' = erase_peer E (find_bev E (w_peers w) bev) w2"
    using e False by (auto simp: ev_eof_def Let_def bind_eq_Some_conv)
  obtain u where u: "w1 = w\<lparr>w_udp := u\<rparr>" using drop_udppeer_spec [OF x(2)] by blast
  have v: "srv_inv w1" "sessions_of w1 = sessions_of w" "w_peers w1 = w_peers w" using udp_step [OF inv] u by simp_all
  have "keeps w1 w2" using mc_close_keeps [OF v(1) _ x(3)] b(1) v(3) by simp
  then have "srv_inv w' \<and> sessions_of w' = (sessions_of w1)(bev := None)"
    using close_step [OF v(1) x(3), of w'] vec_erase [OF V b(1)] b(2) x(4) v(3) by (simp add: erase_peer_def tracks_def keeps_def)
  moreover have "bev \<in> m_bev ` set (w_peers w)" using b by (metis image_eqI nth_mem)
  ultimately show ?thesis using v(2) by simp
qed

lemma check_cert_spec:
  assumes "check_cert E i m w = Some (go, w')"
  shows "go" "keeps w w'" "logs w w'"
proof -
  have "go \<and> keeps w w' \<and> logs w w'"
  proof (cases "m_flags m AND TLS_ENABLE \<noteq> 0")
    case True
    obtain ssl w1 where c1: "call E (Lev (Bev_get_ssl (m_bev m))) w = (ssl, w1)" by fastforce
    obtain cert w2 where c2: "call E (Tls (Ssl_peer_cert ssl)) w1 = (cert, w2)" by fastforce
    have k: "keeps w w2" using keeps_call [OF c1] keeps_call [OF c2] keeps_trans by simp blast
    have l: "logs w w2" using logs_call [OF c1] logs_call [OF c2] logs_trans by blast
    have "go \<and> w' = call0 E (Tls (Ssl_pubkey cert)) w2"
      using assms True c1 c2 by (auto simp: check_cert_def pending_at_def erase_pending_def bind_eq_Some_conv split: if_splits)
    then show ?thesis using k l by (simp add: keeps_call0_trans logs_call0_trans)
  next
    case False
    then show ?thesis using assms by (simp add: check_cert_def)
  qed
  then show "go" "keeps w w'" "logs w w'" by simp_all
qed

lemma hello_spec:
  assumes "mc_hello E m w = Some w1" and "mc_establish_tunnel E m w1 = Some w'"
  shows "keeps w w'" "logs w w'"
proof -
  obtain w0 where a: "bev_call E (Bev_enable (m_bev m)) (m_bev m) w = Some w0" "bev_call E (Bev_print (m_bev m) (''Hello ~!'' @ crlf)) (m_bev m) w0 = Some w1"
    using assms(1) by (auto simp: mc_hello_def bind_eq_Some_conv)
  obtain s where b: "bev_call E (Bev_print (m_bev m) s) (m_bev m) w1 = Some w'"
    using assms(2) by (auto simp: mc_establish_tunnel_def bind_eq_Some_conv)
  show "keeps w w'" "logs w w'"
    using bev_call_spec [OF a(1)] bev_call_spec [OF a(2)] bev_call_spec [OF b] keeps_trans logs_trans by simp_all blast+
qed

text \<open>A pending connection becomes established.\<close>

lemma move_step:
  assumes inv: "srv_inv w" and V: "vec_ok (e_vmc E)" and i: "i < length (w_pending w)" "w_pending w ! i = m"
    and j: "insert_peer E m (erase_pending E i w) = (j, w')"
  shows "srv_inv w'" "at (w_peers w') j = Some m" "w_udp w' = w_udp w" "w_ctx w' = w_ctx w" "m_bev m \<in> w_bevs w'"
    "sessions_of w (m_bev m) = Some (Pending, mc_addr w m)"
    "sessions_of w' = (sessions_of w)(m_bev m \<mapsto> (Established, mc_addr w m))"
proof -
  obtain v where v: "v_insert (e_vmc E) (w_peers w) m = (v, j)"
    "w' = w\<lparr>w_pending := v_erase (e_vmc E) (w_pending w) i, w_pdgen := Suc (w_pdgen w), w_peers := v, w_pgen := Suc (w_pgen w)\<rparr>"
    using j by (auto simp: insert_peer_def erase_pending_def split: prod.splits)
  note vi = vec_insert [OF V v(1)] and ve = vec_erase [OF V i(1), unfolded i(2)]
  let ?p = "w_pending w'"
  have p: "w_pending w' = v_erase (e_vmc E) (w_pending w) i" "w_peers w' = v" "mset v = mset (m # w_peers w)" "mset (w_pending w) = mset (m # ?p)"
    using v vi(1) ve by simp_all
  show "at (w_peers w') j = Some m" using vi p(2) by (simp add: at_def)
  show "w_udp w' = w_udp w" "w_ctx w' = w_ctx w" using v(2) by simp_all
  have cs: "conns_ok w (w_pending w @ w_peers w)" using inv by (simp add: srv_inv_def)
  have "mset (?p @ w_peers w') = mset (w_pending w @ w_peers w)" using p by simp
  then have "conns_ok w (?p @ w_peers w')" using cs conns_cong by blast
  moreover have "conns_ok w' cs = conns_ok w cs" for cs by (rule conns_same) (simp_all add: v(2))
  moreover have "tracks w'" using inv v(2) by (simp add: srv_inv_def tracks_def)
  ultimately show "srv_inv w'" by (simp add: srv_inv_def)
  have "mc_ok w m" using cs i by (auto simp: conns_ok_def list_all_iff)
  then show "m_bev m \<in> w_bevs w'" using v(2) by (simp add: mc_ok_def)
  have d: "distinct (map m_bev (w_pending w @ w_peers w))" using cs by (simp add: conns_ok_def)
  have s: "sessions_of w = (sess w ?p (w_peers w))(m_bev m \<mapsto> (Pending, mc_addr w m))"
    using sess_perm [OF d p(4) refl, of w] by (simp add: sessions_of_def sess_pending)
  then show "sessions_of w (m_bev m) = Some (Pending, mc_addr w m)" by simp
  have m: "mset (?p @ m # w_peers w) = mset (w_pending w @ w_peers w)" using p(4) by simp
  have d': "distinct (map m_bev (?p @ m # w_peers w))" using d distinct_map_cong [OF m] by blast
  have "sessions_of w' = sess w ?p (w_peers w')"
    unfolding sessions_of_def by (intro sess_heap ballI mc_sock_heap) (simp add: v(2))
  also have "\<dots> = sess w ?p (m # w_peers w)" using sess_perm [OF d' refl, of v w] p(2,3) by simp
  also have "\<dots> = (sess w ?p (w_peers w))(m_bev m \<mapsto> (Established, mc_addr w m))" by (rule sess_established [OF d'])
  finally show "sessions_of w' = (sessions_of w)(m_bev m \<mapsto> (Established, mc_addr w m))" using s by simp
qed

lemma connected_step:
  assumes inv: "srv_inv w" and V: "vec_ok (e_vmc E)" and e: "ev_connected E bev w = Some w'"
  shows "srv_inv w' \<and> w_udp w' = w_udp w
    \<and> (bev \<notin> m_bev ` set (w_pending w) \<and> sessions_of w' = sessions_of w
       \<or> (\<exists>a. sessions_of w bev = Some (Pending, a) \<and> sessions_of w' = (sessions_of w)(bev \<mapsto> (Established, a))))"
proof (cases "find_bev E (w_pending w) bev = length (w_pending w)")
  case True
  then have "w' = w" using e by (simp add: ev_connected_def)
  then show ?thesis using inv find_bev_none [OF V True] by simp
next
  case False
  let ?i = "find_bev E (w_pending w) bev"
  let ?m = "w_pending w ! ?i"
  note b = find_bev_spec [OF V False]
  obtain go w1 where c: "check_cert E ?i ?m w = Some (go, w1)"
    and r: "(if \<not> go then Some w1
       else do { let w = erase_pending E ?i w1;
                 let (j, w) = insert_peer E ?m w;
                 m \<leftarrow> at (w_peers w) j;
                 w \<leftarrow> mc_hello E m w;
                 mc_establish_tunnel E m w }) = Some w'"
    using e False by (auto simp: ev_connected_def Let_def bind_eq_Some_conv)
  note cc = check_cert_spec [OF c] and l = logs_srv [OF check_cert_spec(3) [OF c]]
  have w1: "srv_inv w1" "sessions_of w1 = sessions_of w" using keeps_step [OF inv cc(2)] l by auto
  obtain j w2 where j: "insert_peer E ?m (erase_pending E ?i w1) = (j, w2)" by fastforce
  have b1: "?i < length (w_pending w1)" "w_pending w1 ! ?i = ?m" using b(1) l by simp_all
  note mv = move_step [OF w1(1) V b1 j]
  obtain w3 where h: "mc_hello E ?m w2 = Some w3" "mc_establish_tunnel E ?m w3 = Some w'"
    using r cc(1) j mv(2) by (auto simp: bind_eq_Some_conv)
  have "srv_inv w'" "sessions_of w' = sessions_of w2"
    using keeps_step [OF mv(1) hello_spec(1) [OF h]] logs_srv [OF hello_spec(2) [OF h]] by auto
  moreover have "w_udp w' = w_udp w" using logs_srv [OF hello_spec(2) [OF h]] mv(3) l by simp
  ultimately show ?thesis using mv(6,7) w1(2) b(2) by auto
qed

text \<open>Reading changes the UDP peers only.\<close>

lemma register_plain:
  assumes "udp_register_new_peer E r DTLS_DISABLE w = Some (i, w')"
  shows "\<exists>u. w' = w\<lparr>w_udp := u\<rparr>"
proof -
  obtain u e where e: "w_udp w = Some u" "endpoint_copy \<lparr>e_addr = replicate sizeof_storage 0, e_addrlen = 0\<rparr> r = Some e"
    using assms by (auto simp: udp_register_new_peer_def bind_eq_Some_conv)
  obtain v j where "v_insert (e_vpeer E) (u_peers u) \<lparr>pe_addr = e, pe_bio = 0, pe_bio_backend = 0, pe_ssl = 0, pe_flags = DTLS_DISABLE\<rparr> = (v, j)"
    by fastforce
  with assms e have "w' = w\<lparr>w_udp := Some (u\<lparr>u_peers := v, u_gen := Suc (u_gen u)\<rparr>)\<rparr>"
    by (simp add: udp_register_new_peer_def DTLS_DISABLE_def DTLS_ENABLE_def)
  then show ?thesis by blast
qed

lemma handle_line_spec:
  assumes "handle_line E m l w = Some w'"
  shows "\<exists>u. w' = w\<lparr>w_udp := u\<rparr>"
proof -
  have "\<exists>u. w = w\<lparr>w_udp := u\<rparr>" by (intro exI [of _ "w_udp w"]) simp
  then show ?thesis
    using assms register_plain by (auto simp: handle_line_def Let_def bind_eq_Some_conv split: if_splits)
qed

lemma read_lines_spec: "read_lines E m ls w = Some w' \<Longrightarrow> \<exists>u. w' = w\<lparr>w_udp := u\<rparr>"
proof (induction ls arbitrary: w)
  case Nil
  then show ?case by (intro exI [of _ "w_udp w"]) simp
next
  case (Cons l ls)
  then obtain w1 where "handle_line E m l w = Some w1" "read_lines E m ls w1 = Some w'" by (auto simp: bind_eq_Some_conv)
  then obtain u v where "w1 = w\<lparr>w_udp := u\<rparr>" "w' = w1\<lparr>w_udp := v\<rparr>" using Cons.IH handle_line_spec by blast
  then show ?case by (intro exI [of _ v]) simp
qed

lemma read_step:
  assumes inv: "srv_inv w" and r: "server_mc_read_cb E bev w = Some w'"
  shows "srv_inv w' \<and> sessions_of w' = sessions_of w"
proof (cases "find_bev E (w_peers w) bev = length (w_peers w)")
  case True
  then show ?thesis using r inv by (simp add: server_mc_read_cb_def)
next
  case False
  then have "read_lines E (w_peers w ! find_bev E (w_peers w) bev) (w_input w bev) (w\<lparr>w_input := (w_input w)(bev := [])\<rparr>) = Some w'"
    using r by (simp add: server_mc_read_cb_def)
  from read_lines_spec [OF this] obtain u where "w' = w\<lparr>w_input := (w_input w)(bev := [])\<rparr>\<lparr>w_udp := u\<rparr>" by blast
  then show ?thesis using same_conns_step [OF inv, of w'] inv by (simp add: srv_inv_def tracks_def)
qed

section \<open>The client\<close>

text \<open>\<open>evutil_parse_sockaddr_port\<close> stores no more than the room it is given.\<close>

definition parse_bound :: "parse_sockaddr \<Rightarrow> bool" where
  "parse_bound parse \<longleftrightarrow> (\<forall>s n b. parse s n = Some b \<longrightarrow> length b \<le> n)"

text \<open>A new client changes none of the two lists.\<close>

lemma client_accept_step:
  assumes inv: "srv_inv w" and f: "bevs_fresh E" and a: "listen_client_callback E fd sock len w = Some w'"
  shows "srv_inv w' \<and> sessions_of w' = sessions_of w"
proof -
  obtain err m w1 where i: "mc_init E (no_mc\<lparr>m_flags := BUFFEREVENT_SSL_ACCEPTING\<rparr>) fd sock len (w_ctx w) w = Some (err, m, w1)"
    and c: "(if err \<noteq> -1 then bev_call E (Bev_setcb (m_bev m) ''client_mc'') (m_bev m) (w1\<lparr>w_client := m\<rparr>)
             else Some (w1\<lparr>w_client := m\<rparr>)) = Some w'"
    using a by (auto simp: listen_client_callback_def Let_def bind_eq_Some_conv)
  have t: "tracks w" using inv by (simp add: srv_inv_def)
  note x = mc_init_spec [OF i f t]
  let ?w = "w1\<lparr>w_client := m\<rparr>"
  have k: "keeps w ?w" using x(1) by (simp add: keeps_def tracks_def)
  have b: "w_bevs w \<subseteq> w_bevs ?w" "\<forall>b < w_next w. w_heap ?w b = w_heap w b" "w_next w \<le> w_next ?w"
    using x(2,3) by (auto simp: opened_def)
  have "keeps ?w w' \<and> logs ?w w'"
    using c bev_call_spec [of E "Bev_setcb (m_bev m) ''client_mc''" "m_bev m" ?w w'] by (auto split: if_splits)
  then have k': "keeps ?w w'" and l: "w_bevs w' = w_bevs ?w" "w_heap w' = w_heap ?w" "w_next w' = w_next ?w"
    using logs_srv [of ?w w'] by simp_all
  show ?thesis using keeps_step [OF inv keeps_trans [OF k k']] b l by simp
qed

section \<open>The server\<close>

text \<open>
  What libevent may call, in any order: connections to the daemon, connections the daemon opens,
  events and data of the meta-connections and of the client.
\<close>

inductive srv_step ::
    "'e srvenv_scheme \<Rightarrow> parse_sockaddr \<Rightarrow> 'p tclt \<Rightarrow> 'w srvworld_scheme \<Rightarrow> 'w srvworld_scheme \<Rightarrow> bool" for E parse T where
  Accept: "unat len \<le> sizeof_storage \<Longrightarrow> listen_callback E fd sock len w = Some w' \<Longrightarrow> srv_step E parse T w w'"
| Connect: "unat len \<le> sizeof_storage \<Longrightarrow> mc_peer_connect E sock len w = Some (r, w') \<Longrightarrow> srv_step E parse T w w'"
| Event: "server_mc_event_cb E bev events w = Some w' \<Longrightarrow> srv_step E parse T w w'"
| Read: "server_mc_read_cb E bev w = Some w' \<Longrightarrow> srv_step E parse T w w'"
| Client_accept: "listen_client_callback E fd sock len w = Some w' \<Longrightarrow> srv_step E parse T w w'"
| Client_read: "client_mc_read_cb E parse T bev w = Some w' \<Longrightarrow> srv_step E parse T w w'"
| Client_event: "srv_step E parse T w (client_mc_event_cb E bev events w)"

inductive_cases srv_stepE: "srv_step E parse T w w'"

lemma steps_close: "session_step\<^sup>*\<^sup>* S (S(b := None))"
proof (cases "S b")
  case (Some p)
  then show ?thesis by (intro r_into_rtranclp [of session_step] session_step.Close)
qed (simp add: fun_upd_idem)

lemma steps_establish: "S b = Some (Pending, a) \<Longrightarrow> session_step\<^sup>*\<^sup>* S (S(b \<mapsto> (Established, a)))"
  by (intro r_into_rtranclp [of session_step] session_step.Establish)

lemma steps_open: "S b = None \<Longrightarrow> session_step\<^sup>*\<^sup>* S (S(b \<mapsto> (Pending, a)))"
  by (intro r_into_rtranclp [of session_step] session_step.Open)

lemma event_step:
  assumes inv: "srv_inv w" and V: "vec_ok (e_vmc E)" and e: "server_mc_event_cb E bev events w = Some w'"
  shows "srv_inv w' \<and> session_step\<^sup>*\<^sup>* (sessions_of w) (sessions_of w')"
proof -
  have c: ?thesis if "ev_connected E bev w = Some w'"
  proof -
    note x = connected_step [OF inv V that]
    consider "sessions_of w' = sessions_of w"
      | a where "sessions_of w bev = Some (Pending, a)" "sessions_of w' = (sessions_of w)(bev \<mapsto> (Established, a))"
      using x by blast
    then have "session_step\<^sup>*\<^sup>* (sessions_of w) (sessions_of w')"
      by cases (simp_all add: steps_establish [of "sessions_of w"])
    with x show ?thesis by blast
  qed
  have f: ?thesis if "ev_eof E bev w = Some w'"
    using eof_step [OF inv V that] steps_close [of "sessions_of w" bev] by (cases "bev \<in> m_bev ` set (w_peers w)") simp_all
  have r: ?thesis if "ev_error E bev w = Some w'"
    using error_step [OF inv V that] steps_close [of "sessions_of w" bev] by simp
  have n: ?thesis if "Some w = Some w'" using inv that by simp
  have "server_mc_event_cb E bev events w \<in> {ev_connected E bev w, ev_eof E bev w, ev_error E bev w, Some w}"
    by (simp add: server_mc_event_cb_def)
  then consider "ev_connected E bev w = Some w'" | "ev_eof E bev w = Some w'" | "ev_error E bev w = Some w'" | "Some w = Some w'"
    unfolding e insert_iff empty_iff by metis
  then show ?thesis by cases (fact c f r n)+
qed

lemma connect_refines:
  assumes "srv_inv w" and "vec_ok (e_vmc E)" and "bevs_fresh E" and "unat len \<le> sizeof_storage"
    and "mc_peer_connect E sock len w = Some (r, w')"
  shows "srv_inv w' \<and> session_step\<^sup>*\<^sup>* (sessions_of w) (sessions_of w')"
  using connect_step [OF assms] steps_open [of "sessions_of w"] by (metis rtranclp.rtrancl_refl)

lemma command_refines:
  assumes inv: "srv_inv w" and V: "vec_ok (e_vmc E)" and f: "bevs_fresh E" and P: "parse_bound parse"
    and c: "client_init_callback E parse T bev c w = Some (r, w')"
  shows "srv_inv w' \<and> session_step\<^sup>*\<^sup>* (sessions_of w) (sessions_of w')"
proof (cases "w' = w")
  case True
  then show ?thesis using inv by simp
next
  case False
  then obtain p sa tmp w1 where p: "parse (t_ip T p) sizeof_storage = Some sa"
    "mc_peer_connect E (sa @ replicate (sizeof_storage - length sa) 0) (word_of_nat (length sa)) w = Some (tmp, w1)"
    and w': "w' = w1 \<or> (\<exists>cmd. bev_call E (Bev_print bev cmd) bev w1 = Some w')"
    using c by (auto simp: client_init_callback_def add_peer_def bind_eq_Some_conv split: command.splits option.splits if_splits) blast
  have "length sa \<le> sizeof_storage" using P p(1) by (auto simp: parse_bound_def)
  then have "unat (word_of_nat (length sa) :: u32) \<le> sizeof_storage" by simp
  note x = connect_refines [OF inv V f this p(2)]
  have "srv_inv w' \<and> sessions_of w' = sessions_of w1"
    using w'
  proof
    assume "\<exists>cmd. bev_call E (Bev_print bev cmd) bev w1 = Some w'"
    then obtain cmd where b: "bev_call E (Bev_print bev cmd) bev w1 = Some w'" by blast
    have "keeps w1 w'" "logs w1 w'" using bev_call_spec [OF b] by simp_all
    then show ?thesis using keeps_step [of w1 w'] logs_srv [of w1 w'] x by simp
  qed (use x in simp)
  with x show ?thesis by simp
qed

lemma commands_refine:
  assumes "srv_inv w" and "vec_ok (e_vmc E)" and "bevs_fresh E" and "parse_bound parse" and "run_commands E parse T bev cs w = Some w'"
  shows "srv_inv w' \<and> session_step\<^sup>*\<^sup>* (sessions_of w) (sessions_of w')"
  using assms(1,5)
proof (induction cs arbitrary: w)
  case (Cons c cs)
  obtain r w1 where c: "client_init_callback E parse T bev c w = Some (r, w1)" "run_commands E parse T bev cs w1 = Some w'"
    using Cons.prems(2) by (auto simp: bind_eq_Some_conv)
  note x = command_refines [OF Cons.prems(1) assms(2-4) c(1)]
  then have "srv_inv w'" "session_step\<^sup>*\<^sup>* (sessions_of w1) (sessions_of w')" using Cons.IH [of w1] c(2) by blast+
  with x show ?case using rtranclp_trans [of session_step "sessions_of w"] by blast
qed simp

lemma client_read_refines:
  assumes "srv_inv w" and "vec_ok (e_vmc E)" and "bevs_fresh E" and "parse_bound parse" and "client_read E parse T bev inp w = Some w'"
  shows "srv_inv w' \<and> session_step\<^sup>*\<^sup>* (sessions_of w) (sessions_of w')"
  using assms(1,5)
proof (induction inp arbitrary: w rule: measure_induct_rule [where f = length])
  case (less inp)
  show ?case
  proof (cases "inp = []")
    case True
    then show ?thesis using less.prems by (simp add: client_read.simps)
  next
    case False
    then obtain w1 where c: "run_commands E parse T bev (t_commands T (c_string (take 4095 inp))) w = Some w1"
      "client_read E parse T bev (drop 4095 inp) w1 = Some w'"
      using less.prems(2) by (subst (asm) client_read.simps) (auto simp: bind_eq_Some_conv)
    note x = commands_refine [OF less.prems(1) assms(2-4) c(1)]
    have "length (drop 4095 inp) < length inp" using False by simp
    from less.IH [OF this _ c(2)] x have "srv_inv w'" "session_step\<^sup>*\<^sup>* (sessions_of w1) (sessions_of w')" by blast+
    with x show ?thesis using rtranclp_trans [of session_step "sessions_of w"] by blast
  qed
qed

lemma accept_refines:
  assumes inv: "srv_inv w" and V: "vec_ok (e_vmc E)" and f: "bevs_fresh E" and len: "unat len \<le> sizeof_storage"
    and l: "listen_callback E fd sock len w = Some w'"
  shows "srv_inv w' \<and> session_step\<^sup>*\<^sup>* (sessions_of w) (sessions_of w')"
proof -
  obtain i m w1 where a: "mc_peer_accept E sock len fd w = Some (Some i, w1)" "at (w_pending w1) i = Some m"
    "(if m_flags m AND TLS_ENABLE = 0 then server_mc_event_cb E (m_bev m) BEV_EVENT_CONNECTED w1 else Some w1) = Some w'"
    using l by (auto simp: listen_callback_def bind_eq_Some_conv)
  from accept_step [OF inv V f len a(1)] steps_open [of "sessions_of w"]
  have w1: "srv_inv w1" "session_step\<^sup>*\<^sup>* (sessions_of w) (sessions_of w1)"
    by (metis rtranclp.rtrancl_refl)+
  have "w' = w1 \<or> server_mc_event_cb E (m_bev m) BEV_EVENT_CONNECTED w1 = Some w'" using a(3) by (simp split: if_splits)
  then show ?thesis
  proof
    assume "server_mc_event_cb E (m_bev m) BEV_EVENT_CONNECTED w1 = Some w'"
    from event_step [OF w1(1) V this] w1(2) show ?thesis by (blast intro: rtranclp_trans [of session_step])
  qed (use w1 in simp)
qed

lemma srv_step_refines:
  assumes inv: "srv_inv w" and V: "vec_ok (e_vmc E)" and f: "bevs_fresh E" and P: "parse_bound parse" and s: "srv_step E parse T w w'"
  shows "srv_inv w' \<and> session_step\<^sup>*\<^sup>* (sessions_of w) (sessions_of w')"
  using s
proof cases
  case (Accept len fd sock)
  then show ?thesis using accept_refines [OF inv V f] by blast
next
  case (Connect len sock r)
  then show ?thesis using connect_refines [OF inv V f] by blast
next
  case (Event bev events)
  then show ?thesis using event_step [OF inv V] by blast
next
  case (Read bev)
  from read_step [OF inv this] show ?thesis by simp
next
  case (Client_accept fd sock len)
  from client_accept_step [OF inv f this] show ?thesis by simp
next
  case (Client_read bev)
  let ?w = "w\<lparr>w_raw := (w_raw w)(bev := [])\<rparr>"
  have v: "srv_inv ?w" "sessions_of ?w = sessions_of w"
    using same_conns_step [OF inv, of ?w] inv by (simp_all add: srv_inv_def tracks_def)
  show ?thesis using client_read_refines [OF v(1) V f P, of T bev "w_raw w bev" w'] Client_read v(2) by (simp add: client_mc_read_cb_def)
next
  case (Client_event bev events)
  note d = drain_spec [of w E bev]
  show ?thesis using keeps_step [OF inv d(1)] logs_srv [OF d(2)] inv Client_event by (simp add: client_mc_event_cb_def)
qed

section \<open>When the handlers are defined\<close>

lemma inv_conn:
  assumes "srv_inv w" and "m \<in> set (w_pending w @ w_peers w)"
  shows "mc_ok w m"
  using assms by (auto simp: srv_inv_def conns_ok_def list_all_iff)

lemma check_cert_ok:
  assumes "m_bev m \<in> w_bevs w" and "\<forall>h ssl. e_ret E h (Tls (Ssl_peer_cert ssl)) \<noteq> 0"
  shows "\<exists>w'. check_cert E i m w = Some (True, w')"
  using assms by (simp add: check_cert_def call_def Let_def)

lemma hello_ok:
  assumes "m_bev m \<in> w_bevs w" and "w_udp w = Some u" and "udp_get_port u = Some p"
  shows "\<exists>w1 w'. mc_hello E m w = Some w1 \<and> mc_establish_tunnel E m w1 = Some w'"
proof -
  let ?w = "call0 E (Lev (Bev_enable (m_bev m))) w"
  let ?w1 = "call0 E (Lev (Bev_print (m_bev m) (''Hello ~!'' @ crlf))) ?w"
  have "w_bevs ?w1 = w_bevs w" "w_bevs ?w = w_bevs w" "w_udp ?w1 = w_udp w"
    using logs_srv [OF logs_call0 [of w E "Lev (Bev_enable (m_bev m))"]]
      logs_srv [OF logs_call0 [of ?w E "Lev (Bev_print (m_bev m) (''Hello ~!'' @ crlf))"]] by simp_all
  then show ?thesis using assms by (simp add: mc_hello_def mc_establish_tunnel_def bev_call_def)
qed

lemma connected_ok:
  assumes inv: "srv_inv w" and V: "vec_ok (e_vmc E)" and u: "w_udp w = Some u" "udp_get_port u = Some p"
    and c: "\<forall>h ssl. e_ret E h (Tls (Ssl_peer_cert ssl)) \<noteq> 0"
  shows "\<exists>w'. ev_connected E bev w = Some w'"
proof (cases "find_bev E (w_pending w) bev = length (w_pending w)")
  case True
  then show ?thesis by (simp add: ev_connected_def)
next
  case False
  let ?i = "find_bev E (w_pending w) bev"
  let ?m = "w_pending w ! ?i"
  note b = find_bev_spec [OF V False]
  have m: "mc_ok w ?m" using inv_conn [OF inv] b(1) by simp
  then obtain a blk where a: "m_address ?m = Vptr a 0" "w_heap w a = Some blk" "length blk = unat (m_len ?m)" "unat (m_len ?m) \<le> sizeof_storage"
    "m_bev ?m \<in> w_bevs w"
    by (auto simp: mc_ok_def)
  have s: "mc_sock ?m w = Some blk" using mc_ok_sock [OF m a(1)] a(2) by simp
  have e: "endpoint_init blk (m_len ?m) \<noteq> None" using a(3,4) by (simp add: endpoint_init_def copy_addr_def ep_consts)
  obtain w1 where c1: "check_cert E ?i ?m w = Some (True, w1)" using check_cert_ok [OF a(5) c] by blast
  note cc = check_cert_spec [OF c1] and l = logs_srv [OF check_cert_spec(3) [OF c1]]
  have i1: "srv_inv w1" using keeps_step [OF inv cc(2)] l by auto
  obtain j w2 where j: "insert_peer E ?m (erase_pending E ?i w1) = (j, w2)" by fastforce
  have b1: "?i < length (w_pending w1)" "w_pending w1 ! ?i = ?m" using b(1) l by simp_all
  note mv = move_step [OF i1 V b1 j]
  obtain w3 w' where "mc_hello E ?m w2 = Some w3" "mc_establish_tunnel E ?m w3 = Some w'"
    using hello_ok [OF mv(5), of u p E] mv(3) l u by auto
  then show ?thesis using False s e c1 j mv(2) by (auto simp: ev_connected_def)
qed

lemma eof_ok:
  assumes inv: "srv_inv w" and V: "vec_ok (e_vmc E)" and u: "w_udp w = Some u"
  shows "\<exists>w'. ev_eof E bev w = Some w'"
proof (cases "find_bev E (w_peers w) bev = length (w_peers w)")
  case False
  let ?m = "w_peers w ! find_bev E (w_peers w) bev"
  have m: "mc_ok w ?m" using inv_conn [OF inv] find_bev_spec(1) [OF V False] by simp
  then obtain a blk where a: "m_address ?m = Vptr a 0" "w_heap w a = Some blk" by (auto simp: mc_ok_def)
  have s: "mc_sock ?m w = Some blk" using mc_ok_sock [OF m a(1)] a(2) by simp
  obtain w1 where d: "drop_udppeer E blk w = Some w1" using u by (simp add: drop_udppeer_def Let_def)
  then obtain v where "w1 = w\<lparr>w_udp := v\<rparr>" using drop_udppeer_spec by blast
  then have "mc_ok w1 ?m" using m by (simp add: mc_ok_def)
  then obtain w2 where "mc_close E ?m w1 = Some w2" using mc_close_ok by blast
  then show ?thesis using False s d by (simp add: ev_eof_def Let_def)
qed (simp add: ev_eof_def)

lemma error_ok:
  assumes inv: "srv_inv w" and V: "vec_ok (e_vmc E)"
  shows "\<exists>w'. ev_error E bev w = Some w'"
proof -
  let ?v = "drain_ssl_errors E bev w"
  have v: "srv_inv ?v" using drain_spec [of w E bev] keeps_step [OF inv] logs_srv [of w ?v] by auto
  have "\<exists>w'. mc_close E (w_pending ?v ! find_bev E (w_pending ?v) bev) ?v = Some w'" if "find_bev E (w_pending ?v) bev \<noteq> length (w_pending ?v)"
    by (rule mc_close_ok) (use inv_conn [OF v] find_bev_spec(1) [OF V that] in simp)
  moreover have "\<exists>w'. mc_close E (w_peers ?v ! find_bev E (w_peers ?v) bev) ?v = Some w'" if "find_bev E (w_peers ?v) bev \<noteq> length (w_peers ?v)"
    by (rule mc_close_ok) (use inv_conn [OF v] find_bev_spec(1) [OF V that] in simp)
  ultimately show ?thesis by (auto simp: ev_error_def Let_def)
qed

lemma accept_ok:
  assumes inv: "srv_inv w" and f: "bevs_fresh E" and len: "unat len \<le> length sock"
    and r: "\<forall>k. e_alloc E k" "\<forall>h fd. e_ret E h (Lev (Bev_new fd)) \<noteq> 0" and c: "w_ctx w = 0"
    and n: "mc_established E sock w = Some False"
  shows "\<exists>i w'. mc_peer_accept E sock len fd w = Some (Some i, w')"
proof -
  let ?self = "no_mc\<lparr>m_flags := BUFFEREVENT_SSL_ACCEPTING\<rparr>"
  obtain w1 where a: "b_new E (unat len) w = (Vptr (w_next w) 0, w1)" "w_heap w1 (w_next w) = Some (block_junk E (w_next w) (unat len))"
    using r(1) by (simp add: b_new_def o_new_def)
  obtain m w2 where b: "mc_open_bev E ?self fd 0 w1 = (m, w2)" by fastforce
  note x = mc_open_bev_spec [OF b]
  have nz: "m_bev m \<noteq> 0" using b r(2) by (auto simp: mc_open_bev_def bev_new_def call_def Let_def)
  let ?d = "take (unat len) sock"
  let ?w3 = "w2\<lparr>w_heap := (w_heap w2)(w_next w \<mapsto> ?d)\<rparr>"
  have s: "b_store (Vptr (w_next w) 0) ?d w2 = Some ?w3"
    using b_store_at [of w2 "w_next w" "block_junk E (w_next w) (unat len)" ?d] a(2) x(3) len by (simp add: put_bytes_def block_junk_def)
  have in3: "m_bev m \<in> w_bevs ?w3" using x(2) nz by simp
  let ?w4 = "call0 E (Lev (Bev_enable (m_bev m))) ?w3"
  let ?m = "m\<lparr>m_address := Vptr (w_next w) 0, m_len := len\<rparr>"
  have i: "mc_init E ?self fd sock len (w_ctx w) w = Some (0, ?m, ?w4)"
    using a(1) b nz s len in3 by (simp add: mc_init_def mem_read_def bev_call_def c)
  have in4: "m_bev m \<in> w_bevs ?w4" using in3 logs_srv [OF logs_call0 [of ?w3 E "Lev (Bev_enable (m_bev m))"]] by simp
  let ?w5 = "call0 E (Lev (Bev_setcb (m_bev m) ''server_mc'')) ?w4"
  have in5: "m_bev m \<in> w_bevs ?w5" using in4 logs_srv [OF logs_call0 [of ?w4 E "Lev (Bev_setcb (m_bev m) ''server_mc'')"]] by simp
  have "m_flags m AND TLS_ENABLE = 0" using x(6) by (simp add: TLS_DISABLE_def TLS_ENABLE_def)
  then show ?thesis
    using i n bev_call_ok [OF in4, of E "Bev_setcb (m_bev m) ''server_mc''"] bev_call_ok [OF in5, of E "Bev_disable (m_bev m)"]
    by (simp add: mc_peer_accept_def split: prod.split)
qed

text \<open>
  Claim C5. However libevent orders its callbacks and whatever the peers and the client send, the lists
  of pending and established connections stay well-formed: no connection is in them twice,
  every one has a live socket of its own, and an address block of its own of the recorded
  length that has not been freed.
\<close>

theorem connections_invariant:
  assumes "vec_ok (e_vmc E)" and "bevs_fresh E" and "parse_bound parse" and "srv_inv w" and "(srv_step E parse T)\<^sup>*\<^sup>* w w'"
  shows "srv_inv w'"
  using assms(5,4) by (induction rule: rtranclp_induct) (use srv_step_refines assms(1-3) in blast)+



text \<open>
  Claim C22. Without TLS, a connection accepted from an address that no established peer has is
  established at once: the callback returns, and the only change to the sessions is one new
  session, established, with the address of the connection.
\<close>

theorem listen_establishes:
  assumes "srv_inv w" and "vec_ok (e_vmc E)" and "bevs_fresh E" and "unat len \<le> sizeof_storage" and "unat len \<le> length sock"
    and "\<forall>k. e_alloc E k" and "\<forall>h fd. e_ret E h (Lev (Bev_new fd)) \<noteq> 0" and "w_ctx w = 0"
    and "mc_established E sock w = Some False" and "w_udp w = Some u" and "udp_get_port u = Some p"
    and "\<forall>h ssl. e_ret E h (Tls (Ssl_peer_cert ssl)) \<noteq> 0"
  shows "\<exists>w' b. listen_callback E fd sock len w = Some w' \<and> srv_inv w' \<and> sessions_of w b = None
    \<and> sessions_of w' = (sessions_of w)(b \<mapsto> (Established, take (unat len) sock))"
proof -
  obtain i w1 where a: "mc_peer_accept E sock len fd w = Some (Some i, w1)"
    using accept_ok [OF assms(1,3,5-9)] by blast
  from accept_step [OF assms(1-4) a] assms(8)
  obtain m where m: "srv_inv w1" "w_udp w1 = w_udp w" "at (w_pending w1) i = Some m" "sessions_of w (m_bev m) = None" "m_flags m = TLS_DISABLE"
    "sessions_of w1 = (sessions_of w)(m_bev m \<mapsto> (Pending, take (unat len) sock))"
    by auto
  have "w_udp w1 = Some u" using m(2) assms(10) by simp
  from connected_ok [OF m(1) assms(2) this assms(11,12)] obtain w' where e: "ev_connected E (m_bev m) w1 = Some w'" by blast
  have "m_bev m \<in> m_bev ` set (w_pending w1)" using m(3) by (auto simp: at_def split: if_splits)
  then have "srv_inv w'" "sessions_of w' = (sessions_of w)(m_bev m \<mapsto> (Established, take (unat len) sock))"
    using connected_step [OF m(1) assms(2) e] m(6) by auto
  moreover have "listen_callback E fd sock len w = Some w'"
    using a m(3,5) e by (simp add: listen_callback_def server_mc_event_cb_def BEV_EVENT_CONNECTED_def TLS_DISABLE_def TLS_ENABLE_def)
  ultimately show ?thesis using m(4) by blast
qed

section \<open>The concrete daemon\<close>

definition demo_parse :: parse_sockaddr where
  "demo_parse s n = (if 16 \<le> n then Some (take 16 demo_adr) else None)"

definition demo_tclt :: "string tclt" where
  "demo_tclt = \<lparr>t_commands = (\<lambda>s. [ADD_PEER_CMD s]), t_ip = (\<lambda>p. p), t_add_peer = Some\<rparr>"

lemma demo_parse_bound [simp]: "parse_bound demo_parse"
  by (simp add: parse_bound_def demo_parse_def)

lemma live_results: "b \<in> live_bevs h \<Longrightarrow> b \<in> snd ` set h"
proof (induction h rule: rev_induct)
  case (snoc x h)
  then show ?case
    by (cases "(x, live_bevs h)" rule: live_step.cases) (auto simp: live_snoc split: if_splits)
qed (simp add: live_bevs_def)

lemma demo_fresh [simp]: "bevs_fresh (demo_senv al)"
  unfolding bevs_fresh_def
proof (intro allI impI notI)
  fix h c
  assume c: "makes_bev c" and l: "e_ret (demo_senv al) h c \<in> live_bevs h"
  have e: "e_ret (demo_senv al) h c = 100 + sum_list (map (\<lambda>x. \<bar>snd x\<bar>) h)"
    using c by (cases c rule: makes_bev.cases) (simp_all add: demo_senv_def)
  obtain x where x: "x \<in> set h" "snd x = e_ret (demo_senv al) h c" using live_results [OF l] by force
  have "\<bar>snd x\<bar> \<le> sum_list (map (\<lambda>x. \<bar>snd x\<bar>) h)" using x(1) by (intro member_le_sum_list) auto
  with x(2) e show False by linarith
qed

lemma demo_inv [simp]: "srv_inv (demo_sworld ls)"
proof -
  have "unat (16 :: u32) = 16" by simp
  then have "mc_ok (demo_sworld ls) demo_mc"
    by (simp add: mc_ok_def demo_sworld_def demo_mc_def demo_adr_def sizeof_storage_def)
  then show ?thesis by (simp add: srv_inv_def tracks_def conns_ok_def) (simp add: demo_sworld_def live_bevs_def)
qed

lemma demo_port [simp]: "udp_get_port (demo_udp\<lparr>u_endpoint := demo_ep\<rparr>) = Some 4242"
  by (simp add: udp_get_port_def endpoint_port_def demo_ep_def ss_family_def of_le16_def ep_consts raw_port_def ntohs_def htons_def)

lemma demo_cert [simp]: "e_ret (demo_senv al) h (Tls (Ssl_peer_cert ssl)) = 2"
  by (simp add: demo_senv_def)


lemma demo_steps: "\<exists>w'. srv_step (demo_senv True) demo_parse demo_tclt (demo_sworld []) w' \<and> w_peers w' = []"
proof -
  obtain w' where e: "ev_eof (demo_senv True) 51 (demo_sworld []) = Some w'" using eof_ok [of "demo_sworld []" "demo_senv True"] by auto
  have "server_mc_event_cb (demo_senv True) 51 BEV_EVENT_EOF (demo_sworld []) = Some w'"
    using e by (simp add: server_mc_event_cb_def BEV_EVENT_EOF_def BEV_EVENT_CONNECTED_def)
  moreover have "w_peers w' = []"
    using e by (auto simp: ev_eof_def Let_def bind_eq_Some_conv erase_peer_def find_bev_def demo_senv_def list_vec_def
        mc_close_def mc_shutdown_def demo_mc_def TLS_DISABLE_def TLS_ENABLE_def b_free_def bev_free_def bev_call_def drop_udppeer_def
        call0_def call_def split: if_splits val.splits)
  ultimately show ?thesis by (blast intro: srv_step.Event)
qed

theorem connections_invariant_witness:
  "\<exists>w'. (srv_step (demo_senv True) demo_parse demo_tclt)\<^sup>*\<^sup>* (demo_sworld []) w' \<and> w_peers w' = [] \<and> srv_inv w'"
proof -
  obtain w' where s: "srv_step (demo_senv True) demo_parse demo_tclt (demo_sworld []) w'" "w_peers w' = []" using demo_steps by blast
  then have "(srv_step (demo_senv True) demo_parse demo_tclt)\<^sup>*\<^sup>* (demo_sworld []) w'" by blast
  with connections_invariant [of "demo_senv True" demo_parse "demo_sworld []" demo_tclt w'] s(2) show ?thesis by auto
qed


theorem listen_establishes_witness:
  "\<exists>w' b. listen_callback (demo_senv True) 9 (2 # 0 # 1 # 1 # replicate 12 9) 16 (demo_sworld []) = Some w'
     \<and> sessions_of w' b = Some (Established, 2 # 0 # 1 # 1 # replicate 12 9)"
proof -
  let ?s = "2 # 0 # 1 # 1 # replicate 12 9 :: bytes"
  have "mc_established (demo_senv True) ?s (demo_sworld []) = Some False"
    by (simp add: mc_established_def mc_known_def find_established_def) (simp add: demo_senv_def demo_adr_def numeral_eq_Suc list_vec_def find_established_def)
  moreover have "\<forall>h fd. e_ret (demo_senv True) h (Lev (Bev_new fd)) \<noteq> 0"
  proof (intro allI)
    fix h :: history and fd
    have "0 \<le> sum_list (map (\<lambda>x. \<bar>snd x\<bar>) h)" by (intro sum_list_nonneg) auto
    then show "e_ret (demo_senv True) h (Lev (Bev_new fd)) \<noteq> 0" by (simp add: demo_senv_def)
  qed
  moreover have "w_ctx (demo_sworld []) = 0" "unat (16 :: u32) = 16" by (simp_all add: demo_sworld_def)
  ultimately show ?thesis
    using listen_establishes [of "demo_sworld []" "demo_senv True" 16 ?s "demo_udp\<lparr>u_endpoint := demo_ep\<rparr>" 4242 9]
    by (fastforce simp: sizeof_storage_def)
qed

end
