(* ===== verification/Device.thy ===== *)
theory Device
  imports Peers
begin

text \<open>
  The tap device (\<open>src/device.c\<close>, \<open>include/device.h\<close>): attaching it to the server, and the fiber
  that reads packets from it, queues them and wakes the broadcasting fiber. Then what one round
  of that fiber does, and how it feeds the broadcast.
\<close>

section \<open>Code\<close>

definition FRAME_DYN_SIZE :: nat where "FRAME_DYN_SIZE = 1600"

text \<open>
  The Windows variant sends the size, in the order of the machine, and the payload through a pipe
  to the thread that owns the device.
\<close>

definition send_buffer_to_device_thread :: "'e env_scheme \<Rightarrow> int \<Rightarrow> frame \<Rightarrow> 'w srun" where
  "send_buffer_to_device_thread E pipe_endpoint f w =
     do { w \<leftarrow> bev_call E (Bev_output pipe_endpoint (le16 (f_size f))) pipe_endpoint w;
          d \<leftarrow> b_load (f_frame f) (unat (f_size f)) w;
          bev_call E (Bev_output pipe_endpoint d) pipe_endpoint w }"

text \<open>The listeners are enabled one by one; the address of each is asked for, for the log.\<close>

fun enable_listeners :: "'e env_scheme \<Rightarrow> int list \<Rightarrow> 'w srun" where
  "enable_listeners E [] w = Some w"
| "enable_listeners E (evl # ls) w =
     (case o_new E w of
        (None, _) \<Rightarrow> None
      | (Some _, w) \<Rightarrow>
          (let (fd, w) = call E (Lev (Evl_get_fd evl)) w;
               w = call0 E (Sys (Sys_getsockname fd)) w
           in enable_listeners E ls (call0 E (Lev (Evl_enable evl)) w)))"

text \<open>
  \<open>co\<close> gives the code of a fiber. The device fiber is launched without a check, which is
  undefined if it could not be made.
\<close>

definition server_set_device :: "'e srvenv_scheme \<Rightarrow> (nat \<Rightarrow> 'w srun) \<Rightarrow> val \<Rightarrow> int \<Rightarrow> 'w srun" where
  "server_set_device E co s fd w =
     do { let w = call0 E (Sys (Sys_nonblock fd)) w;
          w \<leftarrow> enable_listeners E (w_listeners w) w;
          let w = w\<lparr>w_tap := fd\<rparr>;
          (fib, w) \<leftarrow> sched_new_fiber E s w;
          let w = w\<lparr>w_devfib := map_option fst fib\<rparr>;
          w \<leftarrow> server_udp_launch co w;
          k \<leftarrow> w_devfib w;
          sched_fiber_launch (co k) k w }"

definition server_set_device_windows :: "'e srvenv_scheme \<Rightarrow> (nat \<Rightarrow> 'w srun) \<Rightarrow> 'w srun" where
  "server_set_device_windows E co w =
     do { w \<leftarrow> enable_listeners E (w_listeners w) w; server_udp_launch co w }"

definition push_frame :: "'e uenv_scheme \<Rightarrow> frame \<Rightarrow> 'w uworld_scheme \<Rightarrow> 'w uworld_scheme" where
  "push_frame E f w = w\<lparr>w_frames := v_push (e_vframe E) (w_frames w) f, w_fgen := Suc (w_fgen w)\<rparr>"

text \<open>
  The inner loop of \<open>server_device\<close>: packets are read until there is none. It may not end (a
  device at its end always returns 0), so the number of reads is bounded, and \<open>None\<close> if that is
  not enough.
\<close>

fun device_drain ::
    "'e uenv_scheme \<Rightarrow> int \<Rightarrow> nat \<Rightarrow> frame \<Rightarrow> 'w uworld_scheme \<Rightarrow> (frame \<times> 'w uworld_scheme) option" where
  "device_drain E tap_fd 0 tmp w = None"
| "device_drain E tap_fd (Suc n) tmp w =
     do { (r, w) \<leftarrow> k_store E (Sys_read tap_fd FRAME_DYN_SIZE) (f_frame tmp) FRAME_DYN_SIZE w;
          n' \<leftarrow> val_int r;
          if n' = -1 then Some (tmp, w)
          else
            let tmp = tmp\<lparr>f_size := word_of_int n'\<rparr>;
                w = push_frame E tmp w;
                (_, tmp, w) = frame_alloc E tmp (word_of_nat FRAME_DYN_SIZE) w
            in device_drain E tap_fd n tmp w }"

definition device_round ::
    "'e uenv_scheme \<Rightarrow> 'w urun \<Rightarrow> nat \<Rightarrow> int \<Rightarrow> nat \<Rightarrow> frame \<Rightarrow> 'w uworld_scheme \<Rightarrow> (frame \<times> 'w uworld_scheme) option" where
  "device_round E R s tap_fd n tmp w =
     do { let (_, tmp, w) = frame_alloc E tmp (word_of_nat FRAME_DYN_SIZE) w;
          (_, w) \<leftarrow> async_event E R s tap_fd EV_READ w;
          (tmp, w) \<leftarrow> device_drain E tap_fd n tmp w;
          w \<leftarrow> (if length (w_frames w) > 0 then broadcast_udp_to_peers E w else Some w);
          w \<leftarrow> frame_free tmp w;
          Some (tmp, w) }"

text \<open>\<open>k\<close> rounds of the endless loop; the local frame starts uninitialised.\<close>

fun device_loop ::
    "'e uenv_scheme \<Rightarrow> 'w urun \<Rightarrow> nat \<Rightarrow> int \<Rightarrow> nat \<Rightarrow> nat \<Rightarrow> frame \<Rightarrow> 'w urun" where
  "device_loop E R s tap_fd n 0 tmp w = Some w"
| "device_loop E R s tap_fd n (Suc k) tmp w =
     do { (tmp, w) \<leftarrow> device_round E R s tap_fd n tmp w; device_loop E R s tap_fd n k tmp w }"

definition server_device :: "'e uenv_scheme \<Rightarrow> 'w urun \<Rightarrow> nat \<Rightarrow> nat \<Rightarrow> nat \<Rightarrow> 'w urun" where
  "server_device E R s n k w =
     device_loop E R s (w_tap w) n k \<lparr>f_size = 0, f_frame = Vint 1, f_raw = Vint 1\<rparr> w"

section \<open>Packets of the device\<close>

text \<open>
  The device as a stream: \<open>tp i\<close> is the packet the \<open>i\<close>-th read of the descriptor returns, none if
  there is nothing to read at that moment.
\<close>

definition reads :: "int \<Rightarrow> history \<Rightarrow> nat" where
  "reads fd h = length (filter (\<lambda>x. \<exists>n. fst x = Sys (Sys_read fd n)) h)"

definition tap :: "'e env_scheme \<Rightarrow> int \<Rightarrow> (nat \<Rightarrow> bytes option) \<Rightarrow> bool" where
  "tap E fd tp \<longleftrightarrow> (\<forall>h. let c = Sys (Sys_read fd FRAME_DYN_SIZE) in
     case tp (reads fd h) of
       None \<Rightarrow> e_ret E h c = -1
     | Some p \<Rightarrow> e_ret E h c = int (length p) \<and> e_out E h c = p \<and> length p \<le> FRAME_DYN_SIZE)"

lemma reads_append [simp]: "reads fd (g @ h) = reads fd g + reads fd h"
  by (simp add: reads_def)

lemma reads_simps [simp]:
  "reads fd [] = 0" "reads fd [(Sys (Sys_read fd n), r)] = Suc 0"
  by (simp_all add: reads_def)

lemma reads_lev [simp]: "lev_only h \<Longrightarrow> reads fd h = 0"
  by (auto simp: reads_def lev_only_def filter_empty_conv)

text \<open>The frame being filled, and the queue with room beside it.\<close>

definition slot :: "'w world_scheme \<Rightarrow> frame \<Rightarrow> nat \<Rightarrow> bool" where
  "slot w f b \<longleftrightarrow> f_raw f = Vptr b 0 \<and> f_frame f = Vptr b 2 \<and> b < w_next w
     \<and> (\<exists>blk. w_heap w b = Some blk \<and> length blk = FRAME_DYN_SIZE + 2)"

definition queue_in :: "'w uworld_scheme \<Rightarrow> bool" where
  "queue_in w \<longleftrightarrow> queue_ok w (w_frames w) \<and> (\<forall>b \<in> blocks (w_frames w). b < w_next w)"

lemma alloc_slot:
  assumes "frame_alloc E f (word_of_nat FRAME_DYN_SIZE) w = (r, f', w')" and "\<forall>k. e_alloc E k"
  shows "slot w' f' (w_next w)" "w_log w' = w_log w" "world.more w' = world.more w" "w_next w' = Suc (w_next w)"
    "w_heap w' = (w_heap w)(w_next w \<mapsto> block_junk E (w_next w) (FRAME_DYN_SIZE + 2))"
  using frame_alloc_ok [OF assms(1)] assms(2) by (simp_all add: slot_def FRAME_DYN_SIZE_def)

lemma frame_ok_heap:
  assumes "frame_ok w f" and "\<forall>b. f_raw f = Vptr b 0 \<longrightarrow> w_heap w' b = w_heap w b"
  shows "frame_ok w' f" "payload w' f = payload w f"
proof -
  obtain b blk where f: "f_raw f = Vptr b 0" "f_frame f = Vptr b sizeof_packet_hdr" "w_heap w b = Some blk"
    "unat (f_size f) + sizeof_packet_hdr \<le> length blk"
    using assms(1) by (auto simp: frame_ok_def)
  then have "w_heap w' b = Some blk" using assms(2) by simp
  with f show "frame_ok w' f" "payload w' f = payload w f" by (auto simp: frame_ok_def payload_def b_load_def)
qed

lemma queue_grow:
  assumes "queue_in w" and "w_frames w' = w_frames w" and "w_next w \<le> w_next w'"
    and "\<forall>b \<in> blocks (w_frames w). w_heap w' b = w_heap w b"
  shows "queue_in w'" "\<forall>f \<in> set (w_frames w). payload w' f = payload w f"
proof -
  have "\<forall>b. f_raw f = Vptr b 0 \<longrightarrow> w_heap w' b = w_heap w b" if "f \<in> set (w_frames w)" for f
    using assms(4) that by (force simp: blocks_def)
  then have "frame_ok w' f \<and> payload w' f = payload w f" if "f \<in> set (w_frames w)" for f
    using frame_ok_heap [of w f w'] that assms(1) by (simp add: queue_in_def queue_ok_def)
  then show "queue_in w'" "\<forall>f \<in> set (w_frames w). payload w' f = payload w f"
    using assms(1-3) by (force simp: queue_in_def queue_ok_def)+
qed

text \<open>A filled frame goes to the end of the queue.\<close>

lemma queue_push:
  assumes "queue_in w" and "frame_ok w f" and "f_raw f = Vptr b 0" and "b < w_next w" and "b \<notin> blocks (w_frames w)" and "vec_ok (e_vframe E)"
  shows "queue_in (push_frame E f w)" "blocks (w_frames (push_frame E f w)) = insert b (blocks (w_frames w))"
proof -
  have fr: "w_frames (push_frame E f w) = w_frames w @ [f]" using assms(6) by (simp add: push_frame_def vec_push)
  have "f_raw f \<notin> f_raw ` set (w_frames w)" using assms(3,5) by (auto simp: blocks_def)
  moreover have "frame_ok (push_frame E f w) g = frame_ok w g" for g by (simp add: frame_ok_def push_frame_def)
  moreover show "blocks (w_frames (push_frame E f w)) = insert b (blocks (w_frames w))"
    using assms(3) unfolding fr by (auto simp: blocks_def)
  moreover have "w_next (push_frame E f w) = w_next w" by (simp add: push_frame_def)
  ultimately show "queue_in (push_frame E f w)"
    using assms(1,2,4) unfolding queue_in_def queue_ok_def fr by auto
qed

text \<open>What a part of the device fiber leaves alone.\<close>

definition beside :: "nat set \<Rightarrow> 'w uworld_scheme \<Rightarrow> 'w uworld_scheme \<Rightarrow> bool" where
  "beside B w w' \<longleftrightarrow> w_udp w' = w_udp w \<and> w_fibers w' = w_fibers w \<and> w_tap w' = w_tap w \<and> (\<forall>s k. ready s k w' = ready s k w)
     \<and> w_next w \<le> w_next w' \<and> (\<forall>b < w_next w. b \<notin> B \<longrightarrow> w_heap w' b = w_heap w b)"

lemma beside_trans:
  assumes "beside B w w1" and "beside C w1 w2" and "\<forall>c \<in> C. c < w_next w \<longrightarrow> c \<in> B"
  shows "beside B w w2"
  using assms by (auto simp: beside_def)

text \<open>One packet: it is stored in the frame, which is queued, and a new frame is allocated.\<close>

lemma drain_packet:
  fixes w :: "'w uworld_scheme"
  assumes k: "kernel_ok E" "tap E fd tp" "\<forall>k. e_alloc E k" "vec_ok (e_vframe E)"
    and s: "slot w tmp b" "queue_in w" "b \<notin> blocks (w_frames w)" and p: "tp (reads fd (w_log w)) = Some p"
  shows "\<exists>f tmp' b' w'. device_drain E fd (Suc n) tmp w = device_drain E fd n tmp' w' \<and> slot w' tmp' b' \<and> queue_in w'
    \<and> b' \<notin> blocks (w_frames w') \<and> w_frames w' = w_frames w @ [f] \<and> payload w' f = Some p \<and> f_size f = word_of_nat (length p)
    \<and> (\<forall>g \<in> set (w_frames w). payload w' g = payload w g) \<and> reads fd (w_log w') = Suc (reads fd (w_log w))
    \<and> beside {b} w w' \<and> w_next w \<le> b'"
proof -
  let ?c = "Sys_read fd FRAME_DYN_SIZE"
  obtain blk where b: "f_raw tmp = Vptr b 0" "f_frame tmp = Vptr b 2" "b < w_next w" "w_heap w b = Some blk" "length blk = FRAME_DYN_SIZE + 2"
    using s(1) by (auto simp: slot_def)
  have e: "e_ret E (w_log w) (Sys ?c) = int (length p)" "received E (w_log w) ?c = p" "length p \<le> FRAME_DYN_SIZE"
    using k(2) p unfolding tap_def Let_def by (auto simp: received_def dest!: spec [of _ "w_log w"])
  define blk' where "blk' = take 2 blk @ p @ drop (2 + length p) blk"
  define w1 where "w1 = (snd (call E (Sys ?c) w))\<lparr>w_heap := (w_heap w)(b \<mapsto> blk')\<rparr>"
  have st: "k_store E ?c (f_frame tmp) FRAME_DYN_SIZE w = Some (Vint (int (length p)), w1)"
    using k_store_ok [OF k(1), of ?c FRAME_DYN_SIZE w b blk 2] b e by (simp add: w1_def blk'_def)
  define f where "f = tmp\<lparr>f_size := word_of_nat (length p)\<rparr>"
  have sz: "f_size f = word_of_nat (length p)" "unat (f_size f) = length p"
    using e(3) by (simp_all add: f_def FRAME_DYN_SIZE_def unat_of_nat take_bit_nat_eq_self)
  have w1: "w_frames w1 = w_frames w" "w_next w1 = w_next w" "w_heap w1 = (w_heap w)(b \<mapsto> blk')" "w_log w1 = w_log w @ [(Sys ?c, int (length p))]"
    "w_udp w1 = w_udp w" "w_fibers w1 = w_fibers w" "w_tap w1 = w_tap w" "ready s k w1 = ready s k w" for s k
    by (simp_all add: w1_def call_def Let_def e(1) ready_def fib_of_def origin_valid_def)
  have l: "length blk' = FRAME_DYN_SIZE + 2" using b(5) e(3) by (simp add: blk'_def)
  have f: "f_raw f = Vptr b 0" "f_frame f = Vptr b sizeof_packet_hdr" using b by (simp_all add: f_def sizeof_packet_hdr_def)
  have fo: "frame_ok w1 f" using f w1(3) l sz(2) e(3) by (simp add: frame_ok_def sizeof_packet_hdr_def)
  have pl: "payload w1 f = Some p" using f w1(3) l sz(2) e(3) b(5) by (simp add: payload_def b_load_def mem_read_def sizeof_packet_hdr_def blk'_def)
  have q1: "queue_in w1" "\<forall>g \<in> set (w_frames w). payload w1 g = payload w g"
    using queue_grow [OF s(2), of w1] w1 s(3) by auto
  define w2 where "w2 = push_frame E f w1"
  have b1: "b < w_next w1" "b \<notin> blocks (w_frames w1)" using b(3) s(3) w1 by simp_all
  have q2: "queue_in w2" "blocks (w_frames w2) = insert b (blocks (w_frames w1))"
    using queue_push [OF q1(1) fo f(1) b1 k(4)] by (simp_all add: w2_def)
  obtain r tmp' w3 where a: "frame_alloc E f (word_of_nat FRAME_DYN_SIZE) w2 = (r, tmp', w3)" by (metis prod_cases3)
  note al = alloc_slot [OF a k(3)]
  have fr: "w_frames w2 = w_frames w @ [f]" using k(4) w1(1) by (simp add: w2_def push_frame_def vec_push)
  have m: "w_frames w3 = w_frames w2" "w_udp w3 = w_udp w2" "w_fibers w3 = w_fibers w2" "w_tap w3 = w_tap w2" "ready s k w3 = ready s k w2" for s k
    using al(3) by (cases w3; cases w2; simp add: ready_def fib_of_def origin_valid_def)+
  have q3: "queue_in w3" "\<forall>g \<in> set (w_frames w2). payload w3 g = payload w2 g"
    using queue_grow [OF q2(1) m(1)] al(4,5) q2(1) by (auto simp: queue_in_def)
  have w2: "w_next w2 = w_next w" "w_heap w2 = w_heap w1" "w_log w2 = w_log w1" "w_udp w2 = w_udp w" "w_fibers w2 = w_fibers w"
    "w_tap w2 = w_tap w" "payload w2 g = payload w1 g" "ready s k w2 = ready s k w" for g s k
    using w1 by (simp_all add: w2_def push_frame_def payload_def b_load_def ready_def fib_of_def origin_valid_def cong: val.case_cong)
  have "device_drain E fd (Suc n) tmp w = device_drain E fd n tmp' w3"
    using st a by (simp add: f_def w2_def Let_def)
  moreover have "w_next w2 \<notin> blocks (w_frames w3)" using q2(1) m(1) by (auto simp: queue_in_def)
  moreover have "beside {b} w w3" using w2 m al(4,5) w1(3) by (auto simp: beside_def)
  ultimately show ?thesis
    using al(1,2) q3 fr m(1) pl sz(1) q1(2) w2(1,3,7) w1(4)
    by (intro exI [of _ f] exI [of _ tmp'] exI [of _ "w_next w2"] exI [of _ w3]) (simp add: w2)
qed

lemma drain_served:
  assumes k: "kernel_ok E" "tap E fd tp" "\<forall>k. e_alloc E k" "vec_ok (e_vframe E)"
    and "slot w tmp b" "queue_in w" "b \<notin> blocks (w_frames w)"
    and "\<forall>i < length ps. tp (reads fd (w_log w) + i) = Some (ps ! i)" "tp (reads fd (w_log w) + length ps) = None"
  shows "\<exists>fs tmp' b' w'. device_drain E fd (Suc (length ps + m)) tmp w = Some (tmp', w') \<and> slot w' tmp' b' \<and> queue_in w'
    \<and> b' \<notin> blocks (w_frames w') \<and> w_frames w' = w_frames w @ fs \<and> map (payload w') fs = map Some ps
    \<and> map f_size fs = map (\<lambda>p. word_of_nat (length p)) ps
    \<and> (\<forall>g \<in> set (w_frames w). payload w' g = payload w g) \<and> reads fd (w_log w') = reads fd (w_log w) + Suc (length ps)
    \<and> beside {b} w w'"
  using assms(5-)
proof (induction ps arbitrary: tmp w b)
  case Nil
  let ?c = "Sys_read fd FRAME_DYN_SIZE"
  obtain blk where b: "f_frame tmp = Vptr b 2" "w_heap w b = Some blk" "length blk = FRAME_DYN_SIZE + 2"
    using Nil(1) by (auto simp: slot_def)
  have e: "e_ret E (w_log w) (Sys ?c) = -1" "received E (w_log w) ?c = []"
    using k(2) Nil(5) unfolding tap_def Let_def by (auto simp: received_def dest!: spec [of _ "w_log w"])
  let ?w = "snd (call E (Sys ?c) w)"
  have "k_store E ?c (f_frame tmp) FRAME_DYN_SIZE w = Some (Vint (-1), ?w)"
    using k_store_ok [OF k(1), of ?c FRAME_DYN_SIZE w b blk 2] b e by (simp add: call_def Let_def fun_upd_idem)
  then have "device_drain E fd (Suc (length [] + m)) tmp w = Some (tmp, ?w)" by simp
  moreover have "w_frames ?w = w_frames w" "w_next ?w = w_next w" "w_heap ?w = w_heap w" "w_udp ?w = w_udp w" "w_fibers ?w = w_fibers w" "w_tap ?w = w_tap w"
    "reads fd (w_log ?w) = Suc (reads fd (w_log w))"
    by (simp_all add: call_def Let_def)
  ultimately show ?case
    using Nil(1-3) queue_grow [OF Nil(2), of ?w]
    by (intro exI [of _ "[]"] exI [of _ tmp] exI [of _ b] exI [of _ ?w]) (simp add: slot_def beside_def)
next
  case (Cons p ps)
  have p: "tp (reads fd (w_log w)) = Some p" using Cons.prems(4) by (auto dest: spec [of _ 0])
  from drain_packet [OF k Cons.prems(1-3) p, of "Suc (length ps + m)"]
  obtain f tmp1 b1 w1 where x: "device_drain E fd (Suc (Suc (length ps + m))) tmp w = device_drain E fd (Suc (length ps + m)) tmp1 w1"
    "slot w1 tmp1 b1" "queue_in w1" "b1 \<notin> blocks (w_frames w1)" "w_frames w1 = w_frames w @ [f]" "payload w1 f = Some p"
    "f_size f = word_of_nat (length p)" "\<forall>g \<in> set (w_frames w). payload w1 g = payload w g" "reads fd (w_log w1) = Suc (reads fd (w_log w))"
    "beside {b} w w1" "w_next w \<le> b1"
    by blast
  have "\<forall>i < length ps. tp (reads fd (w_log w1) + i) = Some (ps ! i)" "tp (reads fd (w_log w1) + length ps) = None"
    using Cons.prems(4,5) x(9) by (auto dest: spec [of _ "Suc _"])
  from Cons.IH [OF x(2-4) this]
  obtain fs tmp' b' w' where y: "device_drain E fd (Suc (length ps + m)) tmp1 w1 = Some (tmp', w')" "slot w' tmp' b'" "queue_in w'"
    "b' \<notin> blocks (w_frames w')" "w_frames w' = w_frames w1 @ fs" "map (payload w') fs = map Some ps"
    "map f_size fs = map (\<lambda>p. word_of_nat (length p)) ps" "\<forall>g \<in> set (w_frames w1). payload w' g = payload w1 g"
    "reads fd (w_log w') = reads fd (w_log w1) + Suc (length ps)" "beside {b1} w1 w'"
    by blast
  have "beside {b} w w'" using beside_trans [OF x(10) y(10)] x(11) by auto
  then show ?case
    using x y by (intro exI [of _ "f # fs"] exI [of _ tmp'] exI [of _ b'] exI [of _ w']) simp
qed

section \<open>A round of the device fiber\<close>

text \<open>The broadcasting fiber \<open>F\<close> is there and can be woken.\<close>

definition brd_ready :: "nat \<Rightarrow> 'w uworld_scheme \<Rightarrow> bool" where
  "brd_ready F w \<longleftrightarrow> (\<exists>u f. w_udp w = Some u \<and> u_brd_fib u = Some F \<and> w_fibers w F = Some f \<and> yield_event f \<noteq> 0)"

text \<open>
  What the fiber relies on while it sleeps: nobody else reads the device or touches the block
  \<open>b\<close> it has allocated, the queue stays well-formed and the broadcasting fiber stays there. The
  queue may be emptied.
\<close>

definition tap_calm :: "int \<Rightarrow> nat \<Rightarrow> nat \<Rightarrow> 'w uworld_scheme \<Rightarrow> 'w uworld_scheme \<Rightarrow> bool" where
  "tap_calm fd F b w w' \<longleftrightarrow> w_heap w' b = w_heap w b \<and> w_next w \<le> w_next w' \<and> reads fd (w_log w') = reads fd (w_log w)
     \<and> (brd_ready F w \<longrightarrow> brd_ready F w') \<and> (queue_in w \<and> b \<notin> blocks (w_frames w) \<longrightarrow> queue_in w' \<and> b \<notin> blocks (w_frames w'))"

lemma tap_calm_refl [simp]: "tap_calm fd F b w w"
  by (simp add: tap_calm_def)

lemma wake_served:
  assumes "brd_ready F w"
  shows "\<exists>ev. ev \<noteq> 0 \<and> broadcast_udp_to_peers E w = Some (call0 E (Lev (Ev_active ev EV_TIMEOUT)) w)"
  using assms by (auto simp: brd_ready_def broadcast_udp_to_peers_def async_wake_def ev_active_def)

lemma uworld_more: "sworld.more (w' :: 'w uworld_scheme) = sworld.more w \<Longrightarrow>
    w_udp w' = w_udp w \<and> w_frames w' = w_frames w \<and> w_fgen w' = w_fgen w \<and> w_tap w' = w_tap w"
  by (cases w; cases w') simp

text \<open>The sleep: the fiber continues with its block and a well-formed queue.\<close>

lemma sleep_served:
  fixes w :: "'w uworld_scheme"
  assumes ok: "events_ok E" "ready s k w" "polite s k (tap_calm fd F b) others"
    and sl: "slot w tmp b" "queue_in w" "b \<notin> blocks (w_frames w)" "brd_ready F w" and F: "F \<noteq> k"
  shows "\<exists>r w'. async_event E (ev_loop E k others) s fd EV_READ w = Some (r, w') \<and> ready s k w' \<and> slot w' tmp b \<and> queue_in w'
    \<and> b \<notin> blocks (w_frames w') \<and> brd_ready F w' \<and> reads fd (w_log w') = reads fd (w_log w)"
proof -
  from async_event_served [OF ok, of fd]
  obtain v v' ls r w' where x: "tap_calm fd F b v v'" "w_log v = w_log w @ ls" "lev_only ls" "w_heap v = w_heap w"
    "w_next v = w_next w" "sworld.more v = sworld.more w"
    "async_event E (ev_loop E k others) s fd EV_READ w = Some (r, w')" "ready s k w'"
    "w_log w' = w_log v'" "w_heap w' = w_heap v'" "w_next w' = Suc (w_next v')" "sworld.more w' = sworld.more v'"
    "\<forall>j. j \<noteq> k \<longrightarrow> w_fibers v j = w_fibers w j \<and> w_fibers w' j = w_fibers v' j"
    by blast
  note mv = uworld_more [OF x(6)] and mw = uworld_more [OF x(12)]
  have "w_fibers v F = w_fibers w F" "w_fibers w' F = w_fibers v' F" using x(13) F by blast+
  then have b: "brd_ready F v" "brd_ready F w' = brd_ready F v'" using sl(4) mv mw by (simp_all add: brd_ready_def)
  have q: "queue_in v" "b \<notin> blocks (w_frames v)" using queue_grow(1) [OF sl(2), of v] mv x(4,5) sl(3) by simp_all
  have v': "queue_in v'" "b \<notin> blocks (w_frames v')" "brd_ready F v'" "w_heap v' b = w_heap v b" "w_next v \<le> w_next v'"
    "reads fd (w_log v') = reads fd (w_log v)"
    using x(1) q b(1) by (simp_all add: tap_calm_def)
  have "queue_in w'" using queue_grow(1) [OF v'(1), of w'] mw x(10,11) by simp
  moreover have "slot w' tmp b" using sl(1) x(4,5,10,11) v'(4,5) by (auto simp: slot_def)
  ultimately show ?thesis
    using x(2,3,7-9) v'(2,3,6) b(2) mw by (intro exI [of _ r] exI [of _ w']) simp
qed

text \<open>The last, unused frame is freed; the queue does not notice.\<close>

lemma free_slot:
  assumes "slot w tmp b" and "queue_in w" and "b \<notin> blocks (w_frames w)"
  shows "\<exists>w'. frame_free tmp w = Some w' \<and> queue_in w' \<and> w_frames w' = w_frames w \<and> w_heap w' b = None \<and> w_log w' = w_log w
    \<and> (\<forall>f \<in> set (w_frames w). payload w' f = payload w f) \<and> (\<forall>s k. ready s k w' = ready s k w) \<and> w_udp w' = w_udp w"
proof -
  let ?w = "w\<lparr>w_heap := (w_heap w)(b := None)\<rparr>"
  have "frame_free tmp w = Some ?w" using assms(1) by (auto simp: slot_def frame_free_def b_free_def)
  moreover have "\<forall>c \<in> blocks (w_frames w). w_heap ?w c = w_heap w c" using assms(3) by auto
  ultimately show ?thesis using queue_grow [OF assms(2), of ?w] by (intro exI [of _ ?w]) simp
qed

lemma payloads_cong: "\<forall>f \<in> A. payload w' f = payload w f \<Longrightarrow> set fs \<subseteq> A \<Longrightarrow> map (payload w') fs = map (payload w) fs"
  by auto

lemma round_served:
  fixes w :: "'w uworld_scheme"
  assumes ok: "events_ok E" "kernel_ok E" "\<forall>k. e_alloc E k" "vec_ok (e_vframe E)" "tap E fd tp"
    and st: "ready s k w" "queue_in w" "brd_ready F w" "F \<noteq> k" and pol: "polite s k (tap_calm fd F (w_next w)) others"
    and ps: "\<forall>i < length ps. tp (reads fd (w_log w) + i) = Some (ps ! i)" "tp (reads fd (w_log w) + length ps) = None"
  shows "\<exists>old fs tmp' w'. device_round E (ev_loop E k others) s fd (Suc (length ps + m)) tmp w = Some (tmp', w')
    \<and> ready s k w' \<and> queue_in w' \<and> w_frames w' = old @ fs \<and> map (payload w') fs = map Some ps
    \<and> map f_size fs = map (\<lambda>p. word_of_nat (length p)) ps
    \<and> (w_frames w' \<noteq> [] \<longrightarrow> (\<exists>ev r. ev \<noteq> 0 \<and> last (w_log w') = (Lev (Ev_active ev EV_TIMEOUT), r)))
    \<and> (\<exists>b. f_raw tmp' = Vptr b 0 \<and> w_heap w' b = None)"
proof -
  obtain r0 t1 w1 where a: "frame_alloc E tmp (word_of_nat FRAME_DYN_SIZE) w = (r0, t1, w1)" by (metis prod_cases3)
  note al = alloc_slot [OF a ok(3)]
  have m: "w_frames w1 = w_frames w" "w_udp w1 = w_udp w" "w_fibers w1 = w_fibers w" "ready s k w1"
    using al(3) st(1) by (cases w1; cases w; simp add: ready_def fib_of_def origin_valid_def)+
  have q1: "queue_in w1" using queue_grow(1) [OF st(2) m(1)] al(4,5) st(2) by (auto simp: queue_in_def)
  have n1: "w_next w \<notin> blocks (w_frames w1)" using st(2) m(1) by (auto simp: queue_in_def)
  have "brd_ready F w1" using st(3) m by (simp add: brd_ready_def)
  from sleep_served [OF ok(1) m(4) pol al(1) q1 n1 this st(4)]
  obtain r w2 where w2: "async_event E (ev_loop E k others) s fd EV_READ w1 = Some (r, w2)" "ready s k w2" "slot w2 t1 (w_next w)" "queue_in w2"
    "w_next w \<notin> blocks (w_frames w2)" "brd_ready F w2" "reads fd (w_log w2) = reads fd (w_log w)"
    using al(2) by auto
  from drain_served [OF ok(2,5,3,4) w2(3-5), of ps m] ps
  obtain fs t3 b3 w3 where w3: "device_drain E fd (Suc (length ps + m)) t1 w2 = Some (t3, w3)" "slot w3 t3 b3" "queue_in w3"
    "b3 \<notin> blocks (w_frames w3)" "w_frames w3 = w_frames w2 @ fs" "map (payload w3) fs = map Some ps"
    "map f_size fs = map (\<lambda>p. word_of_nat (length p)) ps" "beside {w_next w} w2 w3"
    by (auto simp: w2(7))
  have br: "brd_ready F w3" "ready s k w3" using w2(2,6) w3(8) by (simp_all add: brd_ready_def beside_def)
  obtain ev where ev: "ev \<noteq> 0" "broadcast_udp_to_peers E w3 = Some (call0 E (Lev (Ev_active ev EV_TIMEOUT)) w3)" using wake_served [OF br(1)] by blast
  define w4 where "w4 = (if length (w_frames w3) > 0 then call0 E (Lev (Ev_active ev EV_TIMEOUT)) w3 else w3)"
  have l: "w_frames w4 = w_frames w3" "w_heap w4 = w_heap w3" "w_next w4 = w_next w3" "ready s k w4"
    "w_frames w4 \<noteq> [] \<longrightarrow> (\<exists>r. last (w_log w4) = (Lev (Ev_active ev EV_TIMEOUT), r))"
    using br(2) by (simp_all add: w4_def call0_def call_def Let_def ready_def fib_of_def origin_valid_def)
  have s4: "slot w4 t3 b3" "queue_in w4" "b3 \<notin> blocks (w_frames w4)" "\<forall>f \<in> set (w_frames w3). payload w4 f = payload w3 f"
    using w3(2-4) l queue_grow [OF w3(3), of w4] by (simp_all add: slot_def)
  from free_slot [OF s4(1-3)]
  obtain w5 where w5: "frame_free t3 w4 = Some w5" "queue_in w5" "w_frames w5 = w_frames w4" "w_heap w5 b3 = None" "w_log w5 = w_log w4"
    "\<forall>f \<in> set (w_frames w4). payload w5 f = payload w4 f" "\<forall>s k. ready s k w5 = ready s k w4"
    by blast
  have "device_round E (ev_loop E k others) s fd (Suc (length ps + m)) tmp w = Some (t3, w5)"
    using a w2(1) w3(1) ev(2) w5(1) by (cases "w_frames w3 = []") (simp_all add: device_round_def w4_def del: device_drain.simps)
  moreover have "map (payload w5) fs = map (payload w4) fs" by (rule payloads_cong [OF w5(6)]) (simp add: l(1) w3(5))
  moreover have "map (payload w4) fs = map (payload w3) fs" by (rule payloads_cong [OF s4(4)]) (simp add: w3(5))
  ultimately show ?thesis
    using w5 l w3(5-7) ev(1) s4(1)
    by (intro exI [of _ "w_frames w2"] exI [of _ fs] exI [of _ t3] exI [of _ w5]) (auto simp: slot_def)
qed

text \<open>
  Claim C8. One round of the device fiber: the packets \<open>ps\<close> that wait in the device, however many,
  are appended to the queue in order, each in a block of its own with its exact length, whatever
  the other fibers did to the queue while this one slept; the broadcasting fiber is woken if the
  queue is not empty, and the frame allocated in excess is freed. As many reads as there are
  packets and one more are enough.
\<close>

theorem device_round_queues:
  assumes "events_ok E" and "kernel_ok E" and "\<forall>k. e_alloc E k" and "vec_ok (e_vframe E)" and "tap E fd tp"
    and "ready s k w" and "queue_in w" and "brd_ready F w" and "F \<noteq> k" and "polite s k (tap_calm fd F (w_next w)) others"
    and "\<forall>i < length ps. tp (reads fd (w_log w) + i) = Some (ps ! i)" and "tp (reads fd (w_log w) + length ps) = None"
  shows "\<exists>old fs tmp' w'. device_round E (ev_loop E k others) s fd (Suc (length ps + m)) tmp w = Some (tmp', w')
    \<and> ready s k w' \<and> queue_in w' \<and> w_frames w' = old @ fs \<and> map (payload w') fs = map Some ps
    \<and> map f_size fs = map (\<lambda>p. word_of_nat (length p)) ps
    \<and> (w_frames w' \<noteq> [] \<longrightarrow> (\<exists>ev r. ev \<noteq> 0 \<and> last (w_log w') = (Lev (Ev_active ev EV_TIMEOUT), r)))
    \<and> (\<exists>b. f_raw tmp' = Vptr b 0 \<and> w_heap w' b = None)"
  using round_served [OF assms] .

section \<open>A concrete device\<close>

text \<open>One packet of three bytes waits in the device.\<close>

definition demo_denv :: uenv where
  "demo_denv = (demo_uenv demo_P True)\<lparr>
     e_ret := (\<lambda>h c. case c of Sys (Sys_read fd n) \<Rightarrow> (if reads fd h = 0 \<and> 3 \<le> n then 3 else -1)
                     | _ \<Rightarrow> e_ret (demo_uenv demo_P True) h c),
     e_out := (\<lambda>h c. case c of Sys (Sys_read fd n) \<Rightarrow> [4, 5, 6] | _ \<Rightarrow> e_out (demo_uenv demo_P True) h c)\<rparr>"

definition demo_dworld :: uworld where
  "demo_dworld = demo_uworld\<lparr>w_udp := Some (demo_udp\<lparr>u_brd_fib := Some 5\<rparr>), w_fibers := [6 \<mapsto> demo_fiber, 5 \<mapsto> demo_fiber]\<rparr>"

definition demo_tap :: "nat \<Rightarrow> bytes option" where
  "demo_tap i = (if i = 0 then Some [4, 5, 6] else None)"

lemma demo_denv_ok [simp]:
  "events_ok demo_denv" "kernel_ok demo_denv" "e_alloc demo_denv = (\<lambda>k. True)" "e_vframe demo_denv = list_vec" "tap demo_denv fd demo_tap"
proof -
  show "events_ok demo_denv" using demo_uenv_ok(1) [of demo_P True] by (simp add: demo_denv_def events_ok_def map_ok_def)
  show "kernel_ok demo_denv"
    unfolding kernel_ok_def
  proof (intro allI impI)
    fix h c n
    assume c: "recv_room c = Some n"
    show "e_ret demo_denv h (Sys c) = -1 \<or> 0 \<le> e_ret demo_denv h (Sys c)
      \<and> length (e_out demo_denv h (Sys c)) = nat (e_ret demo_denv h (Sys c)) \<and> length (e_out demo_denv h (Sys c)) \<le> n"
      using c demo_uenv_ok(2) [of demo_P True] unfolding kernel_ok_def by (cases c) (force simp: demo_denv_def)+
  qed
  show "e_alloc demo_denv = (\<lambda>k. True)" "e_vframe demo_denv = list_vec" by (simp_all add: demo_denv_def)
  show "tap demo_denv fd demo_tap" by (simp add: tap_def demo_tap_def demo_denv_def FRAME_DYN_SIZE_def)
qed

lemma demo_dworld_ok [simp]:
  "ready 2 6 demo_dworld" "queue_in demo_dworld" "brd_ready 5 demo_dworld" "w_log demo_dworld = []"
proof -
  show "ready 2 6 demo_dworld" using demo_uworld_ok(1) by (simp add: demo_dworld_def demo_uworld_def ready_def fib_of_def origin_valid_def)
  have "blocks [demo_frame] = {9}" by (auto simp: blocks_def demo_frame_def)
  moreover have "frame_ok demo_dworld demo_frame"
    by (simp add: demo_dworld_def demo_uworld_def frame_ok_def demo_frame_def sizeof_packet_hdr_def)
  ultimately show "queue_in demo_dworld" by (simp add: queue_in_def queue_ok_def) (simp add: demo_dworld_def demo_uworld_def queue_ok_def)
  show "brd_ready 5 demo_dworld" by (simp add: brd_ready_def demo_dworld_def demo_fiber_def)
  show "w_log demo_dworld = []" by (simp add: demo_dworld_def)
qed

theorem device_round_queues_witness:
  "\<exists>old f tmp' w'. device_round demo_denv (ev_loop demo_denv 6 Some) 2 6 2 demo_frame demo_dworld = Some (tmp', w')
     \<and> w_frames w' = old @ [f] \<and> payload w' f = Some [4, 5, 6]"
proof -
  have "polite 2 6 (tap_calm 6 5 (w_next demo_dworld)) Some" by (rule polite_idle) simp
  with device_round_queues [of demo_denv 6 demo_tap 2 6 demo_dworld 5 Some "[[4, 5, 6]]" 0 demo_frame]
  obtain old fs tmp' w' where x: "device_round demo_denv (ev_loop demo_denv 6 Some) 2 6 (Suc (length [[4 :: byte, 5, 6]] + 0)) demo_frame demo_dworld = Some (tmp', w')"
    "w_frames w' = old @ fs" "map (payload w') fs = map Some [[4, 5, 6]]"
    by (auto simp: demo_tap_def simp del: list.map)
  obtain f where "fs = [f]" "payload w' f = Some [4, 5, 6]" using x(3) by auto
  moreover have "Suc (length [[4 :: byte, 5, 6]] + 0) = 2" by simp
  ultimately show ?thesis using x(1,2) by metis
qed

end
