(* ===== verification/Dtls_Io.thy ===== *)
theory Dtls_Io
  imports Peers
begin

text \<open>
  Sending and receiving through DTLS (the rest of \<open>src/dtls.c\<close>). No other file calls these
  functions. A null SSL object makes OpenSSL dereference it, which is undefined; a negative number
  of bytes given to \<open>async_sendto\<close> becomes a huge one and the packet would be read past the
  buffer, which is undefined as well.
\<close>

definition dtls_do_handshake :: int where
  "dtls_do_handshake = -1"

text \<open>A call of OpenSSL that stores bytes through a pointer and returns their number.\<close>

definition t_store :: "'e env_scheme \<Rightarrow> tls \<Rightarrow> val \<Rightarrow> nat \<Rightarrow> 'w world_scheme \<Rightarrow> (int \<times> 'w world_scheme) option" where
  "t_store E c buf len w =
     (let out = e_out E (w_log w) (Tls c); (r, w1) = call E (Tls c) w
      in do { w2 \<leftarrow> b_store buf (take (min (nat r) len) out) w1; Some (r, w2) })"

definition dtls_sendto ::
    "'e senv_scheme \<Rightarrow> 'w run \<Rightarrow> nat \<Rightarrow> int \<Rightarrow> val \<Rightarrow> nat \<Rightarrow> int \<Rightarrow> val \<Rightarrow> int \<Rightarrow> udp_peer \<Rightarrow> 'w sworld_scheme
      \<Rightarrow> (val \<times> 'w sworld_scheme) option" where
  "dtls_sendto E R s sockfd buf len flags addr socklen peer w =
     (if pe_ssl peer = 0 then None
      else
        do { d \<leftarrow> b_load buf len w;
             let (err, w) = call E (Tls (Ssl_write (pe_ssl peer) d)) w;
             if err \<noteq> int len then Some (Vint (-1), w)
             else
               do { let (tbuf, w) = b_local E UDP_MTU w;
                    (ret, w) \<leftarrow> t_store E (Bio_read (pe_bio peer) UDP_MTU) tbuf UDP_MTU w;
                    if ret = 0 then Some (Vint 0, w)
                    else if ret < 0 then None
                    else
                      do { (err, w) \<leftarrow> async_sendto E R s sockfd tbuf (nat ret) flags addr socklen w;
                           if err \<noteq> Vint ret then Some (Vint (-1), w) else Some (err, w) } } })"

definition find_peer :: "'e uenv_scheme \<Rightarrow> bytes \<Rightarrow> udp_peer \<Rightarrow> bool" where
  "find_peer E addr P \<longleftrightarrow> e_cmp E (e_addr (pe_addr P)) addr = 0"

text \<open>
  The search returns the end of the table when there is no such peer, and the result is compared
  with NULL. \<open>isnull\<close> says whether an iterator is NULL, which the end of a table without memory
  can be.
\<close>

definition recvfrom_peer ::
    "'e uenv_scheme \<Rightarrow> (udp_peer list \<Rightarrow> nat \<Rightarrow> bool) \<Rightarrow> val \<Rightarrow> val \<Rightarrow> 'w uworld_scheme \<Rightarrow> (udp_peer \<times> 'w uworld_scheme) option" where
  "recvfrom_peer E isnull addr socklen w =
     do { u \<leftarrow> w_udp w;
          sl \<leftarrow> b_load socklen 4 w;
          sa \<leftarrow> b_load addr (unat (of_le32 sl)) w;
          let i = v_find_if (e_vpeer E) (find_peer E sa) (u_peers u);
          (i, w) \<leftarrow> (if isnull (u_peers u) i
                     then do { e \<leftarrow> endpoint_init sa (of_le32 sl); udp_register_new_peer E e (DTLS_ENABLE OR DTLS_SERVER) w }
                     else Some (i, w));
          u \<leftarrow> w_udp w;
          p \<leftarrow> at (u_peers u) i;
          Some (p, w) }"

definition dtls_recvfrom ::
    "'e uenv_scheme \<Rightarrow> (udp_peer list \<Rightarrow> nat \<Rightarrow> bool) \<Rightarrow> 'w urun \<Rightarrow> nat \<Rightarrow> int \<Rightarrow> val \<Rightarrow> nat \<Rightarrow> int \<Rightarrow> val \<Rightarrow> val \<Rightarrow> 'w uworld_scheme
      \<Rightarrow> (val \<times> 'w uworld_scheme) option" where
  "dtls_recvfrom E isnull R s sockfd buf len flags addr socklen w =
     do { let (tbuf, w) = b_local E UDP_MTU w;
          (nread, w) \<leftarrow> async_recvfrom E R s sockfd tbuf (int UDP_MTU) flags addr socklen w;
          if nread = Vint (-1) then Some (Vint (-1), w)
          else
            do { n \<leftarrow> val_int nread;
                 (peer, w) \<leftarrow> recvfrom_peer E isnull addr socklen w;
                 d \<leftarrow> b_load tbuf (nat n) w;
                 let w = call0 E (Tls (Bio_write (pe_bio peer) d)) w;
                 (err, w) \<leftarrow> (if pe_ssl peer = 0 then None else t_store E (Ssl_read (pe_ssl peer) len) buf len w);
                 let (pending, w) = call E (Tls (Bio_pending (pe_bio peer))) w;
                 if pending > 0
                 then
                   do { (sz, w) \<leftarrow> t_store E (Bio_read (pe_bio peer) UDP_MTU) tbuf UDP_MTU w;
                        sl \<leftarrow> b_load socklen 4 w;
                        (_, w) \<leftarrow> (if sz < 0 then None else async_sendto E R s sockfd tbuf (nat sz) flags addr (sint (of_le32 sl)) w);
                        Some (Vint err, w) }
                 else Some (Vint err, w) } }"

section \<open>An unknown sender\<close>

text \<open>
  A datagram from a sender that is not in the table is never handled: either the end of the table
  is dereferenced, or the sender is registered with flags for which no SSL object is made.
\<close>

lemma recvfrom_unknown:
  assumes V: "vec_ok (e_vpeer E)" and u: "w_udp w = Some u" and sa: "b_load socklen 4 w = Some sl" "b_load addr (unat (of_le32 sl)) w = Some sa"
    and n: "\<forall>p \<in> set (u_peers u). e_cmp E (e_addr (pe_addr p)) sa \<noteq> 0" and r: "recvfrom_peer E isnull addr socklen w = Some (p, w')"
  shows "pe_ssl p = 0"
proof -
  let ?i = "v_find_if (e_vpeer E) (find_peer E sa) (u_peers u)"
  have i: "?i = length (u_peers u)" using vec_find [OF V, of "find_peer E sa" "u_peers u"] n by (auto simp: find_peer_def)
  show ?thesis
  proof (cases "isnull (u_peers u) ?i")
    case True
    then obtain e j w1 where e: "udp_register_new_peer E e (DTLS_ENABLE OR DTLS_SERVER) w = Some (j, w1)"
      and p: "(do { u \<leftarrow> w_udp w1; p \<leftarrow> at (u_peers u) j; Some (p, w1) }) = Some (p, w')"
      using r u sa by (auto simp: recvfrom_peer_def Let_def bind_eq_Some_conv)
    have f: "DTLS_ENABLE OR DTLS_SERVER \<noteq> DTLS_ENABLE" by (simp add: DTLS_ENABLE_def DTLS_SERVER_def)
    obtain c where c: "endpoint_copy \<lparr>e_addr = replicate sizeof_storage 0, e_addrlen = 0\<rparr> e = Some c"
      using e u by (auto simp: udp_register_new_peer_def bind_eq_Some_conv)
    obtain v where v: "v_insert (e_vpeer E) (u_peers u) \<lparr>pe_addr = c, pe_bio = 0, pe_bio_backend = 0, pe_ssl = 0, pe_flags = DTLS_ENABLE OR DTLS_SERVER\<rparr> = (v, j)"
      "w_udp w1 = Some (u\<lparr>u_peers := v, u_gen := Suc (u_gen u)\<rparr>)"
      using e u c f by (auto simp: udp_register_new_peer_def split: prod.splits)
    have "p = \<lparr>pe_addr = c, pe_bio = 0, pe_bio_backend = 0, pe_ssl = 0, pe_flags = DTLS_ENABLE OR DTLS_SERVER\<rparr>"
      using p v(2) vec_insert(2,3) [OF V v(1)] by (simp add: at_def)
    then show ?thesis by simp
  next
    case False
    then show ?thesis using r u sa i by (simp add: recvfrom_peer_def at_def)
  qed
qed

lemma dtls_recvfrom_unknown:
  assumes "vec_ok (e_vpeer E)"
    and "b_local E UDP_MTU w = (tbuf, w0)" "async_recvfrom E R s fd tbuf (int UDP_MTU) flags addr socklen w0 = Some (Vint n, w1)" "n \<noteq> -1"
    and "w_udp w1 = Some u" "b_load socklen 4 w1 = Some sl" "b_load addr (unat (of_le32 sl)) w1 = Some sa"
    and "\<forall>p \<in> set (u_peers u). e_cmp E (e_addr (pe_addr p)) sa \<noteq> 0"
  shows "dtls_recvfrom E isnull R s fd buf len flags addr socklen w = None"
proof (cases "recvfrom_peer E isnull addr socklen w1")
  case None
  then show ?thesis using assms(2-4) by (simp add: dtls_recvfrom_def)
next
  case (Some pw)
  obtain p w' where pw: "pw = (p, w')" by (cases pw)
  have "pe_ssl p = 0" using recvfrom_unknown [OF assms(1,5-8)] Some pw by blast
  then show ?thesis using assms(2-4) Some pw by (cases "b_load tbuf (nat n) w'") (simp_all add: dtls_recvfrom_def)
qed

end
