(* ===== verification/Dispatch.thy ===== *)
theory Dispatch
  imports Imsg
begin

text \<open>
  What the message loops of the two processes share: composing a message when memory is not
  refused, and, as a locale, a loop that takes messages from the read buffer and hands each one
  to a handler. Both processes are instances of it.
\<close>

section \<open>Composing when memory is not refused\<close>

lemma c_malloc_keeps: "c_malloc n L = (r, L') \<Longrightarrow> l_alloc_ok L' = l_alloc_ok L"
  by (auto simp: c_malloc_def split: if_splits)

lemma ibuf_open_keeps: "ibuf_open len L = (r, L') \<Longrightarrow> l_alloc_ok L' = l_alloc_ok L"
  by (auto simp: ibuf_open_def split: prod.splits option.splits dest!: c_malloc_keeps)

lemma ibuf_dynamic_keeps: "ibuf_dynamic len mx L = (r, L') \<Longrightarrow> l_alloc_ok L' = l_alloc_ok L"
  by (auto simp: ibuf_dynamic_def split: if_splits prod.splits option.splits dest!: ibuf_open_keeps)

lemma ibuf_realloc_keeps: "ibuf_realloc b len L = (r, b', L') \<Longrightarrow> l_alloc_ok L' = l_alloc_ok L"
  by (auto simp: ibuf_realloc_def c_realloc_def set_errno_def split: if_splits)

lemma ibuf_add_keeps: "ibuf_add b data L = Some (r, b', L') \<Longrightarrow> l_alloc_ok L' = l_alloc_ok L"
  by (auto simp: ibuf_add_def Let_def split: if_splits prod.splits dest!: ibuf_realloc_keeps)

lemma imsg_add_keeps: "imsg_add b data n L = Some (r, m, L') \<Longrightarrow> l_alloc_ok L' = l_alloc_ok L"
  by (auto simp: imsg_add_def split: if_splits option.splits dest!: ibuf_add_keeps)

lemma imsg_create_keeps: "imsg_create ib type peerid pid n L = Some (m, L') \<Longrightarrow> l_alloc_ok L' = l_alloc_ok L"
  by (auto simp: imsg_create_def Let_def set_errno_def split: if_splits prod.splits option.splits
      dest!: ibuf_dynamic_keeps imsg_add_keeps)

lemma imsg_compose_keeps_alloc:
  "imsg_compose ib type peerid pid fd data n L = Some (r, ib', L') \<Longrightarrow> l_alloc_ok L' = l_alloc_ok L"
  by (auto simp: imsg_compose_def split: option.splits prod.splits dest!: imsg_create_keeps imsg_add_keeps)

lemma ibuf_dynamic_total:
  assumes "alloc_total L" and "len \<le> mx" and "unat len \<le> MAX_IMSGSIZE"
  shows "\<exists>b L'. ibuf_dynamic len mx L = (Some b, L')"
proof -
  obtain b L1 where "c_malloc sizeof_ibuf L = (Some b, L1)" "alloc_total L1"
    using c_malloc_total [OF assms(1), of sizeof_ibuf] by (auto simp: sizeof_ibuf_def imsg_consts)
  moreover from c_malloc_total [OF this(2) assms(3)] obtain b' L2 where "c_malloc (unat len) L1 = (Some b', L2)" by auto
  ultimately show ?thesis using assms(2) by (simp add: ibuf_dynamic_def ibuf_open_def not_less [symmetric])
qed

lemma imsg_add_total:
  assumes inv: "ibuf_inv b" and heap: "heap_ok L" and tot: "alloc_total L" and n: "unat n \<le> length data"
    and fit: "length (ib_written b) + unat n \<le> unat (ib_max b)" "unat (ib_max b) \<le> MAX_IMSGSIZE"
  shows "\<exists>b' L'. imsg_add b data n L = Some (int (unat n), Some b', L')"
proof (cases "n = 0")
  case False
  have w: "unat (ib_wpos b) = length (ib_written b)" using length_ib_written [OF inv] by simp
  have "l_alloc_ok L (l_allocs L) (unat (ib_wpos b) + unat n)" using tot fit w by (simp add: alloc_total_def)
  moreover have "length (take (unat n) data) < 2 ^ 63" using fit by (simp add: imsg_consts)
  ultimately obtain b' L' where "ibuf_add b (take (unat n) data) L = Some (0, b', L')"
    using ibuf_add_ok [OF inv heap, of "take (unat n) data"] n fit(1) w by (auto split: if_splits)
  with n False show ?thesis by (simp add: imsg_add_def)
qed (simp add: imsg_add_def)

lemma unat_widen: "unat (ucast (x :: u16) :: size_t) = unat x"
proof -
  have "unat x < 2 ^ LENGTH(16)" by (rule unsigned_less)
  then have "unat x < 2 ^ 64" by simp
  then show ?thesis by (simp add: unsigned_ucast_eq take_bit_nat_eq_self)
qed

lemma imsg_create_total:
  assumes heap: "heap_ok L" and tot: "alloc_total L" and fit: "IMSG_HEADER_SIZE + unat n \<le> MAX_IMSGSIZE"
  shows "\<exists>b L'. imsg_create ib type peerid pid n L = Some (Some b, L')"
proof -
  let ?d = "n + word_of_nat IMSG_HEADER_SIZE"
  have d: "unat ?d = unat n + IMSG_HEADER_SIZE"
    using fit by (simp add: imsg_consts unat_word_ariths)
  have le: "(ucast ?d :: size_t) \<le> word_of_nat MAX_IMSGSIZE" "unat (ucast ?d :: size_t) \<le> MAX_IMSGSIZE"
    using fit d by (simp_all add: word_le_nat_alt unat_widen imsg_consts)
  from ibuf_dynamic_total [OF tot this] obtain b L1 where dyn: "ibuf_dynamic (ucast ?d) (word_of_nat MAX_IMSGSIZE) L = (Some b, L1)"
    by blast
  have pos: "(0 :: size_t) < word_of_nat MAX_IMSGSIZE" by (simp add: imsg_consts)
  note f = ibuf_dynamic_fields [OF dyn pos] ibuf_dynamic_inv [OF dyn heap] ibuf_dynamic_heap [OF dyn] ibuf_dynamic_keeps [OF dyn]
  have w: "ib_written b = []" using f(1) by (simp add: ib_written_def)
  have t: "heap_ok L1" "alloc_total L1" using f(3,4) heap tot by (simp_all add: alloc_total_def)
  let ?hdr = "\<lparr>h_type = type, h_len = of_le16 [l_junk L (l_allocs L) 0, l_junk L (l_allocs L) 1],
                   h_flags = 0, h_peerid = peerid, h_pid = (if pid = 0 then im_pid ib else pid)\<rparr>"
  have "\<exists>b' L'. imsg_add b (hdr_bytes ?hdr) (word_of_nat IMSG_HEADER_SIZE) L1 = Some (int (unat (word_of_nat IMSG_HEADER_SIZE :: u16)), Some b', L')"
    by (rule imsg_add_total [OF f(2) t]) (use f(1) w in \<open>simp_all add: imsg_consts\<close>)
  then obtain b' L' where "imsg_add b (hdr_bytes ?hdr) (word_of_nat IMSG_HEADER_SIZE) L1 = Some (int (unat (word_of_nat IMSG_HEADER_SIZE :: u16)), Some b', L')"
    by blast
  moreover have "int (unat (word_of_nat IMSG_HEADER_SIZE :: u16)) \<noteq> -1" by linarith
  ultimately show ?thesis using dyn d fit by (simp add: imsg_create_def Let_def)
qed

lemma imsg_compose_total:
  assumes heap: "heap_ok L" and tot: "alloc_total L" and n: "unat n \<le> length data" and w: "mb_inv (im_w ib)"
    and room: "Suc (length (mb_bufs (im_w ib))) < 2 ^ 32" and fit: "IMSG_HEADER_SIZE + unat n \<le> MAX_IMSGSIZE"
  shows "\<exists>ib' L'. imsg_compose ib type peerid pid fd data n L = Some (1, ib', L') \<and> heap_ok L' \<and> alloc_total L'
    \<and> mb_inv (im_w ib') \<and> ib' = ib\<lparr>im_w := im_w ib'\<rparr>
    \<and> mb_pend (im_w ib') = mb_pend (im_w ib) @ imsg_enc (compose_hdr ib type peerid pid fd (unat n), take (unat n) data)
    \<and> open_fds (mb_bufs (im_w ib')) = open_fds (mb_bufs (im_w ib)) @ (if fd = -1 then [] else [fd])"
proof -
  from imsg_create_ok [OF heap, of ib type peerid pid n] obtain m L1 where
    cr: "imsg_create ib type peerid pid n L = Some (m, L1)" "heap_ok L1"
    and m: "case m of None \<Rightarrow> True
       | Some b \<Rightarrow> ibuf_inv b \<and> ib_rpos b = 0 \<and> ib_fd b = -1 \<and> unat (ib_max b) = MAX_IMSGSIZE
           \<and> unat (n + word_of_nat IMSG_HEADER_SIZE) \<le> MAX_IMSGSIZE
           \<and> (\<exists>len. ib_written b = hdr_bytes (compose_hdr ib type peerid pid (-1) 0\<lparr>h_len := len\<rparr>))"
    by blast
  obtain b where b: "m = Some b" using imsg_create_total [OF heap tot fit, of ib type peerid pid] cr(1) by auto
  have t: "alloc_total L1" using imsg_create_keeps [OF cr(1)] tot by (simp add: alloc_total_def)
  from m b obtain len where "ibuf_inv b" "unat (ib_max b) = MAX_IMSGSIZE"
    "ib_written b = hdr_bytes (compose_hdr ib type peerid pid (-1) 0\<lparr>h_len := len\<rparr>)" by auto
  with fit obtain b' L2 where add: "imsg_add b data n L1 = Some (int (unat n), Some b', L2)"
    using imsg_add_total [OF _ cr(2) t n, of b] by (auto simp: imsg_consts)
  obtain r ib' L' where c: "imsg_compose ib type peerid pid fd data n L = Some (r, ib', L')"
    using imsg_compose_ok [OF heap n w room] by blast
  with cr(1) b add have "r = 1" by (auto simp: imsg_compose_def)
  moreover have "alloc_total L'" using imsg_compose_keeps_alloc [OF c] tot by (simp add: alloc_total_def)
  ultimately show ?thesis
    using imsg_compose_ok [OF heap n w room, of type peerid pid fd] c by auto
qed

lemma imsg_compose_keeps:
  assumes "imsg_compose ib type peerid pid fd data n L = Some (r, ib', L')"
  shows "im_r ib' = im_r ib \<and> im_fds ib' = im_fds ib \<and> im_fd ib' = im_fd ib \<and> im_pid ib' = im_pid ib"
  using assms
  by (auto simp: imsg_compose_def imsg_close_def Let_def split: option.splits if_splits)

lemma imsg_compose_bufs:
  assumes "imsg_compose ib type peerid pid fd data n L = Some (1, ib', L')"
  shows "length (mb_bufs (im_w ib')) = Suc (length (mb_bufs (im_w ib)))"
  using assms
  by (auto simp: imsg_compose_def imsg_close_def ibuf_close_def ibuf_enqueue_def Let_def split: option.splits if_splits)

text \<open>What is left of a stream of well-formed messages when the whole ones are taken is incomplete, never bad.\<close>

lemma rest_more:
  assumes "\<forall>m \<in> set ms. imsg_wf m" and "t @ q = concat (map imsg_enc ms)" and "decode_all imsg_next t = ([], t)"
  shows "imsg_next t = More"
proof (cases ms)
  case Nil
  with assms(2) imsgs.dec_nil show ?thesis by simp
next
  case (Cons m ms')
  then have m: "imsg_wf m" using assms(1) by simp
  show ?thesis
  proof (cases "length t < length (imsg_enc m)")
    case True
    have "t = take (length t) (t @ q)" by simp
    also have "\<dots> = take (length t) (imsg_enc m)" using True assms(2) Cons by simp
    finally show ?thesis using imsgs.dec_short [OF m True] by simp
  next
    case False
    then have "take (length (imsg_enc m)) t = imsg_enc m"
      using arg_cong [OF assms(2), of "take (length (imsg_enc m))"] Cons by simp
    then obtain t' where "t = imsg_enc m @ t'" by (metis append_take_drop_id)
    with imsgs.decode_all_step [OF m, of t'] assms(3) show ?thesis by (simp split: prod.splits)
  qed
qed

section \<open>A loop over messages\<close>

text \<open>The messages are handled one after the other.\<close>

fun in_order :: "('m \<Rightarrow> 'a \<Rightarrow> 'a \<Rightarrow> bool) \<Rightarrow> 'm list \<Rightarrow> 'a \<Rightarrow> 'a \<Rightarrow> bool" where
  "in_order S [] a a' \<longleftrightarrow> a' = a"
| "in_order S (m # ms) a a'' \<longleftrightarrow> (\<exists>a'. S m a a' \<and> in_order S ms a' a'')"

lemma in_order_append: "in_order S (ms @ ms') a a'' \<longleftrightarrow> (\<exists>a'. in_order S ms a a' \<and> in_order S ms' a' a'')"
  by (induction ms arbitrary: a) auto

text \<open>
  A process with a read buffer: \<open>loop s s'\<close> says that its loop, started in \<open>s\<close>, returns normally
  in \<open>s'\<close>. Its handler does what \<open>serves\<close> says; \<open>R k s a\<close> relates a state to what it stands for
  and leaves room for \<open>k\<close> more messages.
\<close>

locale dispatcher =
  fixes buf :: "'s \<Rightarrow> imsgbuf" and mem :: "'s \<Rightarrow> libc" and put :: "imsgbuf \<Rightarrow> libc \<Rightarrow> 's \<Rightarrow> 's"
    and loop :: "'s \<Rightarrow> 's \<Rightarrow> bool" and handle :: "imsg \<Rightarrow> 's \<Rightarrow> 's option"
    and R :: "nat \<Rightarrow> 's \<Rightarrow> 'a \<Rightarrow> bool" and serves :: "imsg \<Rightarrow> 'a \<Rightarrow> 'a \<Rightarrow> bool"
  assumes stop: "imsg_get (buf s) (mem s) = (0, None, ib, L) \<Longrightarrow> loop s (put ib L s)"
    and step: "imsg_get (buf s) (mem s) = (n, Some m, ib, L) \<Longrightarrow> n \<noteq> -1 \<Longrightarrow> handle m (put ib L s) = Some s1 \<Longrightarrow>
      loop s1 s2 \<Longrightarrow> loop s s2"
    and handled: "R (Suc k) s a \<Longrightarrow> serves m a a' \<Longrightarrow> \<exists>s'. handle m s = Some s' \<and> R k s' a'
      \<and> im_r (buf s') = im_r (buf s) \<and> im_fds (buf s') = im_fds (buf s)"
    and R_put: "R k s a \<Longrightarrow> im_w ib = im_w (buf s) \<Longrightarrow> im_pid ib = im_pid (buf s) \<Longrightarrow> l_alloc_ok L = l_alloc_ok (mem s) \<Longrightarrow> R k (put ib L s) a"
    and R_mem: "R k s a \<Longrightarrow> alloc_total (mem s)"
    and buf_put: "buf (put ib L s) = ib" and mem_put: "mem (put ib L s) = L"
begin

lemma loop_serves:
  assumes "R (length ms + k) s a" and "decode_all imsg_next (im_r (buf s)) = (ms, r)" and "imsg_next r = More"
    and "in_order serves (fst (deliver ms (im_fds (buf s)))) a a'"
  shows "\<exists>s'. loop s s' \<and> R k s' a' \<and> im_r (buf s') = r \<and> im_fds (buf s') = snd (deliver ms (im_fds (buf s)))"
  using assms
proof (induction ms arbitrary: s a)
  case Nil
  show ?case
  proof (cases "imsg_next (im_r (buf s))")
    case More
    then have g: "imsg_get (buf s) (mem s) = (0, None, buf s, mem s)" by (simp add: imsg_get_ok)
    from Nil.prems(2) More have "r = im_r (buf s)" by (simp add: decode_all.simps [of imsg_next "im_r (buf s)"])
    with Nil stop [OF g] R_put [of k s a "buf s" "mem s"] show ?thesis
      by (intro exI [of _ "put (buf s) (mem s) s"]) (simp add: buf_put)
  next
    case (Frame m rest)
    with imsg_next_frame [OF Frame] Nil.prems(2) show ?thesis
      by (auto simp: decode_all.simps [of imsg_next "im_r (buf s)"] split: prod.splits if_splits)
  next
    case Bad
    with Nil.prems(2,3) show ?thesis by (auto simp: decode_all.simps [of imsg_next "im_r (buf s)"])
  qed
next
  case (Cons m ms)
  obtain rest where fr: "imsg_next (im_r (buf s)) = Frame m rest" and d: "decode_all imsg_next rest = (ms, r)"
    using Cons.prems(2) by (auto simp: decode_all.simps [of imsg_next "im_r (buf s)"] split: frame_res.splits prod.splits if_splits)
  obtain h dt where m: "m = (h, dt)" by (metis surj_pair)
  obtain b L1 where L1: "c_malloc (length dt) (mem s) = (Some b, L1)" "l_alloc_ok L1 = l_alloc_ok (mem s)"
    using c_malloc_total [OF R_mem [OF Cons.prems(1)], of "length dt"] imsg_next_frame [OF fr] m c_malloc_keeps by fastforce
  let ?ib = "(buf s)\<lparr>im_r := rest, im_fds := snd (fd_of h (im_fds (buf s)))\<rparr>"
  let ?m = "\<lparr>i_hdr = h, i_fd = fst (fd_of h (im_fds (buf s))), i_data = dt\<rparr>"
  have g: "imsg_get (buf s) (mem s) = (int (length dt + IMSG_HEADER_SIZE), Some ?m, ?ib, L1)"
    using fr m L1 by (simp add: imsg_get_ok)
  have del: "deliver (m # ms) (im_fds (buf s)) = (?m # fst (deliver ms (im_fds ?ib)), snd (deliver ms (im_fds ?ib)))"
    by (simp add: m split: prod.splits)
  obtain a1 where a1: "serves ?m a a1" "in_order serves (fst (deliver ms (im_fds ?ib))) a1 a'"
    using Cons.prems(4) unfolding del by auto
  have "R (Suc (length ms + k)) (put ?ib L1 s) a" using R_put [OF Cons.prems(1), of ?ib L1] L1 by simp
  from handled [OF this a1(1)] obtain s1 where s1: "handle ?m (put ?ib L1 s) = Some s1" "R (length ms + k) s1 a1"
    "im_r (buf s1) = rest" "im_fds (buf s1) = im_fds ?ib" by (auto simp: buf_put)
  with Cons.IH [OF s1(2)] d Cons.prems(3) a1(2) obtain s' where
    "loop s1 s'" "R k s' a'" "im_r (buf s') = r" "im_fds (buf s') = snd (deliver ms (im_fds ?ib))" by auto
  moreover have "int (length dt + IMSG_HEADER_SIZE) \<noteq> -1" by linarith
  ultimately show ?case using step [OF g _ s1(1)] unfolding del by auto
qed

end

end
