(* ===== verification/Priv.thy ===== *)
theory Priv
  imports Dispatch Conf Sched
begin

text \<open>
  The privileged process: the virtual interface (\<open>src/tun-compat.c\<close>) and the half of
  \<open>sys/unix/tnetacled.c\<close> that answers the requests of the unprivileged process. The libraries
  libtuntap and tapcfg, one of which is chosen when the program is built, are a parameter.
\<close>

section \<open>The virtual interface\<close>

datatype ttc_lib = USE_LIBTUNTAP | USE_TAPCFG

text \<open>The calls of the two libraries; a device is its address, 0 is NULL.\<close>

datatype tuntap_mode = TUNTAP_MODE_ETHERNET | TUNTAP_MODE_TUNNEL

datatype ttc_call =
    Tuntap_init
  | Tuntap_start int tuntap_mode
  | Tuntap_release int
  | Tuntap_destroy int
  | Tuntap_set_ip int string int
  | Tuntap_up int
  | Tuntap_down int
  | Tuntap_get_fd int
  | Tuntap_get_mtu int
  | Tapcfg_init
  | Tapcfg_start int
  | Tapcfg_destroy int
  | Tapcfg_set_ipv4 int string int
  | Tapcfg_set_status int bool
  | Tapcfg_get_fd int
  | Tapcfg_get_mtu int

type_synonym ttc_log = "(ttc_call \<times> int) list"

type_synonym ttc = "ttc_log \<Rightarrow> ttc_call \<Rightarrow> int"

definition t_call :: "ttc \<Rightarrow> ttc_call \<Rightarrow> ttc_log \<Rightarrow> int \<times> ttc_log" where
  "t_call T c h = (T h c, h @ [(c, T h c)])"

text \<open>A function of a process returns, or the process exits.\<close>

datatype 'a outcome = Exit int | Return 'a

text \<open>An unknown mode with libtuntap leaves the initialised device behind.\<close>

definition tnt_ttc_open :: "ttc_lib \<Rightarrow> ttc \<Rightarrow> int \<Rightarrow> ttc_log \<Rightarrow> (int \<times> ttc_log) outcome" where
  "tnt_ttc_open B T tunmode h =
     (case B of
        USE_LIBTUNTAP \<Rightarrow>
          (let (dev, h) = t_call T Tuntap_init h in
           if dev = 0 then Return (0, h)
           else if tunmode \<noteq> TNT_TUNMODE_TUNNEL \<and> tunmode \<noteq> TNT_TUNMODE_ETHERNET then Return (0, h)
           else
             let mode = (if tunmode = TNT_TUNMODE_TUNNEL then TUNTAP_MODE_TUNNEL else TUNTAP_MODE_ETHERNET);
                 (r, h) = t_call T (Tuntap_start dev mode) h
             in if r = -1 then Return (0, snd (t_call T (Tuntap_release dev) h)) else Return (dev, h))
      | USE_TAPCFG \<Rightarrow>
          (if tunmode = TNT_TUNMODE_TUNNEL then Exit 1
           else
             let (dev, h) = t_call T Tapcfg_init h; (r, h) = t_call T (Tapcfg_start dev) h
             in if r = -1 then Return (0, snd (t_call T (Tapcfg_destroy dev) h)) else Return (dev, h)))"

definition tnt_ttc_close :: "ttc_lib \<Rightarrow> ttc \<Rightarrow> int \<Rightarrow> ttc_log \<Rightarrow> ttc_log" where
  "tnt_ttc_close B T dev h =
     snd (t_call T (case B of USE_LIBTUNTAP \<Rightarrow> Tuntap_destroy dev | USE_TAPCFG \<Rightarrow> Tapcfg_destroy dev) h)"

text \<open>The address is given as \<open>ip/bits\<close>; the number of bits is narrowed to a \<open>short\<close>.\<close>

definition tnt_ttc_set_ip :: "ttc_lib \<Rightarrow> ttc \<Rightarrow> int \<Rightarrow> string \<Rightarrow> ttc_log \<Rightarrow> libc \<Rightarrow> (int \<times> ttc_log \<times> libc) option" where
  "tnt_ttc_set_ip B T dev addr h L =
     (case c_malloc (Suc (length addr)) L of
        (None, L) \<Rightarrow> Some (-1, h, L)
      | (Some _, L) \<Rightarrow>
          (if CHR ''/'' \<notin> set addr then Some (-1, h, L)
           else
             do { let ip = takeWhile (\<lambda>c. c \<noteq> CHR ''/'') addr;
                  let mask = tl (dropWhile (\<lambda>c. c \<noteq> CHR ''/'') addr);
                  (v, _) \<leftarrow> c_strtol (cstr mask);
                  let netbits = sint (word_of_int v :: 16 word);
                  let (ret, h) = t_call T (case B of USE_LIBTUNTAP \<Rightarrow> Tuntap_set_ip dev ip netbits
                                           | USE_TAPCFG \<Rightarrow> Tapcfg_set_ipv4 dev ip netbits) h;
                  Some (ret, h, L) }))"

definition tnt_ttc_up :: "ttc_lib \<Rightarrow> ttc \<Rightarrow> int \<Rightarrow> ttc_log \<Rightarrow> int \<times> ttc_log" where
  "tnt_ttc_up B T dev = t_call T (case B of USE_LIBTUNTAP \<Rightarrow> Tuntap_up dev | USE_TAPCFG \<Rightarrow> Tapcfg_set_status dev True)"

definition tnt_ttc_down :: "ttc_lib \<Rightarrow> ttc \<Rightarrow> int \<Rightarrow> ttc_log \<Rightarrow> int \<times> ttc_log" where
  "tnt_ttc_down B T dev = t_call T (case B of USE_LIBTUNTAP \<Rightarrow> Tuntap_down dev | USE_TAPCFG \<Rightarrow> Tapcfg_set_status dev False)"

definition tnt_ttc_get_fd :: "ttc_lib \<Rightarrow> ttc \<Rightarrow> int \<Rightarrow> ttc_log \<Rightarrow> int \<times> ttc_log" where
  "tnt_ttc_get_fd B T dev = t_call T (case B of USE_LIBTUNTAP \<Rightarrow> Tuntap_get_fd dev | USE_TAPCFG \<Rightarrow> Tapcfg_get_fd dev)"

definition tnt_ttc_get_mtu :: "ttc_lib \<Rightarrow> ttc \<Rightarrow> int \<Rightarrow> ttc_log \<Rightarrow> int \<times> ttc_log" where
  "tnt_ttc_get_mtu B T dev = t_call T (case B of USE_LIBTUNTAP \<Rightarrow> Tuntap_get_mtu dev | USE_TAPCFG \<Rightarrow> Tapcfg_get_mtu dev)"

section \<open>Answering requests\<close>

definition IMSG_CREATE_DEV :: u32 where "IMSG_CREATE_DEV = 1"
definition IMSG_SET_IP :: u32 where "IMSG_SET_IP = 2"

text \<open>The state of the process: \<open>struct imsg_data\<close>, the variable \<open>dev\<close>, the calls made.\<close>

record priv =
  p_ibuf :: imsgbuf
  p_ready_read :: bool
  p_ready_write :: bool
  p_dev :: int
  p_log :: ttc_log
  p_libc :: libc

text \<open>A zero-terminated string in a buffer of bytes.\<close>

definition byte_char :: "byte \<Rightarrow> char" where "byte_char b = char_of (unat b)"

definition buf_string :: "bytes \<Rightarrow> string" where
  "buf_string buf = map byte_char (takeWhile (\<lambda>b. b \<noteq> 0) buf)"

text \<open>
  \<open>buf\<close> has 128 bytes; a longer message writes past its end, which is undefined, and so does the
  terminator of a message of exactly 128 bytes.
\<close>

definition set_ip_buf :: "imsg \<Rightarrow> bytes option" where
  "set_ip_buf m =
     do { let datalen = unat (h_len (i_hdr m)) - IMSG_HEADER_SIZE;
          d \<leftarrow> mem_read (i_data m) 0 datalen;
          buf \<leftarrow> mem_write (replicate 128 0) 0 d;
          mem_write buf datalen [0] }"

text \<open>The body of the loop of \<open>dispatch_imsg\<close> for one message.\<close>

definition handle_imsg :: "ttc_lib \<Rightarrow> ttc \<Rightarrow> options \<Rightarrow> imsg \<Rightarrow> priv \<Rightarrow> priv outcome option" where
  "handle_imsg B T opts m P =
     (if h_type (i_hdr m) = IMSG_CREATE_DEV then
        (case tnt_ttc_open B T (o_tunnel opts) (p_log P) of
           Exit n \<Rightarrow> Some (Exit n)
         | Return (dev, h) \<Rightarrow>
             (if dev = 0 then Some (Return (P\<lparr>p_dev := 0, p_log := h\<rparr>))
              else
                do { let (fd, h) = tnt_ttc_get_fd B T dev h;
                     (_, ib, L) \<leftarrow> imsg_compose (p_ibuf P) IMSG_CREATE_DEV 0 0 fd [] 0 (p_libc P);
                     Some (Return (P\<lparr>p_dev := dev, p_log := h, p_ibuf := ib, p_libc := L\<rparr>)) }))
      else if h_type (i_hdr m) = IMSG_SET_IP then
        (if p_dev P = 0 then Some (Return P)
         else
           do { buf \<leftarrow> set_ip_buf m;
                (_, h, L) \<leftarrow> tnt_ttc_set_ip B T (p_dev P) (buf_string buf) (p_log P) (p_libc P);
                Some (Return (P\<lparr>p_log := snd (tnt_ttc_up B T (p_dev P) h), p_libc := L\<rparr>)) })
      else Some (Return P))"

lemma handle_imsg_keeps:
  "handle_imsg B T opts m P = Some (Return P') \<Longrightarrow> im_r (p_ibuf P') = im_r (p_ibuf P)"
  by (auto simp: handle_imsg_def bind_eq_Some_conv dest!: imsg_compose_keeps split: if_splits outcome.splits prod.splits)

text \<open>Every message is at least a header long, so the loop ends.\<close>

function dispatch_loop :: "ttc_lib \<Rightarrow> ttc \<Rightarrow> options \<Rightarrow> priv \<Rightarrow> (int \<times> priv) outcome option" where
  "dispatch_loop B T opts P =
     (case imsg_get (p_ibuf P) (p_libc P) of
        (n, m, ib, L) \<Rightarrow>
          (let P1 = P\<lparr>p_ibuf := ib, p_libc := L\<rparr> in
           if n = -1 then Some (Return (-1, P1))
           else
             case m of
               None \<Rightarrow> Some (Return (0, P1))
             | Some m \<Rightarrow>
                 (case handle_imsg B T opts m P1 of
                    None \<Rightarrow> None
                  | Some (Exit c) \<Rightarrow> Some (Exit c)
                  | Some (Return P2) \<Rightarrow> dispatch_loop B T opts P2)))"
  by pat_completeness auto
termination
  by (relation "measure (\<lambda>(B, T, opts, P). length (im_r (p_ibuf P)))")
    (auto dest!: imsg_get_shrinks [OF sym] handle_imsg_keeps)

declare dispatch_loop.simps [simp del]

definition dispatch_imsg :: "ttc_lib \<Rightarrow> ttc \<Rightarrow> options \<Rightarrow> recv_res \<Rightarrow> priv \<Rightarrow> (int \<times> priv) outcome option" where
  "dispatch_imsg B T opts recvmsg P =
     (case imsg_read recvmsg (p_ibuf P) (p_libc P) of
        (n, ib, L) \<Rightarrow>
          (if n = -1 then
             (let (ib, L) = imsg_clear ib L in Some (Return (-1, P\<lparr>p_ibuf := ib, p_libc := L\<rparr>)))
           else if n = 0 then Some (Return (-1, P\<lparr>p_ibuf := ib, p_libc := L\<rparr>))
           else dispatch_loop B T opts (P\<lparr>p_ibuf := ib, p_libc := L\<rparr>)))"

text \<open>
  The callback of the pipe. Readiness to read or write is remembered until a call fails, because
  the event is edge-triggered.
\<close>

definition imsg_write :: "(bytes list \<Rightarrow> int option \<Rightarrow> io_res) \<Rightarrow> int \<Rightarrow> priv \<Rightarrow> priv" where
  "imsg_write sendmsg events P =
     (if events AND EV_WRITE \<noteq> 0 \<or> p_ready_write P then
        (if mb_queued (im_w (p_ibuf P)) > 0 then
           (let (r, w, L) = msgbuf_write sendmsg (im_w (p_ibuf P)) (p_libc P)
            in P\<lparr>p_ibuf := (p_ibuf P)\<lparr>im_w := w\<rparr>, p_libc := L, p_ready_write := r \<noteq> -1\<rparr>)
         else P\<lparr>p_ready_write := True\<rparr>)
      else P)"

definition imsg_callback_handler ::
    "ttc_lib \<Rightarrow> ttc \<Rightarrow> options \<Rightarrow> recv_res \<Rightarrow> (bytes list \<Rightarrow> int option \<Rightarrow> io_res) \<Rightarrow> int \<Rightarrow> priv \<Rightarrow> priv outcome option" where
  "imsg_callback_handler B T opts recvmsg sendmsg events P =
     (if events AND EV_READ \<noteq> 0 \<or> p_ready_read P then
        (case dispatch_imsg B T opts recvmsg (P\<lparr>p_ready_read := True\<rparr>) of
           None \<Rightarrow> None
         | Some (Exit n) \<Rightarrow> Some (Exit n)
         | Some (Return (r, P)) \<Rightarrow> Some (Return (imsg_write sendmsg events (P\<lparr>p_ready_read := r \<noteq> -1\<rparr>))))
      else Some (Return (imsg_write sendmsg events P)))"

section \<open>What the process promises\<close>

text \<open>
  The interface as its client sees it: the device that is open, the calls made to the library,
  the descriptors sent back.
\<close>

record iface =
  if_dev :: int
  if_log :: ttc_log
  if_sent :: "int list"

definition configure :: "ttc_lib \<Rightarrow> ttc \<Rightarrow> int \<Rightarrow> string \<Rightarrow> ttc_log \<Rightarrow> ttc_log" where
  "configure B T dev addr h =
     (if CHR ''/'' \<notin> set addr then h
      else
        case c_strtol (cstr (tl (dropWhile (\<lambda>c. c \<noteq> CHR ''/'') addr))) of
          None \<Rightarrow> h
        | Some (v, _) \<Rightarrow>
            (let ip = takeWhile (\<lambda>c. c \<noteq> CHR ''/'') addr; bits = sint (word_of_int v :: 16 word)
             in snd (t_call T (case B of USE_LIBTUNTAP \<Rightarrow> Tuntap_set_ip dev ip bits | USE_TAPCFG \<Rightarrow> Tapcfg_set_ipv4 dev ip bits) h)))"

text \<open>
  \<open>serve\<close>: a request for a device opens one and sends its descriptor; an address of fewer than
  128 bytes is given to the device that is open, and the interface is brought up; nothing else
  has an effect. A longer address is not served.
\<close>

definition serve :: "ttc_lib \<Rightarrow> ttc \<Rightarrow> int \<Rightarrow> imsg \<Rightarrow> iface \<Rightarrow> iface \<Rightarrow> bool" where
  "serve B T mode m I I' \<longleftrightarrow>
     (if h_type (i_hdr m) = IMSG_CREATE_DEV then
        (case tnt_ttc_open B T mode (if_log I) of
           Exit _ \<Rightarrow> False
         | Return (dev, h) \<Rightarrow>
             (if dev = 0 then I' = I\<lparr>if_dev := 0, if_log := h\<rparr>
              else let (fd, h) = tnt_ttc_get_fd B T dev h
                   in I' = I\<lparr>if_dev := dev, if_log := h, if_sent := if_sent I @ [fd]\<rparr>))
      else if h_type (i_hdr m) = IMSG_SET_IP \<and> if_dev I \<noteq> 0 then
        unat (h_len (i_hdr m)) = IMSG_HEADER_SIZE + length (i_data m) \<and> length (i_data m) < 128
        \<and> I' = I\<lparr>if_log := snd (tnt_ttc_up B T (if_dev I) (configure B T (if_dev I) (buf_string (i_data m)) (if_log I)))\<rparr>
      else I' = I)"

text \<open>The answer that carries a descriptor.\<close>

definition answer :: "u32 \<Rightarrow> int \<Rightarrow> imsg_hdr \<times> bytes" where
  "answer pid fd =
     (\<lparr>h_type = IMSG_CREATE_DEV, h_len = word_of_nat IMSG_HEADER_SIZE,
       h_flags = (if fd \<noteq> -1 then IMSGF_HASFD else 0), h_peerid = 0, h_pid = pid\<rparr>, [])"

definition priv_abs :: "nat \<Rightarrow> priv \<Rightarrow> iface \<Rightarrow> bool" where
  "priv_abs k P I \<longleftrightarrow> p_dev P = if_dev I \<and> p_log P = if_log I \<and> heap_ok (p_libc P) \<and> alloc_total (p_libc P)
     \<and> mb_inv (im_w (p_ibuf P)) \<and> length (mb_bufs (im_w (p_ibuf P))) = length (if_sent I) \<and> length (if_sent I) + k < 2 ^ 32
     \<and> mb_pend (im_w (p_ibuf P)) = concat (map (\<lambda>fd. imsg_enc (answer (im_pid (p_ibuf P)) fd)) (if_sent I))
     \<and> open_fds (mb_bufs (im_w (p_ibuf P))) = filter (\<lambda>fd. fd \<noteq> -1) (if_sent I)"

section \<open>It keeps its promise\<close>

lemma skip_space_total: "s \<noteq> [] \<Longrightarrow> last s = NUL \<Longrightarrow> \<exists>t. skip_space s = Some t \<and> t \<noteq> [] \<and> last t = NUL"
proof (induction s)
  case (Cons c s)
  have "\<not> is_space NUL" by (simp add: is_space_def NUL_def)
  with Cons show ?case by (cases s) auto
qed simp

lemma read_digits_total: "s \<noteq> [] \<Longrightarrow> last s = NUL \<Longrightarrow> \<exists>x. read_digits v s = Some x"
proof (induction s arbitrary: v)
  case (Cons c s)
  have "\<not> is_digit NUL" by (simp add: is_digit_def NUL_def)
  with Cons show ?case by (cases s) auto
qed simp

lemma strtol_total: "\<exists>v e. c_strtol (cstr s) = Some (v, e)"
proof -
  obtain t where t: "skip_space (cstr s) = Some t" "t \<noteq> []" "last t = NUL"
    using skip_space_total [of "cstr s"] by (auto simp: cstr_def)
  let ?u = "if hd t = CHR ''-'' \<or> hd t = CHR ''+'' then tl t else t"
  obtain c r where c: "t = c # r" using t(2) by (cases t) auto
  have "NUL \<noteq> CHR ''-''" "NUL \<noteq> CHR ''+''" by (simp_all add: NUL_def)
  with t(3) c have "?u \<noteq> [] \<and> last ?u = NUL" by (cases r) auto
  then obtain v e where "read_digits 0 ?u = Some (v, e)" using read_digits_total [of ?u 0] by (metis surj_pair)
  with t(1) show ?thesis by (simp add: c_strtol_def Let_def)
qed

lemma set_ip_configure:
  assumes "alloc_total L" and "length addr < 128"
  shows "\<exists>r L'. tnt_ttc_set_ip B T dev addr h L = Some (r, configure B T dev addr h, L') \<and> l_alloc_ok L' = l_alloc_ok L"
proof -
  obtain b L1 where L1: "c_malloc (Suc (length addr)) L = (Some b, L1)" "l_alloc_ok L1 = l_alloc_ok L"
    using c_malloc_total [OF assms(1), of "Suc (length addr)"] assms(2) c_malloc_keeps by (fastforce simp: imsg_consts)
  obtain v e where "c_strtol (cstr (tl (dropWhile (\<lambda>c. c \<noteq> CHR ''/'') addr))) = Some (v, e)" using strtol_total by blast
  with L1 show ?thesis by (auto simp: tnt_ttc_set_ip_def configure_def t_call_def Let_def)
qed

lemma set_ip_buf_ok:
  assumes "unat (h_len (i_hdr m)) = IMSG_HEADER_SIZE + length (i_data m)" and "length (i_data m) < 128"
  shows "\<exists>buf. set_ip_buf m = Some buf \<and> buf_string buf = buf_string (i_data m)"
proof -
  have "set_ip_buf m = Some (i_data m @ [0] @ drop (Suc (length (i_data m))) (i_data m @ replicate (128 - length (i_data m)) 0))"
    using assms by (simp add: set_ip_buf_def mem_read_def mem_write_def Let_def)
  moreover have "takeWhile (\<lambda>b. b \<noteq> 0) (d @ [0] @ r) = takeWhile (\<lambda>b. b \<noteq> (0 :: byte)) d" for d r
    by (induction d) auto
  ultimately show ?thesis by (simp add: buf_string_def)
qed

lemma priv_handled:
  assumes R: "priv_abs (Suc k) P I" and S: "serve B T (o_tunnel opts) m I I'"
  shows "\<exists>P'. handle_imsg B T opts m P = Some (Return P') \<and> priv_abs k P' I'
    \<and> im_r (p_ibuf P') = im_r (p_ibuf P) \<and> im_fds (p_ibuf P') = im_fds (p_ibuf P)"
proof -
  consider (create) "h_type (i_hdr m) = IMSG_CREATE_DEV" | (set) "h_type (i_hdr m) = IMSG_SET_IP" "if_dev I \<noteq> 0"
    | (other) "h_type (i_hdr m) \<noteq> IMSG_CREATE_DEV" "h_type (i_hdr m) \<noteq> IMSG_SET_IP \<or> if_dev I = 0" by blast
  then show ?thesis
  proof cases
    case create
    then obtain dev h where o: "tnt_ttc_open B T (o_tunnel opts) (p_log P) = Return (dev, h)"
      using S R by (auto simp: serve_def priv_abs_def split: outcome.splits)
    show ?thesis
    proof (cases "dev = 0")
      case True
      with create o S R show ?thesis by (auto simp: handle_imsg_def serve_def priv_abs_def)
    next
      case False
      obtain fd h' where fd: "tnt_ttc_get_fd B T dev h = (fd, h')" by (metis surj_pair)
      have pre: "heap_ok (p_libc P)" "alloc_total (p_libc P)" "mb_inv (im_w (p_ibuf P))" "Suc (length (mb_bufs (im_w (p_ibuf P)))) < 2 ^ 32"
        using R by (auto simp: priv_abs_def)
      have small: "unat (0 :: u16) \<le> length ([] :: bytes)" "IMSG_HEADER_SIZE + unat (0 :: u16) \<le> MAX_IMSGSIZE" by (simp_all add: imsg_consts)
      from imsg_compose_total [OF pre(1,2) small(1) pre(3,4) small(2), of IMSG_CREATE_DEV 0 0 fd]
      obtain ib L where c: "imsg_compose (p_ibuf P) IMSG_CREATE_DEV 0 0 fd [] 0 (p_libc P) = Some (1, ib, L)" "heap_ok L" "alloc_total L"
        "mb_inv (im_w ib)" "ib = (p_ibuf P)\<lparr>im_w := im_w ib\<rparr>"
        "mb_pend (im_w ib) = mb_pend (im_w (p_ibuf P)) @ imsg_enc (compose_hdr (p_ibuf P) IMSG_CREATE_DEV 0 0 fd 0, [])"
        "open_fds (mb_bufs (im_w ib)) = open_fds (mb_bufs (im_w (p_ibuf P))) @ (if fd = -1 then [] else [fd])"
        by auto
      note keep = imsg_compose_keeps [OF c(1)] imsg_compose_bufs [OF c(1)]
      have I': "I' = I\<lparr>if_dev := dev, if_log := h', if_sent := if_sent I @ [fd]\<rparr>"
        using S create o False fd R by (auto simp: serve_def priv_abs_def)
      have e: "handle_imsg B T opts m P = Some (Return (P\<lparr>p_dev := dev, p_log := h', p_ibuf := ib, p_libc := L\<rparr>))"
        using create o False fd c(1) by (simp add: handle_imsg_def)
      have "priv_abs k (P\<lparr>p_dev := dev, p_log := h', p_ibuf := ib, p_libc := L\<rparr>) I'"
        using R c keep I' by (simp add: priv_abs_def answer_def compose_hdr_def)
      with e keep show ?thesis by auto
    qed
  next
    case set
    have ne: "IMSG_SET_IP \<noteq> IMSG_CREATE_DEV" by (simp add: IMSG_SET_IP_def IMSG_CREATE_DEV_def)
    with S set have sh: "unat (h_len (i_hdr m)) = IMSG_HEADER_SIZE + length (i_data m)" "length (i_data m) < 128"
      and I': "I' = I\<lparr>if_log := snd (tnt_ttc_up B T (if_dev I) (configure B T (if_dev I) (buf_string (i_data m)) (if_log I)))\<rparr>"
      by (auto simp: serve_def)
    obtain buf where b: "set_ip_buf m = Some buf" "buf_string buf = buf_string (i_data m)" using set_ip_buf_ok [OF sh] by blast
    have "length (buf_string (i_data m)) < 128"
      using sh(2) length_takeWhile_le [of "\<lambda>b. b \<noteq> 0" "i_data m"] by (simp add: buf_string_def)
    with R obtain r L where st: "tnt_ttc_set_ip B T (p_dev P) (buf_string (i_data m)) (p_log P) (p_libc P)
        = Some (r, configure B T (p_dev P) (buf_string (i_data m)) (p_log P), L)" "l_alloc_ok L = l_alloc_ok (p_libc P)"
      using set_ip_configure [of "p_libc P" "buf_string (i_data m)" B T "p_dev P" "p_log P"] by (auto simp: priv_abs_def)
    with R set ne b I' show ?thesis
      by (auto simp: handle_imsg_def priv_abs_def heap_ok_def alloc_total_def)
  next
    case other
    with S R show ?thesis by (auto simp: handle_imsg_def serve_def priv_abs_def)
  qed
qed

definition handles :: "ttc_lib \<Rightarrow> ttc \<Rightarrow> options \<Rightarrow> imsg \<Rightarrow> priv \<Rightarrow> priv option" where
  "handles B T opts m P = (case handle_imsg B T opts m P of Some (Return P') \<Rightarrow> Some P' | _ \<Rightarrow> None)"

interpretation pd: dispatcher p_ibuf p_libc "\<lambda>ib L P. P\<lparr>p_ibuf := ib, p_libc := L\<rparr>"
    "\<lambda>P P'. dispatch_loop B T opts P = Some (Return (0, P'))" "handles B T opts" priv_abs "serve B T (o_tunnel opts)"
  for B T opts
proof unfold_locales
  show "dispatch_loop B T opts P = Some (Return (0, P\<lparr>p_ibuf := ib, p_libc := L\<rparr>))"
    if "imsg_get (p_ibuf P) (p_libc P) = (0, None, ib, L)" for P ib L
    using that by (subst dispatch_loop.simps) simp
  show "dispatch_loop B T opts P = Some (Return (0, P2))"
    if "imsg_get (p_ibuf P) (p_libc P) = (n, Some m, ib, L)" "n \<noteq> -1"
      "handles B T opts m (P\<lparr>p_ibuf := ib, p_libc := L\<rparr>) = Some P1" "dispatch_loop B T opts P1 = Some (Return (0, P2))" for P n m ib L P1 P2
    using that by (subst dispatch_loop.simps) (auto simp: handles_def Let_def split: option.splits outcome.splits)
  show "\<exists>P'. handles B T opts m P = Some P' \<and> priv_abs k P' I' \<and> im_r (p_ibuf P') = im_r (p_ibuf P) \<and> im_fds (p_ibuf P') = im_fds (p_ibuf P)"
    if "priv_abs (Suc k) P I" "serve B T (o_tunnel opts) m I I'" for k P I m I'
    using priv_handled [OF that] by (auto simp: handles_def)
qed (auto simp: priv_abs_def heap_ok_def alloc_total_def)

text \<open>The reads of the pipe, one after the other; the result of each call only steers the polling.\<close>

fun dispatch_reads :: "ttc_lib \<Rightarrow> ttc \<Rightarrow> options \<Rightarrow> bytes list \<Rightarrow> priv \<Rightarrow> priv outcome option" where
  "dispatch_reads B T opts [] P = Some (Return P)"
| "dispatch_reads B T opts (c # cs) P =
     (case dispatch_imsg B T opts (Received c []) P of
        None \<Rightarrow> None
      | Some (Exit n) \<Rightarrow> Some (Exit n)
      | Some (Return (_, P)) \<Rightarrow> dispatch_reads B T opts cs P)"

lemma dispatch_read:
  "c \<noteq> [] \<Longrightarrow> dispatch_imsg B T opts (Received c []) P
     = dispatch_loop B T opts (P\<lparr>p_ibuf := (p_ibuf P)\<lparr>im_r := im_r (p_ibuf P) @ c\<rparr>, p_libc := p_libc P\<rparr>)"
  by (simp add: dispatch_imsg_def imsg_read_def)

lemma reads_serve:
  assumes "\<forall>m \<in> set ms. imsg_wf m" and "im_r (p_ibuf P) @ concat chunks = concat (map imsg_enc ms)" and "[] \<notin> set chunks"
    and "decode_all imsg_next (im_r (p_ibuf P)) = ([], im_r (p_ibuf P))"
    and "priv_abs (length ms + k) P I" and "in_order (serve B T (o_tunnel opts)) (fst (deliver ms (im_fds (p_ibuf P)))) I I'"
  shows "\<exists>P'. dispatch_reads B T opts chunks P = Some (Return P') \<and> priv_abs k P' I' \<and> im_r (p_ibuf P') = []
    \<and> im_fds (p_ibuf P') = snd (deliver ms (im_fds (p_ibuf P)))"
  using assms
proof (induction chunks arbitrary: ms P I)
  case Nil
  then have "ms = []" using imsgs.decode_all_prefix [of ms "im_r (p_ibuf P)" "[]"] imsgs.enc_nonempty
    by (cases ms) (auto simp: imsgs.decode_all_step split: prod.splits)
  with Nil show ?case by simp
next
  case (Cons c cs)
  have "concat (map imsg_enc ms) = (im_r (p_ibuf P) @ c) @ concat cs" using Cons.prems(2) by simp
  from imsgs.decode_all_prefix [OF Cons.prems(1) this] obtain ms1 ms2 t where
    d: "ms = ms1 @ ms2" "decode_all imsg_next (im_r (p_ibuf P) @ c) = (ms1, t)" "t @ concat cs = concat (map imsg_enc ms2)" by blast
  have wf: "\<forall>m \<in> set ms2. imsg_wf m" using Cons.prems(1) d(1) by simp
  note t = decode_all_rest [OF d(2)] rest_more [OF wf d(3)]
  let ?P = "P\<lparr>p_ibuf := (p_ibuf P)\<lparr>im_r := im_r (p_ibuf P) @ c\<rparr>, p_libc := p_libc P\<rparr>"
  obtain I1 where I1: "in_order (serve B T (o_tunnel opts)) (fst (deliver ms1 (im_fds (p_ibuf ?P)))) I I1"
    "in_order (serve B T (o_tunnel opts)) (fst (deliver ms2 (snd (deliver ms1 (im_fds (p_ibuf ?P)))))) I1 I'"
    using Cons.prems(6) d(1) by (auto simp: deliver_append in_order_append split: prod.splits)
  have "priv_abs (length ms1 + (length ms2 + k)) ?P I" using Cons.prems(5) d(1) by (auto simp: priv_abs_def)
  from pd.loop_serves [OF this _ t(2) [OF t(1)] I1(1)] d(2) obtain P1 where
    P1: "dispatch_loop B T opts ?P = Some (Return (0, P1))" "priv_abs (length ms2 + k) P1 I1" "im_r (p_ibuf P1) = t"
      "im_fds (p_ibuf P1) = snd (deliver ms1 (im_fds (p_ibuf ?P)))" by auto
  have c: "c \<noteq> []" "[] \<notin> set cs" using Cons.prems(3) by auto
  from Cons.IH [OF wf _ c(2) _ P1(2)] P1(3,4) d(3) t(1) I1(2) obtain P' where
    "dispatch_reads B T opts cs P1 = Some (Return P')" "priv_abs k P' I'" "im_r (p_ibuf P') = []"
    "im_fds (p_ibuf P') = snd (deliver ms2 (im_fds (p_ibuf P1)))" by auto
  with P1(1,4) d(1) show ?case by (auto simp: dispatch_read [OF c(1)] deliver_append split: prod.splits)
qed

text \<open>
  Claim C4. The privileged process keeps its promise: however the requests of the other process
  are cut into reads, it opens devices and configures the interface exactly as the requests say,
  in order, and has queued exactly one answer per opened device, with the device's descriptor
  attached.
\<close>

theorem privileged_service:
  assumes "\<forall>m \<in> set ms. imsg_wf m" and "concat chunks = concat (map imsg_enc ms)" and "[] \<notin> set chunks"
    and "im_r (p_ibuf P) = []" and "im_fds (p_ibuf P) = []" and "priv_abs (length ms) P I"
    and "in_order (serve B T (o_tunnel opts)) (fst (deliver ms [])) I I'"
  shows "\<exists>P'. dispatch_reads B T opts chunks P = Some (Return P') \<and> p_dev P' = if_dev I' \<and> p_log P' = if_log I'
    \<and> mb_pend (im_w (p_ibuf P')) = concat (map (\<lambda>fd. imsg_enc (answer (im_pid (p_ibuf P')) fd)) (if_sent I'))
    \<and> open_fds (mb_bufs (im_w (p_ibuf P'))) = filter (\<lambda>fd. fd \<noteq> -1) (if_sent I')
    \<and> im_r (p_ibuf P') = []"
  using reads_serve [of ms P chunks 0 I B T opts I'] assms imsgs.decode_all_more [OF imsgs.dec_nil]
  by (auto simp: priv_abs_def)

text \<open>
  Claim C26. An address of 128 bytes or more from the unprivileged process overflows the buffer on
  the stack of the privileged one.
\<close>

theorem set_ip_overflow:
  assumes "imsg_wf (h, d)" and "h_type h = IMSG_SET_IP" and "128 \<le> length d" and "p_dev P \<noteq> 0"
    and "im_r (p_ibuf P) = []" and "alloc_total (p_libc P)"
  shows "dispatch_imsg B T opts (Received (imsg_enc (h, d)) []) P = None"
proof -
  let ?ib = "(p_ibuf P)\<lparr>im_r := imsg_enc (h, d)\<rparr>"
  have n: "imsg_next (im_r ?ib) = Frame (h, d) []" using imsgs.dec_enc [OF assms(1), of "[]"] by simp
  obtain b L where L: "c_malloc (length d) (p_libc P) = (Some b, L)"
    using c_malloc_total [OF assms(6), of "length d"] assms(1) by (auto simp: imsg_wf_def)
  have "handle_imsg B T opts \<lparr>i_hdr = h, i_fd = fd, i_data = d\<rparr> Q = None" if "p_dev Q = p_dev P" for fd Q
    using assms that by (auto simp: handle_imsg_def set_ip_buf_def imsg_wf_def mem_read_def mem_write_def Let_def IMSG_SET_IP_def IMSG_CREATE_DEV_def)
  with n L have "dispatch_loop B T opts (P\<lparr>p_ibuf := ?ib, p_libc := p_libc P\<rparr>) = None"
    by (subst dispatch_loop.simps) (simp add: imsg_get_ok)
  moreover have "imsg_enc (h, d) \<noteq> []" using imsgs.enc_nonempty [OF assms(1)] .
  ultimately show ?thesis using assms(5) by (simp add: dispatch_read)
qed

section \<open>A concrete run\<close>

definition demo_ttc :: ttc where
  "demo_ttc h c = (case c of Tuntap_init \<Rightarrow> 5 | Tuntap_get_fd _ \<Rightarrow> 9 | _ \<Rightarrow> 0)"

definition demo_priv :: priv where
  "demo_priv = \<lparr>p_ibuf = imsg_init 3 42, p_ready_read = False, p_ready_write = False, p_dev = 0, p_log = [], p_libc = demo_libc\<rparr>"

text \<open>The two requests: a device, and the address \<open>1/8\<close>.\<close>

definition demo_create :: "imsg_hdr \<times> bytes" where
  "demo_create = (\<lparr>h_type = IMSG_CREATE_DEV, h_len = 16, h_flags = 0, h_peerid = 0, h_pid = 7\<rparr>, [])"

definition demo_set_ip :: "imsg_hdr \<times> bytes" where
  "demo_set_ip = (\<lparr>h_type = IMSG_SET_IP, h_len = 19, h_flags = 0, h_peerid = 0, h_pid = 7\<rparr>, [49, 47, 56])"

definition demo_iface :: iface where
  "demo_iface = \<lparr>if_dev = 5, if_log = [(Tuntap_init, 5), (Tuntap_start 5 TUNTAP_MODE_TUNNEL, 0), (Tuntap_get_fd 5, 9), (Tuntap_set_ip 5 ''1'' 8, 0), (Tuntap_up 5, 0)], if_sent = [9]\<rparr>"

lemma demo_configure: "configure USE_LIBTUNTAP demo_ttc 5 (buf_string [49, 47, 56]) h = h @ [(Tuntap_set_ip 5 ''1'' 8, 0)]"
proof -
  have "buf_string [49, 47, 56] = ''1/8''" by (simp add: buf_string_def byte_char_def) code_simp
  moreover have "c_strtol (cstr ''8'') = Some (8, [NUL])"
    by (simp add: c_strtol_def cstr_def is_space_def is_digit_def digit_val_def NUL_def clamp_long_def LONG_MAX_def)
  ultimately show ?thesis by (simp add: configure_def t_call_def demo_ttc_def)
qed

lemma demo_served:
  "in_order (serve USE_LIBTUNTAP demo_ttc 0) (fst (deliver [demo_create, demo_set_ip] [])) \<lparr>if_dev = 0, if_log = [], if_sent = []\<rparr> demo_iface"
  by (simp add: demo_create_def demo_set_ip_def fd_of_def serve_def tnt_ttc_open_def t_call_def demo_ttc_def tnt_ttc_get_fd_def
      TNT_TUNMODE_TUNNEL_def demo_configure tnt_ttc_up_def demo_iface_def imsg_consts
      IMSG_CREATE_DEV_def IMSG_SET_IP_def)

lemma demo_priv_ok [simp]: "priv_abs k demo_priv \<lparr>if_dev = 0, if_log = [], if_sent = []\<rparr> \<longleftrightarrow> k < 2 ^ 32" "im_r (p_ibuf demo_priv) = []" "im_fds (p_ibuf demo_priv) = []" "alloc_total (p_libc demo_priv)"
  by (simp_all add: priv_abs_def demo_priv_def imsg_init_def mb_inv_def msgbuf_init_def mb_pend_def open_fds_def alloc_total_def demo_libc_def imsg_consts heap_ok_def)

theorem privileged_service_witness:
  "\<exists>P'. dispatch_reads USE_LIBTUNTAP demo_ttc init_options [take 5 (imsg_enc demo_create), drop 5 (imsg_enc demo_create) @ imsg_enc demo_set_ip] demo_priv
       = Some (Return P') \<and> p_log P' = if_log demo_iface \<and> open_fds (mb_bufs (im_w (p_ibuf P'))) = [9]"
proof -
  have wf: "\<forall>m \<in> set [demo_create, demo_set_ip]. imsg_wf m" by (simp add: imsg_wf_def demo_create_def demo_set_ip_def imsg_consts)
  have ne: "[] \<notin> set [take 5 (imsg_enc demo_create), drop 5 (imsg_enc demo_create) @ imsg_enc demo_set_ip]"
    by (simp add: imsg_enc_def demo_create_def demo_set_ip_def flip: length_0_conv)
  let ?I = "\<lparr>if_dev = 0, if_log = [], if_sent = []\<rparr>"
  have o: "o_tunnel init_options = 0" by (simp add: init_options_def TNT_TUNMODE_TUNNEL_def)
  have R: "priv_abs (length [demo_create, demo_set_ip]) demo_priv ?I" by simp
  have S: "in_order (serve USE_LIBTUNTAP demo_ttc (o_tunnel init_options)) (fst (deliver [demo_create, demo_set_ip] [])) ?I demo_iface"
    using demo_served by (simp only: o)
  have c: "concat [take 5 (imsg_enc demo_create), drop 5 (imsg_enc demo_create) @ imsg_enc demo_set_ip] = concat (map imsg_enc [demo_create, demo_set_ip])"
    by (simp add: append_assoc [symmetric] del: append_assoc)
  from privileged_service [OF wf c ne demo_priv_ok(2,3) R S]
  show ?thesis by (elim exE conjE) (auto simp: demo_iface_def)
qed

theorem set_ip_overflow_witness:
  "dispatch_imsg USE_LIBTUNTAP demo_ttc init_options
     (Received (imsg_enc (\<lparr>h_type = IMSG_SET_IP, h_len = 144, h_flags = 0, h_peerid = 0, h_pid = 7\<rparr>, replicate 128 65)) []) (demo_priv\<lparr>p_dev := 5\<rparr>) = None"
  by (rule set_ip_overflow) (simp_all add: imsg_wf_def imsg_consts)

end
