(* ===== verification/Unpriv.thy ===== *)
theory Unpriv
  imports Priv Device
begin

text \<open>
  The message loop of the unprivileged process (\<open>sys/unix/tnetacle.c\<close>): it asks for the device,
  attaches it to the server when its descriptor arrives, and asks for the address to be set. Then
  the exchange of the two processes, from the request to the configured interface.
\<close>

section \<open>Code\<close>

text \<open>\<open>struct imsg_data\<close>; the server is the state of type \<open>'w\<close>.\<close>

record 'w imsg_data =
  d_ibuf :: imsgbuf
  d_ready_read :: bool
  d_ready_write :: bool
  d_libc :: libc
  d_server :: 'w

definition str_bytes :: "string \<Rightarrow> bytes" where
  "str_bytes s = map (\<lambda>c. word_of_nat (of_char c)) s"

text \<open>
  The body of the loop for one message. \<open>strlen\<close> of a missing address is undefined, and its
  result is narrowed to 16 bits by the call.
\<close>

definition tnt_handle ::
    "'e srvenv_scheme \<Rightarrow> (nat \<Rightarrow> 'w srun) \<Rightarrow> val \<Rightarrow> options \<Rightarrow> imsg \<Rightarrow> 'w srvworld_scheme imsg_data \<Rightarrow> 'w srvworld_scheme imsg_data option" where
  "tnt_handle E co s opts m D =
     (if h_type (i_hdr m) = IMSG_CREATE_DEV then
        do { w \<leftarrow> server_set_device E co s (i_fd m) (d_server D);
             addr \<leftarrow> o_addr opts;
             (_, ib, L) \<leftarrow> imsg_compose (d_ibuf D) IMSG_SET_IP 0 0 (-1) (str_bytes addr) (word_of_nat (length addr)) (d_libc D);
             Some (D\<lparr>d_server := w, d_ibuf := ib, d_libc := L\<rparr>) }
      else Some D)"

lemma tnt_handle_keeps: "tnt_handle E co s opts m D = Some D' \<Longrightarrow> im_r (d_ibuf D') = im_r (d_ibuf D)"
  by (auto simp: tnt_handle_def bind_eq_Some_conv dest!: imsg_compose_keeps split: if_splits)

function tnt_dispatch_loop ::
    "'e srvenv_scheme \<Rightarrow> (nat \<Rightarrow> 'w srun) \<Rightarrow> val \<Rightarrow> options \<Rightarrow> 'w srvworld_scheme imsg_data \<Rightarrow> (int \<times> 'w srvworld_scheme imsg_data) option" where
  "tnt_dispatch_loop E co s opts D =
     (case imsg_get (d_ibuf D) (d_libc D) of
        (n, m, ib, L) \<Rightarrow>
          (let D1 = D\<lparr>d_ibuf := ib, d_libc := L\<rparr> in
           if n = -1 then Some (-1, D1)
           else
             case m of
               None \<Rightarrow> Some (0, D1)
             | Some m \<Rightarrow>
                 (case tnt_handle E co s opts m D1 of
                    None \<Rightarrow> None
                  | Some D2 \<Rightarrow> tnt_dispatch_loop E co s opts D2)))"
  by pat_completeness auto
termination
  by (relation "measure (\<lambda>(E, co, s, opts, D). length (im_r (d_ibuf D)))")
    (auto dest!: imsg_get_shrinks [OF sym] tnt_handle_keeps)

declare tnt_dispatch_loop.simps [simp del]

definition tnt_dispatch_imsg ::
    "'e srvenv_scheme \<Rightarrow> (nat \<Rightarrow> 'w srun) \<Rightarrow> val \<Rightarrow> options \<Rightarrow> recv_res \<Rightarrow> 'w srvworld_scheme imsg_data
      \<Rightarrow> (int \<times> 'w srvworld_scheme imsg_data) option" where
  "tnt_dispatch_imsg E co s opts recvmsg D =
     (case imsg_read recvmsg (d_ibuf D) (d_libc D) of
        (n, ib, L) \<Rightarrow>
          (if n = -1 then
             (let (ib, L) = imsg_clear ib L in Some (-1, D\<lparr>d_ibuf := ib, d_libc := L\<rparr>))
           else if n = 0 then Some (-1, D\<lparr>d_ibuf := ib, d_libc := L\<rparr>)
           else tnt_dispatch_loop E co s opts (D\<lparr>d_ibuf := ib, d_libc := L\<rparr>)))"

definition tnt_imsg_write :: "(bytes list \<Rightarrow> int option \<Rightarrow> io_res) \<Rightarrow> int \<Rightarrow> 'w imsg_data \<Rightarrow> 'w imsg_data" where
  "tnt_imsg_write sendmsg events D =
     (if events AND EV_WRITE \<noteq> 0 \<or> d_ready_write D then
        (if mb_queued (im_w (d_ibuf D)) > 0 then
           (let (r, w, L) = msgbuf_write sendmsg (im_w (d_ibuf D)) (d_libc D)
            in D\<lparr>d_ibuf := (d_ibuf D)\<lparr>im_w := w\<rparr>, d_libc := L, d_ready_write := r \<noteq> -1\<rparr>)
         else D\<lparr>d_ready_write := True\<rparr>)
      else D)"

definition tnt_imsg_callback ::
    "'e srvenv_scheme \<Rightarrow> (nat \<Rightarrow> 'w srun) \<Rightarrow> val \<Rightarrow> options \<Rightarrow> recv_res \<Rightarrow> (bytes list \<Rightarrow> int option \<Rightarrow> io_res) \<Rightarrow> int
      \<Rightarrow> 'w srvworld_scheme imsg_data \<Rightarrow> 'w srvworld_scheme imsg_data option" where
  "tnt_imsg_callback E co s opts recvmsg sendmsg events D =
     (if events AND EV_READ \<noteq> 0 \<or> d_ready_read D then
        do { (r, D) \<leftarrow> tnt_dispatch_imsg E co s opts recvmsg (D\<lparr>d_ready_read := True\<rparr>);
             Some (tnt_imsg_write sendmsg events (D\<lparr>d_ready_read := r \<noteq> -1\<rparr>)) }
      else Some (tnt_imsg_write sendmsg events D))"

section \<open>What the process does with a message\<close>

text \<open>A request to set the address.\<close>

definition ip_request :: "u32 \<Rightarrow> string \<Rightarrow> imsg_hdr \<times> bytes" where
  "ip_request pid addr =
     (\<lparr>h_type = IMSG_SET_IP, h_len = word_of_nat (IMSG_HEADER_SIZE + length addr), h_flags = 0, h_peerid = 0, h_pid = pid\<rparr>, str_bytes addr)"

text \<open>
  A descriptor is attached to the server, and one request to set the configured address is queued;
  other messages have no effect.
\<close>

definition attach ::
    "'e srvenv_scheme \<Rightarrow> (nat \<Rightarrow> 'w srun) \<Rightarrow> val \<Rightarrow> options \<Rightarrow> u32 \<Rightarrow> imsg
      \<Rightarrow> 'w srvworld_scheme \<times> (imsg_hdr \<times> bytes) list \<Rightarrow> 'w srvworld_scheme \<times> (imsg_hdr \<times> bytes) list \<Rightarrow> bool" where
  "attach E co s opts pid m a a' \<longleftrightarrow>
     (if h_type (i_hdr m) = IMSG_CREATE_DEV then
        (\<exists>w addr. server_set_device E co s (i_fd m) (fst a) = Some w \<and> o_addr opts = Some addr
           \<and> IMSG_HEADER_SIZE + length addr \<le> MAX_IMSGSIZE \<and> a' = (w, snd a @ [ip_request pid addr]))
      else a' = a)"

definition child_abs ::
    "u32 \<Rightarrow> nat \<Rightarrow> 'w imsg_data \<Rightarrow> 'w \<times> (imsg_hdr \<times> bytes) list \<Rightarrow> bool" where
  "child_abs pid k D a \<longleftrightarrow> d_server D = fst a \<and> im_pid (d_ibuf D) = pid \<and> heap_ok (d_libc D) \<and> alloc_total (d_libc D)
     \<and> mb_inv (im_w (d_ibuf D)) \<and> length (mb_bufs (im_w (d_ibuf D))) + k < 2 ^ 32
     \<and> mb_pend (im_w (d_ibuf D)) = concat (map imsg_enc (snd a))"

lemma child_handled:
  assumes R: "child_abs pid (Suc k) D a" and S: "attach E co s opts pid m a a'"
  shows "\<exists>D'. tnt_handle E co s opts m D = Some D' \<and> child_abs pid k D' a'
    \<and> im_r (d_ibuf D') = im_r (d_ibuf D) \<and> im_fds (d_ibuf D') = im_fds (d_ibuf D)"
proof (cases "h_type (i_hdr m) = IMSG_CREATE_DEV")
  case True
  with S obtain w addr where w: "server_set_device E co s (i_fd m) (fst a) = Some w" "o_addr opts = Some addr"
    "IMSG_HEADER_SIZE + length addr \<le> MAX_IMSGSIZE" "a' = (w, snd a @ [ip_request pid addr])"
    by (auto simp: attach_def)
  let ?n = "word_of_nat (length addr) :: u16"
  have n: "unat ?n = length addr" using w(3) by (simp add: unat_of_nat imsg_consts)
  have pre: "heap_ok (d_libc D)" "alloc_total (d_libc D)" "mb_inv (im_w (d_ibuf D))" "Suc (length (mb_bufs (im_w (d_ibuf D)))) < 2 ^ 32"
    using R by (auto simp: child_abs_def)
  have small: "unat ?n \<le> length (str_bytes addr)" "IMSG_HEADER_SIZE + unat ?n \<le> MAX_IMSGSIZE" using w(3) n by (simp_all add: str_bytes_def)
  from imsg_compose_total [OF pre(1,2) small(1) pre(3,4) small(2), of IMSG_SET_IP 0 0 "-1"]
  obtain ib L where c: "imsg_compose (d_ibuf D) IMSG_SET_IP 0 0 (-1) (str_bytes addr) ?n (d_libc D) = Some (1, ib, L)" "heap_ok L" "alloc_total L"
    "mb_inv (im_w ib)"
    "mb_pend (im_w ib) = mb_pend (im_w (d_ibuf D)) @ imsg_enc (compose_hdr (d_ibuf D) IMSG_SET_IP 0 0 (-1) (length addr), str_bytes addr)"
    by (auto simp: n str_bytes_def)
  note keep = imsg_compose_keeps [OF c(1)] imsg_compose_bufs [OF c(1)]
  have "tnt_handle E co s opts m D = Some (D\<lparr>d_server := w, d_ibuf := ib, d_libc := L\<rparr>)"
    using True w R c(1) by (simp add: tnt_handle_def child_abs_def)
  moreover have "child_abs pid k (D\<lparr>d_server := w, d_ibuf := ib, d_libc := L\<rparr>) a'"
    using R c w(4) keep by (simp add: child_abs_def ip_request_def compose_hdr_def)
  ultimately show ?thesis using keep by auto
next
  case False
  with S R show ?thesis by (auto simp: attach_def tnt_handle_def child_abs_def)
qed

interpretation ud: dispatcher d_ibuf d_libc "\<lambda>ib L D. D\<lparr>d_ibuf := ib, d_libc := L\<rparr>"
    "\<lambda>D D'. tnt_dispatch_loop E co s opts D = Some (0, D')" "tnt_handle E co s opts" "child_abs pid" "attach E co s opts pid"
  for E :: "'e srvenv_scheme" and co :: "nat \<Rightarrow> 'w srun" and s opts pid
proof unfold_locales
  show "tnt_dispatch_loop E co s opts D = Some (0, D\<lparr>d_ibuf := ib, d_libc := L\<rparr>)"
    if "imsg_get (d_ibuf D) (d_libc D) = (0, None, ib, L)" for D ib L
    using that by (subst tnt_dispatch_loop.simps) simp
  show "tnt_dispatch_loop E co s opts D = Some (0, D2)"
    if "imsg_get (d_ibuf D) (d_libc D) = (n, Some m, ib, L)" "n \<noteq> -1"
      "tnt_handle E co s opts m (D\<lparr>d_ibuf := ib, d_libc := L\<rparr>) = Some D1" "tnt_dispatch_loop E co s opts D1 = Some (0, D2)" for D n m ib L D1 D2
    using that by (subst tnt_dispatch_loop.simps) simp
  show "\<exists>D'. tnt_handle E co s opts m D = Some D' \<and> child_abs pid k D' a' \<and> im_r (d_ibuf D') = im_r (d_ibuf D) \<and> im_fds (d_ibuf D') = im_fds (d_ibuf D)"
    if "child_abs pid (Suc k) D a" "attach E co s opts pid m a a'" for k D a m a'
    using child_handled [OF that] .
qed (auto simp: child_abs_def heap_ok_def alloc_total_def)

section \<open>The exchange\<close>

text \<open>A kernel that takes all it is offered.\<close>

definition takes_all :: "(bytes list \<Rightarrow> int option \<Rightarrow> io_res) \<Rightarrow> bool" where
  "takes_all K \<longleftrightarrow> sendmsg_ok K \<and> (\<forall>iov f. length (concat iov) < 2 ^ 63 \<longrightarrow> K iov f = Sent (length (concat iov)))"

lemma msgbuf_drain_keeps: "msgbuf_drain mb n L = (mb', L') \<Longrightarrow> l_alloc_ok L' = l_alloc_ok L"
proof (induction mb n L rule: msgbuf_drain.induct)
  case (1 mb n L)
  have c: "l_alloc_ok (snd (ibuf_dequeue mb 0 L)) = l_alloc_ok L"
    by (simp add: ibuf_dequeue_def c_close_def Let_def)
  note d = "1.prems" [unfolded msgbuf_drain.simps [of mb n L]]
  show ?case
  proof (cases "mb_bufs mb")
    case (Cons b bs)
    with d c "1.IH" [OF Cons _ _ refl] show ?thesis
      by (cases "ibuf_dequeue mb 0 L") (auto simp: Let_def split: if_splits)
  qed (use d in simp)
qed

lemma msgbuf_write_keeps: "msgbuf_write K mb L = (r, mb', L') \<Longrightarrow> l_alloc_ok L' = l_alloc_ok L"
  by (auto simp: msgbuf_write_def write_result_def close_attached_def set_errno_def c_close_def Let_def
      dest!: msgbuf_drain_keeps split: prod.splits io_res.splits if_splits option.splits)

lemma write_one:
  assumes R: "priv_abs k P I" and one: "if_sent I = [fd]" and K: "takes_all K"
  shows "priv_abs k (imsg_write K EV_WRITE P) (I\<lparr>if_sent := []\<rparr>)
    \<and> im_r (p_ibuf (imsg_write K EV_WRITE P)) = im_r (p_ibuf P) \<and> im_fds (p_ibuf (imsg_write K EV_WRITE P)) = im_fds (p_ibuf P)"
proof -
  let ?w = "im_w (p_ibuf P)"
  obtain b where b: "mb_bufs ?w = [b]" using R one by (auto simp: priv_abs_def length_Suc_conv)
  have v: "ib_iov b = imsg_enc (answer (im_pid (p_ibuf P)) fd)" using R one b by (simp add: priv_abs_def mb_pend_def)
  then have len: "length (ib_iov b) = 16" by (simp add: imsg_enc_def answer_def)
  obtain k0 where g: "gather 0 (mb_bufs ?w) = ([ib_iov b], k0)" by (cases "ib_fd b = -1") (simp_all add: b IOV_MAX_def)
  obtain r w L where w: "msgbuf_write K ?w (p_libc P) = (r, w, L)" by (metis surj_pair)
  have inv: "mb_inv ?w" "sendmsg_ok K" using R K by (auto simp: priv_abs_def takes_all_def)
  have "K [ib_iov b] (attached ?w k0) = Sent 16" using K len by (simp add: takes_all_def)
  with msgbuf_write_ok [OF inv w g] have m: "mb_inv w" "heap_ok L = heap_ok (p_libc P)" "mb_pend w = drop 16 (mb_pend ?w)" by simp_all
  have ne: "no_empty ?w" using b len by (auto simp: no_empty_def)
  have "mb_pend w = []" using m(3) len b by (simp add: mb_pend_def)
  with msgbuf_write_no_empty [OF inv ne, of "p_libc P"] w have e: "mb_bufs w = []"
    by (cases "mb_bufs w") (auto simp: no_empty_def mb_pend_def)
  have q: "mb_queued ?w > 0" using inv(1) b by (simp add: mb_inv_def)
  have "imsg_write K EV_WRITE P = P\<lparr>p_ibuf := (p_ibuf P)\<lparr>im_w := w\<rparr>, p_libc := L, p_ready_write := r \<noteq> -1\<rparr>"
    using q w by (simp add: imsg_write_def EV_WRITE_def)
  with R m e msgbuf_write_keeps [OF w] one show ?thesis
    by (simp add: priv_abs_def alloc_total_def mb_pend_def open_fds_def)
qed

lemma byte_char_of: "byte_char (word_of_nat (of_char c)) = c"
  by (simp add: byte_char_def unat_of_nat)

lemma byte_char_str: "map byte_char (str_bytes s) = s"
  by (induction s) (simp_all add: str_bytes_def byte_char_of)

lemma str_bytes_nonzero: "NUL \<notin> set s \<Longrightarrow> takeWhile (\<lambda>b. b \<noteq> 0) (str_bytes s) = str_bytes s"
proof (induction s)
  case (Cons c s)
  have "byte_char 0 = NUL" by (simp add: byte_char_def NUL_def) code_simp
  with Cons.prems byte_char_of [of c] have "(word_of_nat (of_char c) :: byte) \<noteq> 0" by force
  with Cons show ?case by (simp add: str_bytes_def)
qed (simp add: str_bytes_def)

lemma buf_string_str: "NUL \<notin> set s \<Longrightarrow> buf_string (str_bytes s) = s"
  by (simp add: buf_string_def str_bytes_nonzero byte_char_str)

lemma child_reads:
  assumes R: "child_abs pid 1 D a" and e: "im_r (d_ibuf D) = []" "im_fds (d_ibuf D) = []" and wf: "imsg_wf (h, d)"
    and S: "attach E co s opts pid \<lparr>i_hdr = h, i_fd = fst (fd_of h [f]), i_data = d\<rparr> a a'"
  shows "\<exists>D'. tnt_dispatch_imsg E co s opts (Received (imsg_enc (h, d)) [Rights f fs]) D = Some (0, D') \<and> child_abs pid 0 D' a' \<and> im_r (d_ibuf D') = []"
proof -
  obtain b L where L: "c_malloc sizeof_imsg_fd (d_libc D) = (Some b, L)"
    using c_malloc_total [of "d_libc D" sizeof_imsg_fd] R by (auto simp: child_abs_def sizeof_imsg_fd_def imsg_consts)
  let ?D = "D\<lparr>d_ibuf := (d_ibuf D)\<lparr>im_r := imsg_enc (h, d), im_fds := [f]\<rparr>, d_libc := L\<rparr>"
  have ne: "imsg_enc (h, d) \<noteq> []" using imsgs.enc_nonempty [OF wf] .
  have "child_abs pid (length [(h, d)] + 0) ?D a"
    using R c_malloc_keeps [OF L] by (simp add: child_abs_def heap_ok_def alloc_total_def)
  moreover have "decode_all imsg_next (im_r (d_ibuf ?D)) = ([(h, d)], [])"
    using imsgs.decode_all_step [OF wf, of "[]"] imsgs.decode_all_more [OF imsgs.dec_nil] by simp
  moreover have "in_order (attach E co s opts pid) (fst (deliver [(h, d)] (im_fds (d_ibuf ?D)))) a a'" using S by (cases a') auto
  ultimately obtain D' where "tnt_dispatch_loop E co s opts ?D = Some (0, D')" "child_abs pid 0 D' a'" "im_r (d_ibuf D') = []"
    using ud.loop_serves [OF _ _ imsgs.dec_nil] by blast
  with ne L e show ?thesis by (auto simp: tnt_dispatch_imsg_def imsg_read_def)
qed

text \<open>The request for a device, as \<open>tnt_fork\<close> composes it.\<close>

definition dev_request :: "u32 \<Rightarrow> imsg_hdr \<times> bytes" where
  "dev_request pid = (\<lparr>h_type = IMSG_CREATE_DEV, h_len = word_of_nat IMSG_HEADER_SIZE, h_flags = 0, h_peerid = 0, h_pid = pid\<rparr>, [])"

lemma unat_len: "n < 128 \<Longrightarrow> unat (word_of_nat (IMSG_HEADER_SIZE + n) :: u16) = IMSG_HEADER_SIZE + n"
  by (simp add: unat_of_nat imsg_consts del: of_nat_add)

lemma requests_wf:
  "imsg_wf (dev_request pid)" "imsg_wf (answer pid fd)" "length addr < 128 \<Longrightarrow> imsg_wf (ip_request pid addr)"
  using unat_len [of "length addr"]
  by (simp_all add: imsg_wf_def dev_request_def answer_def ip_request_def str_bytes_def del: of_nat_add) (simp_all add: imsg_consts)

lemma no_fds: "snd (deliver [dev_request pid] []) = []"
  by (simp add: dev_request_def fd_of_def)

lemma types_differ: "IMSG_SET_IP \<noteq> IMSG_CREATE_DEV"
  by (simp add: IMSG_SET_IP_def IMSG_CREATE_DEV_def)

lemma serve_create:
  assumes "tnt_ttc_open B T mode (if_log I) = Return (dev, h)" and "dev \<noteq> 0" and "tnt_ttc_get_fd B T dev h = (fd, h1)"
  shows "in_order (serve B T mode) (fst (deliver [dev_request pid] fds)) I (I\<lparr>if_dev := dev, if_log := h1, if_sent := if_sent I @ [fd]\<rparr>)"
  using assms by (auto simp: dev_request_def serve_def)

lemma serve_address:
  assumes "length addr < 128" and "NUL \<notin> set addr" and "if_dev I \<noteq> 0"
  shows "in_order (serve B T mode) (fst (deliver [ip_request pid addr] fds)) I
    (I\<lparr>if_log := snd (tnt_ttc_up B T (if_dev I) (configure B T (if_dev I) addr (if_log I)))\<rparr>)"
  using assms unat_len [OF assms(1)] types_differ
  by (auto simp: ip_request_def serve_def buf_string_str simp del: of_nat_add) (simp_all add: str_bytes_def)

text \<open>
  Claim C2. The exchange of the two processes configures the interface: the privileged process
  answers the request for a device with its descriptor, the unprivileged one attaches the
  descriptor it receives to the server and sends the configured address, and the privileged
  one gives exactly this address to the device and brings the interface up, however the
  requests are cut into reads.
\<close>

theorem device_handshake:
  assumes "tnt_ttc_open B T (o_tunnel opts) [] = Return (dev, h)" and "dev \<noteq> 0" and "tnt_ttc_get_fd B T dev h = (fd, h1)" and "fd \<noteq> -1"
    and "o_addr opts = Some addr" and "length addr < 128" and "NUL \<notin> set addr"
    and "priv_abs 2 P \<lparr>if_dev = 0, if_log = [], if_sent = []\<rparr>" and "im_r (p_ibuf P) = []" and "im_fds (p_ibuf P) = []"
    and "child_abs pid 1 D (w, [])" and "im_r (d_ibuf D) = []" and "im_fds (d_ibuf D) = []"
    and "server_set_device E co s f w = Some w'" and "takes_all K"
    and "concat chunks1 = imsg_enc (dev_request pid)" and "[] \<notin> set chunks1"
    and "concat chunks2 = imsg_enc (ip_request pid addr)" and "[] \<notin> set chunks2"
  shows "\<exists>P1 D1 P2. dispatch_reads B T opts chunks1 P = Some (Return P1)
    \<and> open_fds (mb_bufs (im_w (p_ibuf P1))) = [fd]
    \<and> tnt_dispatch_imsg E co s opts (Received (mb_pend (im_w (p_ibuf P1))) [Rights f []]) D = Some (0, D1)
    \<and> d_server D1 = w' \<and> mb_pend (im_w (d_ibuf D1)) = concat chunks2
    \<and> dispatch_reads B T opts chunks2 (imsg_write K EV_WRITE P1) = Some (Return P2)
    \<and> p_dev P2 = dev \<and> p_log P2 = snd (tnt_ttc_up B T dev (configure B T dev addr h1))"
proof -
  let ?I = "\<lparr>if_dev = 0, if_log = [], if_sent = []\<rparr>"
  let ?I1 = "\<lparr>if_dev = dev, if_log = h1, if_sent = [fd]\<rparr>"
  note nil = imsgs.decode_all_more [OF imsgs.dec_nil]
  have R: "priv_abs (length [dev_request pid] + 1) P ?I" using assms(8) by (simp add: numeral_2_eq_2)
  obtain P1 where P1: "dispatch_reads B T opts chunks1 P = Some (Return P1)" "priv_abs 1 P1 ?I1" "im_r (p_ibuf P1) = []" "im_fds (p_ibuf P1) = []"
    using reads_serve [of "[dev_request pid]" P chunks1 1 ?I B T opts ?I1] serve_create [OF _ assms(2,3), of "o_tunnel opts" ?I pid "[]"]
      R assms(1,9,10,16,17) requests_wf(1) nil by (auto simp: no_fds)
  have pend: "mb_pend (im_w (p_ibuf P1)) = imsg_enc (answer (im_pid (p_ibuf P1)) fd)" "open_fds (mb_bufs (im_w (p_ibuf P1))) = [fd]"
    using P1(2) assms(4) by (simp_all add: priv_abs_def)
  obtain hd0 where a: "answer (im_pid (p_ibuf P1)) fd = (hd0, [])" "h_type hd0 = IMSG_CREATE_DEV" "fst (fd_of hd0 [f]) = f"
    using assms(4) by (simp add: answer_def fd_of_def imsg_consts)
  have "attach E co s opts pid \<lparr>i_hdr = hd0, i_fd = fst (fd_of hd0 [f]), i_data = []\<rparr> (w, []) (w', [ip_request pid addr])"
    using a assms(5,6,14) by (simp add: attach_def imsg_consts)
  from child_reads [OF assms(11-13) _ this, of "[]"] requests_wf(2) a obtain D1 where
    D1: "tnt_dispatch_imsg E co s opts (Received (mb_pend (im_w (p_ibuf P1))) [Rights f []]) D = Some (0, D1)"
      "child_abs pid 0 D1 (w', [ip_request pid addr])" unfolding pend by metis
  let ?P = "imsg_write K EV_WRITE P1" and ?I2 = "\<lparr>if_dev = dev, if_log = h1, if_sent = []\<rparr>"
  have W: "priv_abs 1 ?P ?I2" "im_r (p_ibuf ?P) = []" "im_fds (p_ibuf ?P) = []"
    using write_one [OF P1(2) _ assms(15)] P1(3,4) by auto
  then obtain P2 where "dispatch_reads B T opts chunks2 ?P = Some (Return P2)"
    "priv_abs 0 P2 (?I2\<lparr>if_log := snd (tnt_ttc_up B T dev (configure B T dev addr h1))\<rparr>)"
    using reads_serve [of "[ip_request pid addr]" ?P chunks2 0 ?I2 B T opts] serve_address [OF assms(6,7), of ?I2 B T "o_tunnel opts" pid "[]"]
      assms(2,18,19) requests_wf(3) [OF assms(6)] nil by auto
  with P1(1) D1 pend(2) assms(18) show ?thesis by (auto simp: priv_abs_def child_abs_def)
qed

section \<open>A concrete exchange\<close>

definition demo_hworld :: srvworld where
  "demo_hworld = (demo_sworld [])\<lparr>w_udp := Some (demo_udp\<lparr>u_brd_fib := Some 5, u_recv_fib := Some 5\<rparr>), w_fibers := [5 \<mapsto> demo_fiber]\<rparr>"

definition demo_child :: "srvworld imsg_data" where
  "demo_child = \<lparr>d_ibuf = imsg_init 4 7, d_ready_read = False, d_ready_write = False, d_libc = demo_libc, d_server = demo_hworld\<rparr>"

definition demo_hopts :: options where
  "demo_hopts = init_options\<lparr>o_addr := Some ''10.0.0.1/24''\<rparr>"

definition demo_all :: "bytes list \<Rightarrow> int option \<Rightarrow> io_res" where
  "demo_all iov f = (if length (concat iov) < 2 ^ 63 then Sent (length (concat iov)) else Failed EAGAIN)"

lemma demo_set_device: "\<exists>w'. server_set_device (demo_senv True) (\<lambda>k w. Some w) null 7 demo_hworld = Some w'"
proof -
  have "op_type (fib_op demo_fiber) \<noteq> FREE" by (simp add: demo_fiber_def zero_op_def)
  then show ?thesis
    by (simp add: server_set_device_def demo_hworld_def demo_sworld_def call0_def call_def o_new_def b_new_def sched_new_fiber_def
        ev_add_def server_udp_launch_def launch_opt_def sched_fiber_launch_def ctx_enter_def ctx_leave_def set_origin_def zero_op_def
        demo_senv_def Let_def)
qed

lemma demo_takes_all: "takes_all demo_all"
  by (auto simp: takes_all_def sendmsg_ok_def demo_all_def split: if_splits)

theorem device_handshake_witness:
  "\<exists>P1 D1 P2. dispatch_reads USE_LIBTUNTAP demo_ttc demo_hopts [imsg_enc (dev_request 7)] demo_priv = Some (Return P1)
    \<and> tnt_dispatch_imsg (demo_senv True) (\<lambda>k w. Some w) null demo_hopts (Received (mb_pend (im_w (p_ibuf P1))) [Rights 7 []]) demo_child = Some (0, D1)
    \<and> dispatch_reads USE_LIBTUNTAP demo_ttc demo_hopts [imsg_enc (ip_request 7 ''10.0.0.1/24'')] (imsg_write demo_all EV_WRITE P1) = Some (Return P2)
    \<and> p_dev P2 = 5"
proof -
  obtain w' where w': "server_set_device (demo_senv True) (\<lambda>k w. Some w) null 7 demo_hworld = Some w'" using demo_set_device by blast
  have o: "tnt_ttc_open USE_LIBTUNTAP demo_ttc (o_tunnel demo_hopts) [] = Return (5, [(Tuntap_init, 5), (Tuntap_start 5 TUNTAP_MODE_TUNNEL, 0)])"
    by (simp add: tnt_ttc_open_def t_call_def demo_ttc_def demo_hopts_def init_options_def)
  have f: "tnt_ttc_get_fd USE_LIBTUNTAP demo_ttc 5 h = (9, h @ [(Tuntap_get_fd 5, 9)])" for h
    by (simp add: tnt_ttc_get_fd_def t_call_def demo_ttc_def)
  have a: "o_addr demo_hopts = Some ''10.0.0.1/24''" by (simp add: demo_hopts_def)
  have n: "length ''10.0.0.1/24'' < 128" "NUL \<notin> set ''10.0.0.1/24''" by (simp_all add: NUL_def)
  have c: "child_abs 7 1 demo_child (demo_hworld, [])" "im_r (d_ibuf demo_child) = []" "im_fds (d_ibuf demo_child) = []"
    by (simp_all add: child_abs_def demo_child_def imsg_init_def mb_inv_def msgbuf_init_def mb_pend_def alloc_total_def demo_libc_def imsg_consts heap_ok_def)
  have ne: "imsg_enc (dev_request 7) \<noteq> []" "imsg_enc (ip_request 7 ''10.0.0.1/24'') \<noteq> []"
    using imsgs.enc_nonempty requests_wf(1) requests_wf(3) [OF n(1)] by blast+
  have p: "priv_abs 2 demo_priv \<lparr>if_dev = 0, if_log = [], if_sent = []\<rparr>" by simp
  have z: "(5 :: int) \<noteq> 0" "(9 :: int) \<noteq> -1" by simp_all
  have ch: "concat [imsg_enc (dev_request 7)] = imsg_enc (dev_request 7)" "[] \<notin> set [imsg_enc (dev_request 7)]"
    "concat [imsg_enc (ip_request 7 ''10.0.0.1/24'')] = imsg_enc (ip_request 7 ''10.0.0.1/24'')" "[] \<notin> set [imsg_enc (ip_request 7 ''10.0.0.1/24'')]"
    using ne by auto
  show ?thesis
    using device_handshake [OF o z(1) f z(2) a n p demo_priv_ok(2,3) c w' demo_takes_all ch] by blast
qed

end
