(* ===== verification/Startup.thy ===== *)
theory Startup
  imports Unpriv
begin

text \<open>
  Starting the daemon: \<open>main\<close> of \<open>sys/unix/tnetacled.c\<close>, forking and dropping privileges in
  \<open>sys/unix/tnetacle.c\<close>, \<open>sys/unix/util.c\<close> and \<open>sys/unix/sandbox.c\<close>. Calls to the system and to
  libevent are logged with their results, which are given by an oracle. The event loops are
  parameters; the callbacks they run are those of the other theories.
\<close>

section \<open>The system\<close>

datatype os_call =
    Fork
  | Setsid
  | Open_null
  | Dup2 int int
  | Close int
  | Stat string
  | Chroot string
  | Chdir string
  | Setgroups "int list"
  | Setresgid int
  | Setresuid int
  | Setgid int
  | Setuid int
  | Setrlimit string
  | Kill int string
  | Sigaction string string
  | Geteuid
  | Socketpair
  | Setproctitle string
  | Rand_poll
  | Nonblock int
  | Evcfg_new
  | Evcfg_free int
  | Evbase_new int
  | Evbase_free int
  | Event_signal int string
  | Event_pipe int int
  | Event_add int
  | Event_free int
  | Loopbreak int

type_synonym os_log = "(os_call \<times> int) list"

record passwd =
  pw_dir :: string
  pw_uid :: int
  pw_gid :: int

text \<open>
  \<open>k_stat\<close> is the owner and the mode of the file the last \<open>stat\<close> was about, \<open>k_pair\<close> the two ends
  of the last socket pair. \<open>k_setresxid\<close> and \<open>k_setproctitle\<close> say which functions the system has.
\<close>

record os =
  k_ret :: "os_log \<Rightarrow> os_call \<Rightarrow> int"
  k_stat :: "os_log \<Rightarrow> int \<times> nat"
  k_pair :: "os_log \<Rightarrow> int \<times> int"
  k_pwnam :: "string \<Rightarrow> passwd option"
  k_setresxid :: bool
  k_setproctitle :: bool

definition os_do :: "os \<Rightarrow> os_call \<Rightarrow> os_log \<Rightarrow> int \<times> os_log" where
  "os_do K c h = (k_ret K h c, h @ [(c, k_ret K h c)])"

definition os_do0 :: "os \<Rightarrow> os_call \<Rightarrow> os_log \<Rightarrow> os_log" where
  "os_do0 K c h = snd (os_do K c h)"

text \<open>Calls that must not fail: the process exits with \<open>code\<close> at the first one that does.\<close>

fun musts :: "os \<Rightarrow> int \<Rightarrow> os_call list \<Rightarrow> os_log \<Rightarrow> unit outcome \<times> os_log" where
  "musts K code [] h = (Return (), h)"
| "musts K code (c # cs) h =
     (let (r, h) = os_do K c h in if r = -1 then (Exit code, h) else musts K code cs h)"

section \<open>Dropping privileges\<close>

definition tnt_priv_drop :: "os \<Rightarrow> passwd \<Rightarrow> os_log \<Rightarrow> unit outcome \<times> os_log" where
  "tnt_priv_drop K pw h =
     (let (r, h) = os_do K (Stat (pw_dir pw)) h; (st_uid, st_mode) = k_stat K h
      in if r = -1 then (Exit 1, h)
         else if st_uid \<noteq> 0 then (Exit 1, h)
         else if st_mode div 16 mod 2 = 1 \<or> st_mode div 2 mod 2 = 1 then (Exit 1, h)
         else
           musts K 1
             ([Chroot (pw_dir pw), Chdir ''/'', Setgroups [pw_gid pw]]
              @ (if k_setresxid K then [Setresgid (pw_gid pw), Setresuid (pw_uid pw)]
                 else [Setgid (pw_gid pw), Setuid (pw_uid pw)])) h)"

text \<open>No other file calls \<open>sandbox\<close>.\<close>

definition sandbox :: "os \<Rightarrow> os_log \<Rightarrow> unit outcome \<times> os_log" where
  "sandbox K = musts K 1 [Setrlimit ''FSIZE'', Setrlimit ''NOFILE'', Setrlimit ''NPROC'']"

section \<open>The unprivileged process\<close>

definition TNT_OK :: int where "TNT_OK = 0"
definition TNT_USAGE :: int where "TNT_USAGE = 64"
definition TNT_SOFTWARE :: int where "TNT_SOFTWARE = 70"
definition TNT_OSERR :: int where "TNT_OSERR = 71"

definition TNETACLE_USER :: string where "TNETACLE_USER = ''_tnetacle''"

text \<open>\<open>sys/unix/util.c\<close>\<close>

definition tnt_setproctitle :: "os \<Rightarrow> string \<Rightarrow> os_log \<Rightarrow> os_log" where
  "tnt_setproctitle K s h = (if k_setproctitle K then os_do0 K (Setproctitle s) h else h)"

definition chld_sighdlr :: "os \<Rightarrow> int \<Rightarrow> os_log \<Rightarrow> os_log" where
  "chld_sighdlr K evbase = os_do0 K (Loopbreak evbase)"

text \<open>The end of the pipe of this process, its event, and the state of the message loop.\<close>

definition init_pipe_endpoint ::
    "os \<Rightarrow> int \<times> int \<Rightarrow> int \<Rightarrow> u32 \<Rightarrow> libc \<Rightarrow> 'w \<Rightarrow> os_log \<Rightarrow> int \<times> 'w imsg_data \<times> os_log" where
  "init_pipe_endpoint K imsg_fds evbase getpid L server h =
     (let h = os_do0 K (Close (fst imsg_fds)) h;
          D = \<lparr>d_ibuf = imsg_init (snd imsg_fds) getpid, d_ready_read = False, d_ready_write = False, d_libc = L, d_server = server\<rparr>;
          h = os_do0 K (Nonblock (snd imsg_fds)) h;
          (event, h) = os_do K (Event_pipe evbase (snd imsg_fds)) h
      in (event, D, h))"

text \<open>
  The part of \<open>tnt_fork\<close> after the privileges are dropped. \<open>loop\<close> stands for
  \<open>event_base_dispatch\<close>; the process ends in \<open>exit\<close>.
\<close>

definition child_serve ::
    "os \<Rightarrow> 'e srvenv_scheme \<Rightarrow> options \<Rightarrow> val \<Rightarrow> ('w srvworld_scheme imsg_data \<Rightarrow> 'w srvworld_scheme imsg_data option)
      \<Rightarrow> (bytes list \<Rightarrow> int option \<Rightarrow> io_res) \<Rightarrow> int \<times> int \<Rightarrow> u32 \<Rightarrow> libc \<Rightarrow> int \<Rightarrow> os_log \<Rightarrow> 'w srvworld_scheme
      \<Rightarrow> (int outcome \<times> os_log \<times> 'w srvworld_scheme) option" where
  "child_serve K E opts s loop sendmsg imsg_fds getpid L evcfg h w =
     (let (evbase, h) = os_do K (Evbase_new evcfg) h in
      if evbase = 0 then Some (Exit 1, h, w)
      else
        do { let (sigterm, h) = os_do K (Event_signal evbase ''SIGTERM'') h;
             let (sigint, h) = os_do K (Event_signal evbase ''SIGINT'') h;
             let h = os_do0 K (Sigaction ''SIGPIPE'' ''SIG_IGN'') h;
             let h = os_do0 K (Sigaction ''SIGHUP'' ''SIG_IGN'') h;
             let h = os_do0 K (Sigaction ''SIGCHLD'' ''SIG_DFL'') h;
             (r, w) \<leftarrow> server_init E opts s evbase w;
             if r = -1 then Some (Exit 1, h, w)
             else
               do { let (imsg_event, D, h) = init_pipe_endpoint K imsg_fds evbase getpid L w h;
                    let h = os_do0 K (Event_add imsg_event) (os_do0 K (Event_add sigint) (os_do0 K (Event_add sigterm) h));
                    (_, ib, L) \<leftarrow> imsg_compose (d_ibuf D) IMSG_CREATE_DEV 0 0 (-1) [] 0 (d_libc D);
                    D \<leftarrow> loop (D\<lparr>d_ibuf := ib, d_libc := L\<rparr>);
                    let (_, mb, L) = msgbuf_write sendmsg (im_w (d_ibuf D)) (d_libc D);
                    let (mb, L) = msgbuf_clear mb L;
                    w \<leftarrow> server_delete E (d_server D);
                    let h = os_do0 K (Event_free sigint) (os_do0 K (Event_free sigterm) h);
                    let h = os_do0 K (Event_free imsg_event) (os_do0 K (Close (snd imsg_fds)) h);
                    let h = os_do0 K (Evcfg_free evcfg) (os_do0 K (Evbase_free evbase) h);
                    Some (Exit TNT_OK, h, w) } })"

definition tnt_fork ::
    "os \<Rightarrow> 'e srvenv_scheme \<Rightarrow> options \<Rightarrow> val \<Rightarrow> ('w srvworld_scheme imsg_data \<Rightarrow> 'w srvworld_scheme imsg_data option)
      \<Rightarrow> (bytes list \<Rightarrow> int option \<Rightarrow> io_res) \<Rightarrow> int \<times> int \<Rightarrow> u32 \<Rightarrow> libc \<Rightarrow> os_log \<Rightarrow> 'w srvworld_scheme
      \<Rightarrow> (int outcome \<times> os_log \<times> 'w srvworld_scheme) option" where
  "tnt_fork K E opts s loop sendmsg imsg_fds getpid L h w =
     (let (pid, h) = os_do K Fork h in
      if pid = -1 then Some (Exit TNT_OSERR, h, w)
      else if pid \<noteq> 0 then Some (Return pid, tnt_setproctitle K ''[priv]'' h, w)
      else
        let h = tnt_setproctitle K ''[unpriv]'' h in
        case k_pwnam K TNETACLE_USER of
          None \<Rightarrow> Some (Exit 1, h, w)
        | Some pw \<Rightarrow>
            (let (evcfg, h) = os_do K Evcfg_new h; (r, h) = os_do K Rand_poll h in
             if r = 0 then Some (Exit TNT_SOFTWARE, h, w)
             else
               do { (ctx, w) \<leftarrow> (if o_encryption opts \<noteq> 0 then evssl_init E opts w else Some (0, w));
                    let w = w\<lparr>w_ctx := ctx\<rparr>;
                    case tnt_priv_drop K pw h of
                      (Exit n, h) \<Rightarrow> Some (Exit n, h, w)
                    | (Return _, h) \<Rightarrow> child_serve K E opts s loop sendmsg imsg_fds getpid L evcfg h w }))"

section \<open>The privileged process\<close>

text \<open>\<open>init_sig_hdlr\<close>: whether the child died is noted; a segmentation fault ends both processes.\<close>

definition init_sig_hdlr :: "os \<Rightarrow> int \<Rightarrow> string \<Rightarrow> bool \<Rightarrow> os_log \<Rightarrow> bool outcome \<times> os_log" where
  "init_sig_hdlr K chld_pid sig sigchld_recv h =
     (let recv = (sigchld_recv \<or> sig = ''SIGCHLD'')
      in if sig = ''SIGSEGV'' then (Exit (-1), os_do0 K (Kill chld_pid ''SIGTERM'') h) else (Return recv, h))"

definition sig_gen_hdlr :: "os \<Rightarrow> int \<Rightarrow> os_log \<Rightarrow> os_log" where
  "sig_gen_hdlr K evbase = os_do0 K (Loopbreak evbase)"

text \<open>\<open>tnt_daemonize\<close>: the process that called it exits, its child goes on.\<close>

definition tnt_daemonize :: "os \<Rightarrow> os_log \<Rightarrow> int outcome \<times> os_log" where
  "tnt_daemonize K h =
     (let (pid, h) = os_do K Fork h in
      if pid = -1 then (Return (-1), h)
      else if pid \<noteq> 0 then (Exit 0, h)
      else
        let (r, h) = os_do K Setsid h in
        if r = -1 then (Return (-1), h)
        else
          let (fd, h) = os_do K Open_null h in
          if fd \<noteq> -1
          then let h = os_do0 K (Dup2 fd 2) (os_do0 K (Dup2 fd 1) (os_do0 K (Dup2 fd 0) h))
               in (Return 0, if fd > 2 then os_do0 K (Close fd) h else h)
          else (Return 0, h))"

definition usage :: "'a outcome" where
  "usage = Exit TNT_USAGE"

text \<open>The command line as \<open>getopt\<close> returns it, and the loop over it; the state is the options and \<open>debug\<close>.\<close>

datatype cmd_opt = Opt_d | Opt_f string | Opt_h

fun read_opts :: "(string option \<Rightarrow> options \<times> int \<Rightarrow> (int \<times> (options \<times> int) \<times> fcall list) option) \<Rightarrow> cmd_opt list \<Rightarrow> options \<times> int \<Rightarrow> (options \<times> int) outcome option" where
  "read_opts parse_file [] st = Some (Return st)"
| "read_opts parse_file (Opt_d # os) st = read_opts parse_file os (fst st, 1)"
| "read_opts parse_file (Opt_f f # os) st =
     do { (r, st, _) \<leftarrow> parse_file (Some f) st; if r = -1 then Some (Exit 1) else read_opts parse_file os st }"
| "read_opts parse_file (Opt_h # os) st = Some usage"

text \<open>The part of \<open>main\<close> after the fork, in the parent.\<close>

definition parent_serve ::
    "os \<Rightarrow> ttc_lib \<Rightarrow> ttc \<Rightarrow> (priv \<Rightarrow> priv outcome option) \<Rightarrow> bool \<Rightarrow> int \<times> int \<Rightarrow> u32 \<Rightarrow> libc \<Rightarrow> int \<Rightarrow> int \<Rightarrow> os_log
      \<Rightarrow> (int outcome \<times> os_log \<times> priv option) option" where
  "parent_serve K B T loop sigchld_recv imsg_fds getpid L evcfg chld_pid h =
     (let (evbase, h) = os_do K (Evbase_new evcfg) h in
      if evbase = 0 then Some (Exit 1, h, None)
      else
        let (sigint, h) = os_do K (Event_signal evbase ''SIGINT'') h;
            (sigterm, h) = os_do K (Event_signal evbase ''SIGTERM'') h;
            (sigchld, h) = os_do K (Event_signal evbase ''SIGCHLD'') h;
            h = os_do0 K (Close (snd imsg_fds)) h;
            P = \<lparr>p_ibuf = imsg_init (fst imsg_fds) getpid, p_ready_read = False, p_ready_write = False, p_dev = 0, p_log = [], p_libc = L\<rparr>;
            h = os_do0 K (Nonblock (fst imsg_fds)) h;
            (event, h) = os_do K (Event_pipe evbase (fst imsg_fds)) h;
            h = os_do0 K (Event_add sigint) (os_do0 K (Event_add event) h);
            h = os_do0 K (Event_add sigchld) (os_do0 K (Event_add sigterm) h)
        in case (if sigchld_recv then Some (Return P) else loop P) of
             None \<Rightarrow> None
           | Some (Exit n) \<Rightarrow> Some (Exit n, h, None)
           | Some (Return P) \<Rightarrow>
               (let h = os_do0 K (Sigaction ''SIGSEGV'' ''SIG_DFL'') (os_do0 K (Sigaction ''SIGCHLD'' ''SIG_DFL'') h);
                    h = (if chld_pid \<noteq> 0 then os_do0 K (Kill chld_pid ''SIGTERM'') h else h);
                    (mb, L) = msgbuf_clear (im_w (p_ibuf P)) (p_libc P);
                    h = os_do0 K (Event_free event) (os_do0 K (Close (fst imsg_fds)) h);
                    h = os_do0 K (Event_free sigterm) (os_do0 K (Event_free sigint) h);
                    h = os_do0 K (Evbase_free evbase) (os_do0 K (Event_free sigchld) h);
                    t = (if p_dev P \<noteq> 0 then tnt_ttc_close B T (p_dev P) (p_log P) else p_log P)
                in Some (Return TNT_OK, os_do0 K (Evcfg_free evcfg) h, Some (P\<lparr>p_ibuf := (p_ibuf P)\<lparr>im_w := mb\<rparr>, p_libc := L, p_log := t\<rparr>))))"

definition main ::
    "os \<Rightarrow> 'e srvenv_scheme \<Rightarrow> ttc_lib \<Rightarrow> ttc \<Rightarrow> cenv \<Rightarrow> (string \<Rightarrow> yevent list \<times> bool) \<Rightarrow> fsys
      \<Rightarrow> (options \<Rightarrow> 'w srvworld_scheme imsg_data \<Rightarrow> 'w srvworld_scheme imsg_data option) \<Rightarrow> (options \<Rightarrow> priv \<Rightarrow> priv outcome option)
      \<Rightarrow> (bytes list \<Rightarrow> int option \<Rightarrow> io_res) \<Rightarrow> val \<Rightarrow> u32 \<Rightarrow> bool \<Rightarrow> libc \<Rightarrow> cmd_opt list \<Rightarrow> options \<times> int \<Rightarrow> os_log \<Rightarrow> 'w srvworld_scheme
      \<Rightarrow> (int \<times> os_log \<times> priv option) option" where
  "main K E B T C yajl F cloop ploop sendmsg s getpid sigchld_recv L argv st h w =
     do { (_, st, _) \<leftarrow> tnt_parse_file C yajl F None st;
          r \<leftarrow> read_opts (tnt_parse_file C yajl F) argv st;
          case r of
            Exit n \<Rightarrow> Some (n, h, None)
          | Return (opts, debug) \<Rightarrow>
              (let (evcfg, h) = os_do K Evcfg_new h; (euid, h) = os_do K Geteuid h in
               if euid \<noteq> 0 then Some (1, h, None)
               else
                 let (r, h) = os_do K Socketpair h; imsg_fds = k_pair K h in
                 if r = -1 then Some (1, h, None)
                 else
                   case (if debug = 0 then tnt_daemonize K h else (Return 0, h)) of
                     (Exit n, h) \<Rightarrow> Some (n, h, None)
                   | (Return d, h) \<Rightarrow>
                       (if d = -1 then Some (1, h, None)
                        else
                          let h = os_do0 K (Sigaction ''SIGSEGV'' ''init_sig_hdlr'') (os_do0 K (Sigaction ''SIGCHLD'' ''init_sig_hdlr'') h)
                          in do { (f, h, _) \<leftarrow> tnt_fork K E opts s (cloop opts) sendmsg imsg_fds getpid L h w;
                                  case f of
                                    Exit n \<Rightarrow> Some (n, h, None)
                                  | Return chld_pid \<Rightarrow>
                                      do { (x, h, t) \<leftarrow> parent_serve K B T (ploop opts) sigchld_recv imsg_fds getpid L evcfg chld_pid h;
                                           Some (case x of Exit n \<Rightarrow> n | Return n \<Rightarrow> n, h, t) } })) }"

section \<open>Credentials\<close>

text \<open>
  What the kernel keeps of a process, and what the calls that succeed do to it. \<open>setuid\<close> and
  \<open>setgid\<close> of a process of the superuser change all identities. The working directory is outside
  of a new root until the process changes it.
\<close>

record cred =
  cr_uid :: int
  cr_gid :: int
  cr_groups :: "int list"
  cr_root :: string
  cr_inside :: bool

definition cred_step :: "os_call \<times> int \<Rightarrow> cred \<Rightarrow> cred" where
  "cred_step x cr =
     (if snd x = -1 then cr
      else
        case fst x of
          Chroot d \<Rightarrow> cr\<lparr>cr_root := d, cr_inside := False\<rparr>
        | Chdir d \<Rightarrow> cr\<lparr>cr_inside := True\<rparr>
        | Setgroups gs \<Rightarrow> cr\<lparr>cr_groups := gs\<rparr>
        | Setresgid g \<Rightarrow> cr\<lparr>cr_gid := g\<rparr>
        | Setgid g \<Rightarrow> cr\<lparr>cr_gid := g\<rparr>
        | Setresuid u \<Rightarrow> cr\<lparr>cr_uid := u\<rparr>
        | Setuid u \<Rightarrow> cr\<lparr>cr_uid := u\<rparr>
        | _ \<Rightarrow> cr)"

definition creds :: "cred \<Rightarrow> os_log \<Rightarrow> cred" where
  "creds cr h = fold cred_step h cr"

definition dropped :: "passwd \<Rightarrow> cred \<Rightarrow> bool" where
  "dropped pw cr \<longleftrightarrow> cr_uid cr = pw_uid pw \<and> cr_gid cr = pw_gid pw \<and> cr_groups cr = [pw_gid pw]
     \<and> cr_root cr = pw_dir pw \<and> cr_inside cr"

text \<open>A kernel that grants these calls to the superuser, and to nobody else.\<close>

definition by_root :: "os_call \<Rightarrow> bool" where
  "by_root c \<longleftrightarrow> (case c of Chroot _ \<Rightarrow> True | Setgroups _ \<Rightarrow> True | Setresgid _ \<Rightarrow> True | Setresuid _ \<Rightarrow> True
     | Setgid _ \<Rightarrow> True | Setuid _ \<Rightarrow> True | _ \<Rightarrow> False)"

definition root_kernel :: "os \<Rightarrow> cred \<Rightarrow> bool" where
  "root_kernel K cr0 \<longleftrightarrow> (\<forall>h c. by_root c \<longrightarrow> (k_ret K h c \<noteq> -1 \<longleftrightarrow> cr_uid (creds cr0 h) = 0))
     \<and> (\<forall>h d. k_ret K h (Chdir d) \<noteq> -1)"

lemma creds_append: "creds cr (h @ [x]) = cred_step x (creds cr h)"
  by (simp add: creds_def)

definition cred_call :: "os_call \<Rightarrow> bool" where
  "cred_call c \<longleftrightarrow> by_root c \<or> (case c of Chdir _ \<Rightarrow> True | _ \<Rightarrow> False)"

lemma creds_other: "\<not> cred_call c \<Longrightarrow> creds cr (os_do0 K c h) = creds cr h"
  by (cases c) (simp_all add: os_do0_def os_do_def creds_append cred_step_def cred_call_def by_root_def)

lemma musts_returned:
  "musts K code cs h = (Return u, h') \<Longrightarrow> creds cr h' = fold (\<lambda>c. cred_step (c, 0)) cs (creds cr h)"
proof (induction cs arbitrary: h)
  case (Cons c cs)
  then have r: "k_ret K h c \<noteq> -1" and m: "musts K code cs (h @ [(c, k_ret K h c)]) = (Return u, h')"
    by (auto simp: os_do_def split: if_splits)
  have "cred_step (c, k_ret K h c) x = cred_step (c, 0) x" for x using r by (simp add: cred_step_def)
  with Cons.IH [OF m] show ?case by (simp add: creds_append)
qed simp

lemma priv_drop_returns:
  assumes "tnt_priv_drop K pw h = (Return u, h')"
  shows "dropped pw (creds cr h')"
proof -
  let ?cs = "[Chroot (pw_dir pw), Chdir ''/'', Setgroups [pw_gid pw]]
      @ (if k_setresxid K then [Setresgid (pw_gid pw), Setresuid (pw_uid pw)] else [Setgid (pw_gid pw), Setuid (pw_uid pw)])"
  obtain h1 where "musts K 1 ?cs h1 = (Return u, h')"
    using assms by (auto simp: tnt_priv_drop_def Let_def simp del: musts.simps split: if_splits prod.splits)
  from musts_returned [OF this, of cr] show ?thesis by (simp add: cred_step_def dropped_def)
qed

lemma uid_kept: "\<forall>u. fst x \<noteq> Setuid u \<and> fst x \<noteq> Setresuid u \<Longrightarrow> cr_uid (cred_step x cr) = cr_uid cr"
  by (cases "fst x") (simp_all add: cred_step_def)

text \<open>The superuser may make these calls as long as the identity is changed last.\<close>

lemma musts_granted:
  assumes K: "root_kernel K cr" and "cr_uid (creds cr h) = 0" and "by_root l"
    and "\<forall>c \<in> set cs. (by_root c \<or> (\<exists>d. c = Chdir d)) \<and> (\<forall>u. c \<noteq> Setuid u \<and> c \<noteq> Setresuid u)"
  shows "\<exists>h'. musts K code (cs @ [l]) h = (Return (), h')"
  using assms(2-)
proof (induction cs arbitrary: h)
  case Nil
  with K show ?case by (simp add: root_kernel_def os_do_def)
next
  case (Cons c cs)
  have "k_ret K h c \<noteq> -1" using K Cons.prems by (auto simp: root_kernel_def)
  moreover have "cr_uid (creds cr (h @ [(c, k_ret K h c)])) = 0"
    using Cons.prems uid_kept [of "(c, k_ret K h c)"] by (simp add: creds_append)
  ultimately show ?case using Cons.IH [of "h @ [(c, k_ret K h c)]"] Cons.prems by (simp add: os_do_def)
qed

lemma priv_drop_granted:
  assumes K: "root_kernel K cr" and u: "cr_uid (creds cr h) = 0" and st: "k_ret K h (Stat (pw_dir pw)) \<noteq> -1"
    "k_stat K (os_do0 K (Stat (pw_dir pw)) h) = (0, mode)" "mode div 16 mod 2 = 0" "mode div 2 mod 2 = 0"
  shows "\<exists>h'. tnt_priv_drop K pw h = (Return (), h')"
proof -
  let ?h = "os_do0 K (Stat (pw_dir pw)) h"
  let ?cs = "\<lambda>c. [Chroot (pw_dir pw), Chdir ''/'', Setgroups [pw_gid pw], c]"
  have h: "cr_uid (creds cr ?h) = 0" using u by (simp add: creds_other cred_call_def by_root_def)
  have "\<exists>h'. musts K 1 (?cs (Setresgid (pw_gid pw)) @ [Setresuid (pw_uid pw)]) ?h = (Return (), h')"
    "\<exists>h'. musts K 1 (?cs (Setgid (pw_gid pw)) @ [Setuid (pw_uid pw)]) ?h = (Return (), h')"
    by (rule musts_granted [OF K h]; simp add: by_root_def)+
  with st show ?thesis
    by (cases "k_setresxid K") (simp_all add: tnt_priv_drop_def os_do0_def os_do_def del: musts.simps)
qed

text \<open>
  Claim C6. Dropping privileges. If \<open>tnt_priv_drop\<close> returns, whatever the kernel answers, the
  process runs as the unprivileged user, in its group only, inside its home directory as
  root. If the process runs as the superuser and the home directory is safe, it returns:
  no call is made at a point where the privilege it needs is gone.
\<close>

theorem priv_drop_correct:
  "(\<forall>u h'. tnt_priv_drop K pw h = (Return u, h') \<longrightarrow> dropped pw (creds cr h'))
   \<and> (root_kernel K cr \<and> cr_uid (creds cr h) = 0 \<and> k_ret K h (Stat (pw_dir pw)) \<noteq> -1
        \<and> k_stat K (os_do0 K (Stat (pw_dir pw)) h) = (0, mode) \<and> mode div 16 mod 2 = 0 \<and> mode div 2 mod 2 = 0
      \<longrightarrow> (\<exists>h'. tnt_priv_drop K pw h = (Return (), h')))"
  using priv_drop_returns priv_drop_granted by metis

definition demo_os :: os where
  "demo_os = \<lparr>k_ret = (\<lambda>h c. if by_root c \<and> cr_uid (creds \<lparr>cr_uid = 0, cr_gid = 0, cr_groups = [0], cr_root = ''/'', cr_inside = True\<rparr> h) \<noteq> 0 then -1
       else if c = Rand_poll \<or> (\<exists>e. c = Evbase_new e) then 1 else 0),
     k_stat = (\<lambda>h. (0, 493)), k_pair = (\<lambda>h. (3, 4)),
     k_pwnam = (\<lambda>n. Some \<lparr>pw_dir = ''/var/empty'', pw_uid = 99, pw_gid = 98\<rparr>), k_setresxid = True, k_setproctitle = True\<rparr>"

definition demo_root :: cred where
  "demo_root = \<lparr>cr_uid = 0, cr_gid = 0, cr_groups = [0], cr_root = ''/'', cr_inside = True\<rparr>"

lemma demo_kernel: "root_kernel demo_os demo_root"
  by (auto simp: root_kernel_def demo_os_def demo_root_def by_root_def split: os_call.splits)

theorem priv_drop_correct_witness:
  "\<exists>h'. tnt_priv_drop demo_os \<lparr>pw_dir = ''/var/empty'', pw_uid = 99, pw_gid = 98\<rparr> [] = (Return (), h')
     \<and> dropped \<lparr>pw_dir = ''/var/empty'', pw_uid = 99, pw_gid = 98\<rparr> (creds demo_root h')"
proof -
  let ?pw = "\<lparr>pw_dir = ''/var/empty'', pw_uid = 99, pw_gid = 98\<rparr>"
  have "cr_uid (creds demo_root []) = 0" "k_ret demo_os [] (Stat (pw_dir ?pw)) \<noteq> -1"
    "k_stat demo_os (os_do0 demo_os (Stat (pw_dir ?pw)) []) = (0, 493)"
    by (simp_all add: creds_def demo_root_def demo_os_def by_root_def)
  with priv_drop_correct [of demo_os ?pw "[]" demo_root 493] demo_kernel show ?thesis by auto
qed

section \<open>The server runs without privileges\<close>

lemma os_do_eq: "os_do K c h = (k_ret K h c, os_do0 K c h)"
  by (simp add: os_do_def os_do0_def)

lemma event_calls: "\<not> cred_call c" if "c \<in> {Evbase_new a, Event_signal a n, Sigaction n m, Event_pipe a b, Event_add a, Event_free a,
    Close a, Nonblock a, Evbase_free a, Evcfg_free a, Evcfg_new, Rand_poll, Setproctitle n, Fork}"
  using that by (auto simp: cred_call_def by_root_def)

lemma child_serve_creds:
  assumes "child_serve K E opts s loop sendmsg imsg_fds getpid L evcfg h w = Some (r, h', w')"
  shows "creds cr h' = creds cr h \<and> (\<exists>n. r = Exit n)"
  using assms
  by (auto simp: child_serve_def init_pipe_endpoint_def os_do_eq Let_def bind_eq_Some_conv creds_other event_calls split: if_splits prod.splits)

text \<open>Only the TLS library has been called.\<close>

definition only_tls :: "'w world_scheme \<Rightarrow> 'w world_scheme \<Rightarrow> bool" where
  "only_tls w w' \<longleftrightarrow> (\<exists>ts. w_log w' = w_log w @ ts \<and> (\<forall>x \<in> set ts. \<exists>t. fst x = Tls t))"

lemma only_tls_refl: "only_tls w w"
  by (auto simp: only_tls_def)

lemma evssl_init_tls: "evssl_init E opts w = Some (ctx, w') \<Longrightarrow> only_tls w w'"
  by (auto simp: evssl_init_def only_tls_def call_def call0_def Let_def split: if_splits option.splits)

text \<open>
  Claim C21. The child never returns to \<open>main\<close>, and it does not serve as root: unless nothing but
  the TLS library was called, the process has, until it exits, the privileges of the user
  \<open>_tnetacle\<close>. What the event loop does with the server is arbitrary here.
\<close>

theorem server_runs_unprivileged:
  assumes "tnt_fork K E opts s loop sendmsg imsg_fds getpid L h w = Some (r, h', w')" and "k_ret K h Fork = 0"
  shows "(\<exists>n. r = Exit n)
    \<and> (only_tls w w' \<or> (\<exists>pw. k_pwnam K TNETACLE_USER = Some pw \<and> dropped pw (creds cr h')))"
proof (cases "k_pwnam K TNETACLE_USER")
  case None
  with assms show ?thesis by (auto simp: tnt_fork_def os_do_eq only_tls_refl)
next
  case (Some pw)
  let ?h0 = "os_do0 K Evcfg_new (tnt_setproctitle K ''[unpriv]'' (os_do0 K Fork h))"
  define h1 where "h1 = os_do0 K Rand_poll ?h0"
  show ?thesis
  proof (cases "k_ret K ?h0 Rand_poll = 0")
    case True
    with assms Some show ?thesis by (auto simp: tnt_fork_def os_do_eq only_tls_refl Let_def)
  next
    case False
    then obtain ctx w1 where tls: "(if o_encryption opts \<noteq> 0 then evssl_init E opts w else Some (0, w)) = Some (ctx, w1)"
      and rest: "(case tnt_priv_drop K pw h1 of (Exit n, h2) \<Rightarrow> Some (Exit n, h2, w1\<lparr>w_ctx := ctx\<rparr>)
        | (Return _, h2) \<Rightarrow> child_serve K E opts s loop sendmsg imsg_fds getpid L
            (k_ret K (tnt_setproctitle K ''[unpriv]'' (os_do0 K Fork h)) Evcfg_new) h2 (w1\<lparr>w_ctx := ctx\<rparr>)) = Some (r, h', w')"
      using assms Some unfolding h1_def by (auto simp: tnt_fork_def os_do_eq bind_eq_Some_conv Let_def)
    have o: "only_tls w (w1\<lparr>w_ctx := ctx\<rparr>)"
      using tls evssl_init_tls [of E opts w ctx w1] by (auto simp: only_tls_def split: if_splits)
    obtain x h2 where d: "tnt_priv_drop K pw h1 = (x, h2)" by (metis surj_pair)
    show ?thesis
    proof (cases x)
      case (Exit n)
      with rest d o show ?thesis by auto
    next
      case (Return u)
      with rest d child_serve_creds [of K E opts s loop sendmsg imsg_fds getpid L _ h2 "w1\<lparr>w_ctx := ctx\<rparr>" r h' w' cr]
        priv_drop_returns [of K pw h1 u h2 cr] Some
      show ?thesis by auto
    qed
  qed
qed

text \<open>A world in which the two fibers of the UDP side can be deleted.\<close>

definition demo_end :: srvworld where
  "demo_end = (demo_sworld [])\<lparr>w_udp := Some (demo_udp\<lparr>u_brd_fib := Some 5, u_recv_fib := Some 6\<rparr>),
     w_fibers := [5 \<mapsto> demo_fiber, 6 \<mapsto> demo_fiber\<lparr>fib_stack := Vptr 11 0, map_fe := 12\<rparr>],
     w_maps := [3 \<mapsto> Map.empty, 12 \<mapsto> Map.empty], w_heap := [4 \<mapsto> [], 11 \<mapsto> []], w_peers := []\<rparr>"

definition demo_nopts :: options where
  "demo_nopts = init_options\<lparr>o_encryption := 0\<rparr>"

lemma demo_stop: "\<exists>w'. server_delete (demo_senv True) demo_end = Some w'"
  by (simp add: server_delete_def demo_end_def demo_sworld_def server_udp_exit_def sched_fiber_delete_def m_delete_def
      call0_def call_def Let_def demo_udp_def no_udp_def udp_peer_free_def b_free_def demo_fiber_def o_free_fiber_def demo_senv_def)

lemma demo_start: "\<exists>w'. server_init (demo_senv True) demo_nopts null 1 w = Some (0, w')"
  by (simp add: server_init_def demo_nopts_def init_options_def sched_new_def o_new_def)

lemma demo_serve:
  "\<exists>r h' w'. child_serve demo_os (demo_senv True) demo_nopts null (\<lambda>D. Some (D\<lparr>d_server := demo_end\<rparr>)) demo_all (3, 4) 7 demo_libc evcfg h w
     = Some (r, h', w')"
proof -
  let ?ib = "imsg_init 4 7"
  have "mb_inv (im_w ?ib)" "Suc (length (mb_bufs (im_w ?ib))) < 2 ^ 32" "unat (0 :: u16) \<le> length ([] :: bytes)"
    by (simp_all add: imsg_init_def mb_inv_def msgbuf_init_def)
  with imsg_compose_ok [OF heap_ok_demo, of 0 "[]" ?ib IMSG_CREATE_DEV 0 0 "-1"] obtain r ib L where
    c: "imsg_compose ?ib IMSG_CREATE_DEV 0 0 (-1) [] 0 demo_libc = Some (r, ib, L)" by blast
  obtain r1 mb1 L1 where m: "msgbuf_write demo_all (im_w ib) L = (r1, mb1, L1)" by (metis surj_pair)
  obtain mb2 L2 where m2: "msgbuf_clear mb1 L1 = (mb2, L2)" by (metis surj_pair)
  obtain w1 w2 where w: "server_init (demo_senv True) demo_nopts null 1 w = Some (0, w1)" "server_delete (demo_senv True) demo_end = Some w2"
    using demo_start demo_stop by blast
  have "k_ret demo_os h (Evbase_new evcfg) = 1" by (simp add: demo_os_def by_root_def)
  with c m m2 w show ?thesis by (simp add: child_serve_def init_pipe_endpoint_def os_do_eq Let_def)
qed

lemma demo_fork:
  "\<exists>r h' w'. tnt_fork demo_os (demo_senv True) demo_nopts null (\<lambda>D. Some (D\<lparr>d_server := demo_end\<rparr>)) demo_all (3, 4) 7 demo_libc [] demo_hworld
     = Some (r, h', w')"
proof -
  let ?pw = "\<lparr>pw_dir = ''/var/empty'', pw_uid = 99, pw_gid = 98\<rparr>"
  let ?h = "os_do0 demo_os Rand_poll (os_do0 demo_os Evcfg_new (os_do0 demo_os (Setproctitle ''[unpriv]'') (os_do0 demo_os Fork [])))"
  have r: "k_ret demo_os h Rand_poll = 1" "k_ret demo_os h Fork = 0" "k_pwnam demo_os n = Some ?pw" "k_setproctitle demo_os"
    "k_ret demo_os h (Stat d) = 0" "k_stat demo_os h = (0, 493)" for h n d
    by (simp_all add: demo_os_def by_root_def)
  have "cr_uid (creds demo_root ?h) = 0" by (simp add: creds_other event_calls) (simp add: creds_def demo_root_def)
  then obtain h1 where "tnt_priv_drop demo_os ?pw ?h = (Return (), h1)"
    using priv_drop_granted [OF demo_kernel, of ?h ?pw 493] r by auto
  with r demo_serve show ?thesis
    by (simp add: tnt_fork_def os_do_eq tnt_setproctitle_def demo_nopts_def [THEN arg_cong, of o_encryption])
qed

theorem server_runs_unprivileged_witness:
  "\<exists>r h' w'. tnt_fork demo_os (demo_senv True) demo_nopts null (\<lambda>D. Some (D\<lparr>d_server := demo_end\<rparr>)) demo_all (3, 4) 7 demo_libc [] demo_hworld
     = Some (r, h', w') \<and> (\<exists>n. r = Exit n)
     \<and> (only_tls demo_hworld w' \<or> (\<exists>pw. k_pwnam demo_os TNETACLE_USER = Some pw \<and> dropped pw (creds demo_root h')))"
proof -
  obtain r h' w' where f: "tnt_fork demo_os (demo_senv True) demo_nopts null (\<lambda>D. Some (D\<lparr>d_server := demo_end\<rparr>)) demo_all (3, 4) 7 demo_libc [] demo_hworld
     = Some (r, h', w')" using demo_fork by blast
  have k: "k_ret demo_os [] Fork = 0" by (simp add: demo_os_def by_root_def)
  show ?thesis
    using f server_runs_unprivileged [OF f k, where cr = demo_root] by (intro exI [of _ r] exI [of _ h'] exI [of _ w']) simp
qed

end
