(* ===== verification/Compress.thy ===== *)
theory Compress
  imports Cstring
begin

text \<open>
  Compression of packets (\<open>src/compress.c\<close>, \<open>include/compress.h\<close>) over zlib, which is a parameter:
  what its documentation promises is the predicate \<open>zlib_ok\<close>. The sized variants append the length
  of the original in network order.
\<close>

section \<open>zlib\<close>

definition Z_OK :: int where "Z_OK = 0"
definition Z_STREAM_END :: int where "Z_STREAM_END = 1"

text \<open>
  \<open>z_deflate z n\<close> is a call of \<open>deflate\<close> with \<open>Z_FINISH\<close> and room for \<open>n\<close> bytes: its result, the
  bytes it writes, the state after it. \<open>z_inflate s n\<close> is \<open>inflate\<close> of the whole of \<open>s\<close> into \<open>n\<close>
  bytes. The two flags say whether the initialisations succeed.
\<close>

record 'z zlib =
  z_deflate_init :: bool
  z_start :: "bytes \<Rightarrow> 'z"
  z_deflate :: "'z \<Rightarrow> nat \<Rightarrow> int \<times> bytes \<times> 'z"
  z_inflate_init :: bool
  z_inflate :: "bytes \<Rightarrow> nat \<Rightarrow> int \<times> bytes"
  z_bound :: "nat \<Rightarrow> nat"

text \<open>Calls one after the other, with rooms given, until one does not return \<open>Z_OK\<close>.\<close>

fun z_run :: "'z zlib \<Rightarrow> nat list \<Rightarrow> 'z \<Rightarrow> int \<times> bytes" where
  "z_run Z [] z = (Z_OK, [])"
| "z_run Z (r # rs) z =
     (case z_deflate Z z r of
        (e, d, z') \<Rightarrow> (if e = Z_OK then (case z_run Z rs z' of (e', s) \<Rightarrow> (e', d @ s)) else (e, d)))"

text \<open>
  A call writes at most the room it is given and makes progress if it asks to be called again;
  the output is bounded (\<open>deflateBound\<close>); and inflating the output of a run that reached the end
  of the stream gives the input back.
\<close>

definition zlib_ok :: "'z zlib \<Rightarrow> bool" where
  "zlib_ok Z \<longleftrightarrow>
     (\<forall>z n. length (fst (snd (z_deflate Z z n))) \<le> n
        \<and> (fst (z_deflate Z z n) = Z_OK \<longrightarrow> fst (snd (z_deflate Z z n)) \<noteq> []))
     \<and> (\<forall>inp rs. length (snd (z_run Z rs (z_start Z inp))) \<le> z_bound Z (length inp))
     \<and> (\<forall>s n. length (snd (z_inflate Z s n)) \<le> n)
     \<and> (\<forall>inp rs s n. z_run Z rs (z_start Z inp) = (Z_STREAM_END, s) \<longrightarrow> length inp \<le> n \<longrightarrow>
          z_inflate Z s n = (Z_STREAM_END, inp))"

section \<open>Code\<close>

definition Z_MIN_SPACE :: nat where "Z_MIN_SPACE = 6"

text \<open>An \<open>uInt\<close> of zlib has 32 bits.\<close>

definition u_int :: "nat \<Rightarrow> nat" where "u_int n = n mod 2 ^ 32"

text \<open>
  The loop of \<open>tnt_compress\<close>: \<open>k\<close> bounds the number of calls. The block grows while the output does
  not fit. The result is that of the last call, the block unless it could not grow, and \<open>total_out\<close>.
\<close>

fun deflate_loop ::
    "'z zlib \<Rightarrow> nat \<Rightarrow> nat \<Rightarrow> 'z \<Rightarrow> bytes \<Rightarrow> nat \<Rightarrow> nat \<Rightarrow> libc \<Rightarrow> (int \<times> bytes option \<times> nat \<times> libc) option" where
  "deflate_loop Z 0 in_size z out total_out avail L = None"
| "deflate_loop Z (Suc k) in_size z out total_out avail L =
     (case z_deflate Z z avail of
        (error, d, z) \<Rightarrow>
          do { out \<leftarrow> mem_write out total_out d;
               let total_out = total_out + length d;
               if error \<noteq> Z_OK then Some (error, Some out, total_out, L)
               else
                 case c_realloc out (total_out + (if in_size div 2 < Z_MIN_SPACE then Z_MIN_SPACE else in_size div 2)) L of
                   (None, L) \<Rightarrow> Some (error, None, total_out, L)
                 | (Some out, L) \<Rightarrow>
                     deflate_loop Z k in_size z out total_out
                       (u_int (if in_size div 2 < Z_MIN_SPACE then in_size div 2 else Z_MIN_SPACE)) L })"

text \<open>The block returned, and what is stored in \<open>*out_size\<close>.\<close>

definition tnt_compress :: "'z zlib \<Rightarrow> nat \<Rightarrow> bytes \<Rightarrow> size_t \<Rightarrow> libc \<Rightarrow> (bytes option \<times> nat \<times> libc) option" where
  "tnt_compress Z k inp in_size L =
     (let n = unat in_size; space = (if n < Z_MIN_SPACE then Z_MIN_SPACE else n) in
      case c_malloc space L of
        (None, L) \<Rightarrow> Some (None, 0, L)
      | (Some out, L) \<Rightarrow>
          (if \<not> z_deflate_init Z then Some (None, 0, L)
           else
             do { inp \<leftarrow> mem_read inp 0 (u_int n);
                  (error, out, total_out, L) \<leftarrow> deflate_loop Z k n (z_start Z inp) out 0 (u_int space) L;
                  if out = None \<or> error \<noteq> Z_STREAM_END then Some (None, 0, L) else Some (out, total_out, L) }))"

definition tnt_uncompress :: "'z zlib \<Rightarrow> bytes \<Rightarrow> size_t \<Rightarrow> size_t \<Rightarrow> libc \<Rightarrow> (bytes option \<times> libc) option" where
  "tnt_uncompress Z inp in_size original_len L =
     (case c_malloc (unat original_len) L of
        (None, L) \<Rightarrow> Some (None, L)
      | (Some out, L) \<Rightarrow>
          (if \<not> z_inflate_init Z then Some (None, L)
           else
             do { inp \<leftarrow> mem_read inp 0 (u_int (unat in_size));
                  let (ret, d) = z_inflate Z inp (u_int (unat original_len));
                  out \<leftarrow> mem_write out 0 d;
                  Some (if ret \<noteq> Z_STREAM_END then None else Some out, L) }))"

definition htonl :: "u32 \<Rightarrow> u32" where "htonl w = of_le32 (rev (le32 w))"
definition ntohl :: "u32 \<Rightarrow> u32" where "ntohl w = of_le32 (rev (le32 w))"

definition tnt_compress_sized :: "'z zlib \<Rightarrow> nat \<Rightarrow> bytes \<Rightarrow> int \<Rightarrow> libc \<Rightarrow> (bytes option \<times> nat \<times> libc) option" where
  "tnt_compress_sized Z k data sz L =
     do { (c, n, L) \<leftarrow> tnt_compress Z k data (word_of_int sz) L;
          case c of
            None \<Rightarrow> Some (None, n, L)
          | Some c \<Rightarrow>
              (case c_realloc c (n + 4) L of
                 (None, L) \<Rightarrow> Some (None, n, L)
               | (Some c, L) \<Rightarrow>
                   do { c \<leftarrow> mem_write c n (le32 (htonl (word_of_int sz))); Some (Some c, n + 4, L) }) }"

text \<open>
  The position of the length is narrowed to an \<open>int\<close>; a position before the block is undefined.
  The length is taken from the packet and widened as a signed number.
\<close>

definition tnt_uncompress_sized :: "'z zlib \<Rightarrow> bytes \<Rightarrow> size_t \<Rightarrow> libc \<Rightarrow> (bytes option \<times> size_t \<times> libc) option" where
  "tnt_uncompress_sized Z c sz L =
     (let index = sint (ucast (sz - 4) :: u32) in
      if index < 0 then None
      else
        do { d \<leftarrow> mem_read c (nat index) 4;
             let host_size = (word_of_int (sint (ntohl (of_le32 d))) :: size_t);
             (out, L) \<leftarrow> tnt_uncompress Z c (word_of_int index) host_size L;
             Some (out, host_size, L) })"

section \<open>The loop\<close>

lemma mem_write_take:
  "mem_write out t d = Some out' \<Longrightarrow> t \<le> length out \<Longrightarrow> length out' = length out \<and> take (t + length d) out' = take t out @ d"
  by (auto simp: mem_write_def split: if_splits)

lemma deflate_loop_ok:
  assumes Z: "zlib_ok Z" and "total_out + avail \<le> length out" and "\<forall>rs. length (snd (z_run Z rs z)) < k"
  shows "\<exists>e ob tot L'. deflate_loop Z k n z out total_out avail L = Some (e, ob, tot, L')
    \<and> (\<forall>out'. ob = Some out' \<longrightarrow> (\<exists>rs s. z_run Z rs z = (e, s) \<and> tot = total_out + length s
          \<and> take tot out' = take total_out out @ s \<and> tot \<le> length out'))"
  using assms(2,3)
proof (induction k arbitrary: z out total_out avail L)
  case (Suc k)
  obtain e d z' where d: "z_deflate Z z avail = (e, d, z')" by (metis prod_cases3)
  have le: "length d \<le> avail" and pr: "e = Z_OK \<Longrightarrow> d \<noteq> []"
    using Z d unfolding zlib_ok_def by (metis fst_conv snd_conv)+
  obtain out1 where o1: "mem_write out total_out d = Some out1" using le Suc.prems(1) by (simp add: mem_write_def)
  have t1: "length out1 = length out" "take (total_out + length d) out1 = take total_out out @ d"
    using mem_write_take [OF o1] Suc.prems(1) by simp_all
  show ?case
  proof (cases "e = Z_OK")
    case False
    then have "z_run Z [avail] z = (e, d)" by (simp add: d)
    with False d o1 t1 le Suc.prems(1) show ?thesis by (intro exI [of _ e] exI [of _ "Some out1"]) (auto intro!: exI [of _ "[avail]"])
  next
    case True
    let ?h = "n div 2" and ?t = "total_out + length d"
    let ?m = "if ?h < Z_MIN_SPACE then Z_MIN_SPACE else ?h" and ?a = "u_int (if ?h < Z_MIN_SPACE then ?h else Z_MIN_SPACE)"
    obtain ob L1 where r: "c_realloc out1 (?t + ?m) L = (ob, L1)" by (metis surj_pair)
    show ?thesis
    proof (cases ob)
      case None
      with True d o1 r show ?thesis by (simp add: Let_def)
    next
      case (Some out2)
      have o2: "length out2 = ?t + ?m" "take ?t out2 = take total_out out @ d"
      proof -
        note b = c_realloc_block [OF r [unfolded Some]]
        then show "length out2 = ?t + ?m" by simp
        have "?t \<le> length out1" using t1(1) le Suc.prems(1) by simp
        with b have "take ?t (take (min (?t + ?m) (length out1)) out2) = take ?t (take (?t + ?m) out1)" by simp
        then show "take ?t out2 = take total_out out @ d" using \<open>?t \<le> length out1\<close> t1(2) by (simp add: min_def split: if_splits)
      qed
      have "?a \<le> ?m" by (auto simp: u_int_def intro: order.trans [OF mod_less_eq_dividend])
      then have room: "?t + ?a \<le> length out2" using o2(1) by simp
      have "length (snd (z_run Z rs z')) < k" for rs
        using Suc.prems(2) [rule_format, of "avail # rs"] d True pr [OF True] by (cases d) (auto split: prod.splits)
      with Suc.IH [OF room] obtain e' ob' tot L' where
        IH: "deflate_loop Z k n z' out2 ?t ?a L1 = Some (e', ob', tot, L')"
          "\<forall>out'. ob' = Some out' \<longrightarrow> (\<exists>rs s. z_run Z rs z' = (e', s) \<and> tot = ?t + length s \<and> take tot out' = take ?t out2 @ s \<and> tot \<le> length out')"
        by blast
      have run: "z_run Z (avail # rs) z = (e', d @ s)" if "z_run Z rs z' = (e', s)" for rs s using that d True by simp
      have "deflate_loop Z (Suc k) n z out total_out avail L = Some (e', ob', tot, L')"
        using True d o1 r Some IH(1) by (simp add: Let_def)
      moreover have "\<exists>rs s. z_run Z rs z = (e', s) \<and> tot = total_out + length s \<and> take tot out' = take total_out out @ s \<and> tot \<le> length out'"
        if "ob' = Some out'" for out'
      proof -
        obtain rs s where "z_run Z rs z' = (e', s)" "tot = ?t + length s" "take tot out' = take ?t out2 @ s" "tot \<le> length out'"
          using IH(2) \<open>ob' = Some out'\<close> by blast
        with run o2(2) show ?thesis by (intro exI [of _ "avail # rs"] exI [of _ "d @ s"]) simp
      qed
      ultimately show ?thesis by blast
    qed
  qed
qed simp

section \<open>Round trip\<close>

lemma le32_of_le32: "length bs = 4 \<Longrightarrow> le32 (of_le32 bs) = bs"
proof -
  assume "length bs = 4"
  then obtain a b c d where bs: "bs = [a, b, c, d]" by (auto simp: numeral_eq_Suc length_Suc_conv)
  have "ucast (of_le32 bs) = a" "ucast (drop_bit 8 (of_le32 bs)) = b" "ucast (drop_bit 16 (of_le32 bs)) = c" "ucast (drop_bit 24 (of_le32 bs)) = d"
    by (rule bit_eqI; auto simp: bs of_le32_def bit_simps dest: bit_imp_le_length)+
  then show ?thesis by (simp add: bs le32_def)
qed

lemma ntohl_htonl [simp]: "ntohl (htonl w) = w"
  by (simp add: ntohl_def htonl_def le32_of_le32)

lemma tnt_compress_ok:
  assumes Z: "zlib_ok Z" and n: "unat n = length inp" "length inp < 2 ^ 32" and k: "z_bound Z (length inp) < k"
  shows "\<exists>r m L'. tnt_compress Z k inp n L = Some (r, m, L')
    \<and> (\<forall>c. r = Some c \<longrightarrow> m \<le> length c \<and> (\<exists>rs. z_run Z rs (z_start Z inp) = (Z_STREAM_END, take m c)))"
proof -
  let ?sp = "if length inp < Z_MIN_SPACE then Z_MIN_SPACE else length inp"
  obtain b L1 where m: "c_malloc ?sp L = (b, L1)" by (metis surj_pair)
  show ?thesis
  proof (cases "b = None \<or> \<not> z_deflate_init Z")
    case True
    with m n show ?thesis by (cases b) (auto simp: tnt_compress_def Let_def)
  next
    case False
    then obtain out where b: "b = Some out" by auto
    have "0 + u_int ?sp \<le> length out"
      using c_malloc_length [OF m [unfolded b]] by (simp add: u_int_def)
    moreover have "\<forall>rs. length (snd (z_run Z rs (z_start Z inp))) < k"
      using Z k unfolding zlib_ok_def by (meson le_less_trans)
    ultimately obtain e ob tot L' where
      l: "deflate_loop Z k (length inp) (z_start Z inp) out 0 (u_int ?sp) L1 = Some (e, ob, tot, L')"
      and o: "\<forall>out'. ob = Some out' \<longrightarrow> (\<exists>rs s. z_run Z rs (z_start Z inp) = (e, s) \<and> tot = 0 + length s
          \<and> take tot out' = take 0 out @ s \<and> tot \<le> length out')"
      using deflate_loop_ok [OF Z, of 0 "u_int ?sp" out "z_start Z inp" k "length inp" L1] by blast
    have u: "mem_read inp 0 (u_int (length inp)) = Some inp" using n(2) by (simp add: mem_read_def u_int_def)
    have c: "tnt_compress Z k inp n L = Some (if ob = None \<or> e \<noteq> Z_STREAM_END then (None, 0, L') else (ob, tot, L'))"
      using m b False n(1) u l by (simp add: tnt_compress_def Let_def)
    show ?thesis
    proof (cases "ob = None \<or> e \<noteq> Z_STREAM_END")
      case False
      with o c show ?thesis by auto
    qed (use c in auto)
  qed
qed

lemma sint_small: "n < 2 ^ 31 \<Longrightarrow> sint (word_of_nat n :: u32) = int n"
  using sint_sbintrunc' [of "int n", where ?'a = 32] by (simp add: signed_take_bit_int_eq_self)

lemma scast_small: "n < 2 ^ 31 \<Longrightarrow> (scast (word_of_nat n :: u32) :: size_t) = word_of_nat n"
  using arg_cong [OF sint_small, of n "word_of_int :: int \<Rightarrow> size_t"] by simp

lemma ucast_small: "(ucast (word_of_nat n :: size_t) :: u32) = word_of_nat n"
  by (rule bit_eqI) (simp add: bit_simps)

lemma unsized:
  assumes Z: "zlib_ok Z" "z_inflate_init Z" and al: "l_alloc_ok L (l_allocs L) (length data)" and len: "length data < 2 ^ 31"
    and c: "length c = n + 4" "drop n c = le32 (htonl (word_of_nat (length data)))" "n + 4 < 2 ^ 31"
    and run: "z_run Z rs (z_start Z data) = (Z_STREAM_END, take n c)"
  shows "\<exists>L'. tnt_uncompress_sized Z c (word_of_nat (n + 4)) L = Some (Some data, word_of_nat (length data), L')"
proof -
  have i: "sint (ucast (word_of_nat (n + 4) - 4 :: size_t) :: u32) = int n"
    using c(3) by (simp add: ucast_small sint_small)
  have u: "unat (word_of_nat n :: size_t) = n" "unat (word_of_nat (length data) :: size_t) = length data"
    using c(3) len by (simp_all add: unat_of_nat)
  have r: "mem_read c n 4 = Some (le32 (htonl (word_of_nat (length data))))" using c(1,2) by (simp add: mem_read_def)
  obtain b L1 where m: "c_malloc (length data) L = (Some b, L1)" "length b = length data"
    using al by (simp add: c_malloc_def)
  have f: "z_inflate Z (take n c) (length data) = (Z_STREAM_END, data)"
    using Z(1) run unfolding zlib_ok_def by blast
  have "tnt_uncompress Z c (word_of_nat n) (word_of_nat (length data)) L = Some (Some data, L1)"
    using m Z(2) f c len by (simp add: tnt_uncompress_def u u_int_def mem_read_def mem_write_def)
  with i r len show ?thesis
    by (simp add: tnt_uncompress_sized_def scast_small Let_def del: of_nat_add)
qed

text \<open>
  Claim C20. Compression is safe and can be undone. For every packet of less than 2 GiB the call
  returns, with as many calls of \<open>deflate\<close> as the bound of the output plus one, and never writes
  outside its block, although the block is grown by one amount and the room given to zlib
  computed from another. If it returns a packet, uncompressing that packet returns the original
  and its length, provided there is memory for it.
\<close>

theorem compress_roundtrip:
  assumes "zlib_ok Z" and "z_inflate_init Z" and "length data < 2 ^ 31" and "z_bound Z (length data) < k"
  shows "\<exists>r n L'. tnt_compress_sized Z k data (int (length data)) L = Some (r, n, L')
    \<and> (\<forall>c L2. r = Some c \<and> n < 2 ^ 31 \<and> l_alloc_ok L2 (l_allocs L2) (length data) \<longrightarrow>
         (\<exists>L3. tnt_uncompress_sized Z c (word_of_nat n) L2 = Some (Some data, word_of_nat (length data), L3)))"
proof -
  have u: "unat (word_of_nat (length data) :: size_t) = length data" using assms(3) by (simp add: unat_of_nat)
  obtain r m L1 where t: "tnt_compress Z k data (word_of_nat (length data)) L = Some (r, m, L1)"
    "\<forall>c. r = Some c \<longrightarrow> m \<le> length c \<and> (\<exists>rs. z_run Z rs (z_start Z data) = (Z_STREAM_END, take m c))"
    using tnt_compress_ok [OF assms(1) u _ assms(4)] assms(3) by fastforce
  show ?thesis
  proof (cases r)
    case None
    with t(1) show ?thesis by (simp add: tnt_compress_sized_def)
  next
    case (Some c)
    then obtain rs where c: "m \<le> length c" "z_run Z rs (z_start Z data) = (Z_STREAM_END, take m c)" using t(2) by blast
    obtain ob L2 where o: "c_realloc c (m + 4) L1 = (ob, L2)" by (metis surj_pair)
    show ?thesis
    proof (cases ob)
      case None
      with t(1) Some o show ?thesis by (simp add: tnt_compress_sized_def)
    next
      case o': (Some c1)
      note b = c_realloc_block [OF o [unfolded o']]
      let ?t = "le32 (htonl (word_of_nat (length data)))"
      have tk: "take m c1 = take m c"
        using arg_cong [OF b [THEN conjunct2], of "take m"] c(1) by (simp add: min_def split: if_splits)
      have len: "length (take m c1 @ ?t) = m + 4" "drop m (take m c1 @ ?t) = ?t" using b by simp_all
      have e: "tnt_compress_sized Z k data (int (length data)) L = Some (Some (take m c1 @ ?t), m + 4, L2)"
        using t(1) Some o o' b by (simp add: tnt_compress_sized_def mem_write_def)
      have "take m (take m c1 @ ?t) = take m c" using tk b c(1) by simp
      with unsized [OF assms(1,2) _ assms(3) len] c(2) e show ?thesis by (auto simp del: of_nat_add)
    qed
  qed
qed

section \<open>A concrete instance\<close>

text \<open>A library that stores the input as it is, in as many pieces as the rooms ask for.\<close>

definition demo_zlib :: "bytes zlib" where
  "demo_zlib = \<lparr>z_deflate_init = True, z_start = (\<lambda>i. i),
     z_deflate = (\<lambda>z n. if length z \<le> n then (Z_STREAM_END, z, []) else if n = 0 then (-5, [], z) else (Z_OK, take n z, drop n z)),
     z_inflate_init = True, z_inflate = (\<lambda>s n. if length s \<le> n then (Z_STREAM_END, s) else (-5, take n s)), z_bound = (\<lambda>n. n)\<rparr>"

lemma demo_run: "z_run demo_zlib rs z = (e, s) \<Longrightarrow> length s \<le> length z \<and> (e = Z_STREAM_END \<longrightarrow> s = z)"
proof (induction rs arbitrary: z e s)
  case (Cons r rs)
  show ?case
  proof (cases "length z \<le> r \<or> r = 0")
    case True
    with Cons.prems show ?thesis by (auto simp: demo_zlib_def Z_OK_def Z_STREAM_END_def split: if_splits)
  next
    case False
    then have d: "z_deflate demo_zlib z r = (Z_OK, take r z, drop r z)" by (simp add: demo_zlib_def)
    obtain e' s' where r: "z_run demo_zlib rs (drop r z) = (e', s')" by (metis surj_pair)
    with Cons.prems d have "e = e'" "s = take r z @ s'" by simp_all
    with Cons.IH [OF r] False show ?thesis by auto
  qed
qed (simp add: Z_OK_def Z_STREAM_END_def)

lemma demo_zlib_ok: "zlib_ok demo_zlib"
proof -
  have s: "z_start demo_zlib = (\<lambda>i. i)" "z_bound demo_zlib = (\<lambda>n. n)" by (simp_all add: demo_zlib_def)
  have "length (snd (z_run demo_zlib rs inp)) \<le> length inp" for rs inp
    using demo_run [of rs inp] by (metis surj_pair snd_conv)
  moreover have "z_inflate demo_zlib s n = (Z_STREAM_END, inp)" if "z_run demo_zlib rs inp = (Z_STREAM_END, s)" "length inp \<le> n" for rs inp s n
    using demo_run [OF that(1)] that(2) by (simp add: demo_zlib_def)
  ultimately show ?thesis
    by (simp add: zlib_ok_def s) (auto simp: demo_zlib_def Z_OK_def Z_STREAM_END_def)
qed

theorem compress_roundtrip_witness:
  "\<exists>r n L'. tnt_compress_sized demo_zlib 4 [7, 8, 9] (int (length [7, 8, 9 :: byte])) demo_libc = Some (r, n, L')
    \<and> (\<forall>c. r = Some c \<and> n < 2 ^ 31 \<longrightarrow> (\<exists>L3. tnt_uncompress_sized demo_zlib c (word_of_nat n) demo_libc = Some (Some [7, 8, 9], word_of_nat (length [7, 8, 9 :: byte]), L3)))"
proof -
  have a: "z_inflate_init demo_zlib" "length [7, 8, 9 :: byte] < 2 ^ 31" "z_bound demo_zlib (length [7, 8, 9 :: byte]) < 4"
    "l_alloc_ok demo_libc (l_allocs demo_libc) (length [7, 8, 9 :: byte])"
    by (simp_all add: demo_zlib_def demo_libc_def)
  from compress_roundtrip [OF demo_zlib_ok a(1-3), of demo_libc] a(4) show ?thesis by blast
qed

end
