(* ===== verification/Pipe.thy ===== *)
theory Pipe
  imports Device Dispatch
begin

text \<open>
  The pipe of the Windows port (\<open>sys/wnt/main.c\<close>): the thread that owns the tap device and the
  thread of the server exchange frames over a pair of sockets, each frame with its size before it.
  The stream may be cut anywhere; the device thread copes with that, the server does not.
\<close>

section \<open>The device thread\<close>

definition sizeof_OVERLAPPED :: nat where "sizeof_OVERLAPPED = 32"

text \<open>
  \<open>handle_frames\<close>: what is sent for a packet read from the device. The size is narrowed to a
  \<open>short\<close>; a negative one makes the copy huge, which is undefined.
\<close>

definition handle_frames :: "bytes \<Rightarrow> nat \<Rightarrow> libc \<Rightarrow> (bytes \<times> libc) option" where
  "handle_frames frame sz L =
     (let frame_size = sint (word_of_nat sz :: u16) in
      case c_malloc (sz + 2) L of
        (None, L) \<Rightarrow> Some ([], L)
      | (Some packet, L) \<Rightarrow>
          (if frame_size < 0 then None
           else
             do { packet \<leftarrow> mem_write packet 0 (le16 (word_of_nat sz));
                  d \<leftarrow> mem_read frame 0 (nat frame_size);
                  packet \<leftarrow> mem_write packet 2 d;
                  p \<leftarrow> mem_read packet 0 (nat frame_size + 2);
                  Some (p, L) }))"

text \<open>
  \<open>pipe_read\<close>: the frames written to the device and what stays in the buffer. A \<open>short\<close> is compared
  with a \<open>size_t\<close>, so a negative size is larger than every length.
\<close>

function pipe_read :: "bytes \<Rightarrow> libc \<Rightarrow> bytes list \<times> bytes \<times> libc" where
  "pipe_read evb L =
     (if evb = [] then ([], evb, L)
      else
        case c_malloc sizeof_OVERLAPPED L of
          (None, L) \<Rightarrow> ([], evb, L)
        | (Some _, L) \<Rightarrow>
            (if length evb < 2 then ([], evb, L)
             else
               let frame_size = sint (of_le16 evb) in
               if frame_size < 0 \<or> frame_size > int (length evb) - 2 then ([], evb, L)
               else
                 let n = nat frame_size; (ws, r, L) = pipe_read (drop n (drop 2 evb)) L
                 in (take n (drop 2 evb) # ws, r, L)))"
  by pat_completeness auto
termination by (relation "measure (\<lambda>(evb, L). length evb)") auto

declare pipe_read.simps [simp del]

text \<open>
  \<open>IOCPFunc\<close>: the operations that have ended are entries with the key of their handle and the
  number of bytes transferred. \<open>q_dev_reads\<close> and \<open>q_pipe_reads\<close> count the reads started. The loop ends
  when there is no memory for one.
\<close>

definition DEVICE_KEY :: nat where "DEVICE_KEY = 0xDEADDEAD"
definition PIPE_KEY :: nat where "PIPE_KEY = 0xDEADBEAF"

record iocp =
  q_evb :: bytes
  q_need_dev :: bool
  q_need_pipe :: bool
  q_dev_reads :: nat
  q_pipe_reads :: nat
  q_sent :: bytes
  q_written :: "bytes list"
  q_libc :: libc

definition iocp_entry_done :: "bytes \<Rightarrow> bytes \<Rightarrow> nat \<times> nat \<Rightarrow> iocp \<Rightarrow> iocp option" where
  "iocp_entry_done device_buf pipe_buf entry Q =
     (let (key, sz) = entry in
      if key = DEVICE_KEY then
        do { (d, L) \<leftarrow> handle_frames device_buf sz (q_libc Q);
             Some (Q\<lparr>q_sent := q_sent Q @ d, q_need_dev := True, q_libc := L\<rparr>) }
      else if key = PIPE_KEY then
        do { d \<leftarrow> mem_read pipe_buf 0 sz;
             let (ws, r, L) = pipe_read (q_evb Q @ d) (q_libc Q);
             Some (Q\<lparr>q_evb := r, q_written := q_written Q @ ws, q_need_pipe := True, q_libc := L\<rparr>) }
      else Some Q)"

fun iocp_entries :: "bytes \<Rightarrow> bytes \<Rightarrow> (nat \<times> nat) list \<Rightarrow> iocp \<Rightarrow> iocp option" where
  "iocp_entries device_buf pipe_buf [] Q = Some Q"
| "iocp_entries device_buf pipe_buf (x # xs) Q =
     do { Q \<leftarrow> iocp_entry_done device_buf pipe_buf x Q; iocp_entries device_buf pipe_buf xs Q }"

definition request_dev :: "iocp \<Rightarrow> iocp option" where
  "request_dev Q =
     (if q_need_dev Q
      then (case c_malloc sizeof_OVERLAPPED (q_libc Q) of
              (None, _) \<Rightarrow> None
            | (Some _, L) \<Rightarrow> Some (Q\<lparr>q_need_dev := False, q_dev_reads := Suc (q_dev_reads Q), q_libc := L\<rparr>))
      else Some Q)"

definition request_pipe :: "iocp \<Rightarrow> iocp option" where
  "request_pipe Q =
     (if q_need_pipe Q
      then (case c_malloc sizeof_OVERLAPPED (q_libc Q) of
              (None, _) \<Rightarrow> None
            | (Some _, L) \<Rightarrow> Some (Q\<lparr>q_need_pipe := False, q_pipe_reads := Suc (q_pipe_reads Q), q_libc := L\<rparr>))
      else Some Q)"

text \<open>
  The rounds of the loop: what is in the two buffers when the wait ends, and the entries (none if
  it fails). \<open>Inl\<close>: the thread has returned.
\<close>

fun IOCPFunc :: "(bytes \<times> bytes \<times> (nat \<times> nat) list) list \<Rightarrow> iocp \<Rightarrow> (iocp + iocp) option" where
  "IOCPFunc [] Q = Some (Inr Q)"
| "IOCPFunc ((device_buf, pipe_buf, xs) # rounds) Q =
     (case Option.bind (request_dev Q) request_pipe of
        None \<Rightarrow> Some (Inl Q)
      | Some Q \<Rightarrow> do { Q \<leftarrow> iocp_entries device_buf pipe_buf xs Q; IOCPFunc rounds Q })"

definition iocp_start :: "libc \<Rightarrow> iocp" where
  "iocp_start L =
     \<lparr>q_evb = [], q_need_dev = True, q_need_pipe = True, q_dev_reads = 0, q_pipe_reads = 0, q_sent = [],
      q_written = [], q_libc = L\<rparr>"

section \<open>The server\<close>

text \<open>
  \<open>pipe_read_cb\<close>. With one byte in the buffer \<open>evbuffer_pullup\<close> returns NULL, which is dereferenced.
  The check of the length forgets the two bytes of the size. \<open>*size_ptr\<close> is read again after the
  buffer was drained: \<open>stale\<close> is what is found there, if the memory is still there.
\<close>

function pipe_cb_loop ::
    "'e uenv_scheme \<Rightarrow> (bytes \<Rightarrow> u16 option) \<Rightarrow> bytes \<Rightarrow> frame \<Rightarrow> 'w uworld_scheme \<Rightarrow> (bytes \<times> 'w uworld_scheme) option" where
  "pipe_cb_loop E stale inp tmp w =
     (if inp = [] then Some (inp, w)
      else if length inp < 2 then None
      else
        let frame_size = sint (of_le16 inp); n = nat frame_size; rest = drop 2 inp in
        if frame_size < 0 \<or> frame_size > int (length inp) then Some (inp, w)
        else
          do { sz \<leftarrow> stale inp;
               let (_, tmp, w) = frame_alloc E tmp (scast sz) w;
               w \<leftarrow> (if length rest < n then None else b_store (f_frame tmp) (take n rest) w);
               let tmp = tmp\<lparr>f_size := word_of_nat n\<rparr>;
               pipe_cb_loop E stale (drop n rest) tmp (push_frame E tmp w) })"
  by pat_completeness auto
termination by (relation "measure (\<lambda>(E, stale, inp, tmp, w). length inp)") auto

declare pipe_cb_loop.simps [simp del]

definition pipe_read_cb :: "'e uenv_scheme \<Rightarrow> (bytes \<Rightarrow> u16 option) \<Rightarrow> bytes \<Rightarrow> 'w uworld_scheme \<Rightarrow> (bytes \<times> 'w uworld_scheme) option" where
  "pipe_read_cb E stale inp w =
     do { (inp, w) \<leftarrow> pipe_cb_loop E stale inp \<lparr>f_size = 0, f_frame = Vint 1, f_raw = Vint 1\<rparr> w;
          w \<leftarrow> broadcast_udp_to_peers E w;
          Some (inp, w) }"

section \<open>The format\<close>

definition pipe_enc :: "bytes \<Rightarrow> bytes" where
  "pipe_enc p = le16 (word_of_nat (length p)) @ p"

definition pipe_wf :: "bytes \<Rightarrow> bool" where
  "pipe_wf p \<longleftrightarrow> length p < 2 ^ 15"

definition pipe_next :: "bytes \<Rightarrow> bytes frame_res" where
  "pipe_next bs =
     (if length bs < 2 then More
      else
        let n = sint (of_le16 bs) in
        if n < 0 \<or> n > int (length bs) - 2 then More else Frame (take (nat n) (drop 2 bs)) (drop (nat n) (drop 2 bs)))"

lemma sint_short: "n < 2 ^ 15 \<Longrightarrow> sint (word_of_nat n :: u16) = int n"
  using sint_sbintrunc' [of "int n", where ?'a = 16] by (simp add: signed_take_bit_int_eq_self)

lemma of_le16_prefix: "2 \<le> k \<Longrightarrow> of_le16 (take k (le16 x @ p)) = x"
  by (cases k) (simp_all add: take_append)

interpretation pipes: framing pipe_enc pipe_next pipe_wf
proof unfold_locales
  fix p r :: bytes and n
  assume wf: "pipe_wf p"
  then show "pipe_next (pipe_enc p @ r) = Frame p r" by (simp add: pipe_next_def pipe_enc_def pipe_wf_def sint_short Let_def)
  show "pipe_enc p \<noteq> []" by (simp add: pipe_enc_def le16_def)
  assume "n < length (pipe_enc p)"
  with wf show "pipe_next (take n (pipe_enc p)) = More"
    by (cases "n < 2") (auto simp: pipe_next_def pipe_enc_def pipe_wf_def sint_short of_le16_prefix Let_def simp del: take_append)
next
  show "pipe_next [] = More" by (simp add: pipe_next_def)
qed

text \<open>The loop of the device thread is the decoder of this format.\<close>

lemma pipe_read_decodes:
  assumes "alloc_total L"
  shows "\<exists>L'. pipe_read evb L = (fst (decode_all pipe_next evb), snd (decode_all pipe_next evb), L') \<and> alloc_total L'"
  using assms
proof (induction evb arbitrary: L rule: measure_induct_rule [of length])
  case (less evb)
  show ?case
  proof (cases "evb = []")
    case True
    with less.prems pipes.decode_all_more [OF pipes.dec_nil] show ?thesis by (subst pipe_read.simps) simp
  next
    case False
    obtain b L1 where L1: "c_malloc sizeof_OVERLAPPED L = (Some b, L1)" "alloc_total L1"
      using c_malloc_total [OF less.prems, of sizeof_OVERLAPPED] by (auto simp: sizeof_OVERLAPPED_def imsg_consts)
    show ?thesis
    proof (cases "pipe_next evb")
      case (Frame p r)
      then have f: "\<not> length evb < 2" "\<not> (sint (of_le16 evb) < 0 \<or> sint (of_le16 evb) > int (length evb) - 2)"
        "p = take (nat (sint (of_le16 evb))) (drop 2 evb)" "r = drop (nat (sint (of_le16 evb))) (drop 2 evb)"
        by (auto simp: pipe_next_def Let_def split: if_splits)
      then have sh: "length r < length evb" by (cases evb) simp_all
      from less.IH [OF sh L1(2)] obtain L' where
        "pipe_read r L1 = (fst (decode_all pipe_next r), snd (decode_all pipe_next r), L')" "alloc_total L'" by blast
      with f L1 False Frame sh show ?thesis
        by (subst pipe_read.simps, subst (1 2) decode_all.simps) (simp add: Let_def split: prod.splits)
    next
      case More
      then have "length evb < 2 \<or> sint (of_le16 evb) < 0 \<or> sint (of_le16 evb) > int (length evb) - 2"
        by (auto simp: pipe_next_def Let_def split: if_splits)
      with L1 False pipes.decode_all_more [OF More] show ?thesis
        by (subst pipe_read.simps) (auto simp: Let_def)
    next
      case Bad
      then show ?thesis by (auto simp: pipe_next_def Let_def split: if_splits)
    qed
  qed
qed


text \<open>With memory, a round starts the reads that are due.\<close>

lemma requests_ok:
  assumes "alloc_total (q_libc Q)"
  shows "\<exists>L. Option.bind (request_dev Q) request_pipe = Some (Q\<lparr>q_need_dev := False, q_need_pipe := False,
      q_dev_reads := q_dev_reads Q + of_bool (q_need_dev Q), q_pipe_reads := q_pipe_reads Q + of_bool (q_need_pipe Q), q_libc := L\<rparr>)
    \<and> alloc_total L"
proof -
  have m: "\<exists>b L'. c_malloc sizeof_OVERLAPPED L = (Some b, L') \<and> alloc_total L'" if "alloc_total L" for L
    using c_malloc_total [OF that, of sizeof_OVERLAPPED] by (simp add: sizeof_OVERLAPPED_def imsg_consts)
  obtain b L1 where L1: "c_malloc sizeof_OVERLAPPED (q_libc Q) = (Some b, L1)" "alloc_total L1" using m [OF assms] by blast
  obtain c L2 where L2: "c_malloc sizeof_OVERLAPPED L1 = (Some c, L2)" "alloc_total L2" using m [OF L1(2)] by blast
  show ?thesis
    using assms L1 L2 by (cases Q; cases "q_need_dev Q"; cases "q_need_pipe Q") (simp_all add: request_dev_def request_pipe_def)
qed

text \<open>A stream read in chunks, whatever the device buffer holds and whatever follows a chunk in the pipe buffer.\<close>

definition pipe_rounds :: "(bytes \<times> bytes \<times> bytes) list \<Rightarrow> (bytes \<times> bytes \<times> (nat \<times> nat) list) list" where
  "pipe_rounds cs = map (\<lambda>(d, c, x). (d, c @ x, [(PIPE_KEY, length c)])) cs"

lemma pipe_rounds_feed:
  assumes "alloc_total (q_libc Q)"
  shows "\<exists>Q'. IOCPFunc (pipe_rounds cs) Q = Some (Inr Q') \<and> q_written Q' = q_written Q @ fst (feed pipe_next (q_evb Q) (map (fst \<circ> snd) cs))
    \<and> q_evb Q' = snd (feed pipe_next (q_evb Q) (map (fst \<circ> snd) cs)) \<and> q_sent Q' = q_sent Q"
  using assms
proof (induction cs arbitrary: Q)
  case Nil
  then show ?case by (simp add: pipe_rounds_def)
next
  case (Cons x cs)
  obtain d c y where x: "x = (d, c, y)" by (cases x)
  from requests_ok [OF Cons.prems] obtain Q1 where Q1: "Option.bind (request_dev Q) request_pipe = Some Q1"
    "q_evb Q1 = q_evb Q" "q_written Q1 = q_written Q" "q_sent Q1 = q_sent Q" "alloc_total (q_libc Q1)"
    by force
  obtain ms r where d: "decode_all pipe_next (q_evb Q @ c) = (ms, r)" by force
  from pipe_read_decodes [OF Q1(5), of "q_evb Q @ c"] obtain L2
    where L2: "pipe_read (q_evb Q1 @ c) (q_libc Q1) = (ms, r, L2)" "alloc_total L2" using d Q1(2) by auto
  let ?Q = "Q1\<lparr>q_evb := r, q_written := q_written Q1 @ ms, q_need_pipe := True, q_libc := L2\<rparr>"
  have "iocp_entry_done d (c @ y) (PIPE_KEY, length c) Q1 = Some ?Q"
    using L2(1) by (simp add: iocp_entry_done_def DEVICE_KEY_def PIPE_KEY_def mem_read_def)
  then have "IOCPFunc (pipe_rounds (x # cs)) Q = IOCPFunc (pipe_rounds cs) ?Q"
    using Q1(1) by (simp add: pipe_rounds_def x)
  moreover have "alloc_total (q_libc ?Q)" using L2(2) by simp
  ultimately show ?case using Cons.IH [of ?Q] Q1(2-4) d by (force simp: x split: prod.splits)
qed

section \<open>From the server to the device\<close>

fun send_frames :: "'e env_scheme \<Rightarrow> int \<Rightarrow> frame list \<Rightarrow> 'w srun" where
  "send_frames E p [] w = Some w"
| "send_frames E p (f # fs) w = do { w \<leftarrow> send_buffer_to_device_thread E p f w; send_frames E p fs w }"

definition bev_outputs :: "int \<Rightarrow> history \<Rightarrow> bytes" where
  "bev_outputs p h = concat (map (\<lambda>x. case fst x of Lev (Bev_output q d) \<Rightarrow> if q = p then d else [] | _ \<Rightarrow> []) h)"

lemma bev_outputs_simps [simp]:
  "bev_outputs p [] = []" "bev_outputs p (g @ h) = bev_outputs p g @ bev_outputs p h"
  "bev_outputs p ((Lev (Bev_output p d), r) # h) = d @ bev_outputs p h"
  by (simp_all add: bev_outputs_def)

lemma payload_length: "payload w f = Some d \<Longrightarrow> length d = unat (f_size f)"
  by (auto simp: payload_def b_load_def mem_read_def split: if_splits val.splits option.splits)

lemma send_one:
  assumes "p \<in> w_bevs w" and "payload w f = Some d"
  shows "\<exists>w'. send_buffer_to_device_thread E p f w = Some w' \<and> w_bevs w' = w_bevs w \<and> w_heap w' = w_heap w
    \<and> bev_outputs p (w_log w') = bev_outputs p (w_log w) @ pipe_enc d"
proof -
  let ?w = "call0 E (Lev (Bev_output p (le16 (f_size f)))) w"
  have "w_heap ?w = w_heap w" "w_bevs ?w = w_bevs w" by (simp_all add: call0_def call_def Let_def)
  then have "b_load (f_frame f) (unat (f_size f)) ?w = Some d" using assms(2) b_load_heap [of ?w w] by (simp add: payload_def)
  moreover have "word_of_nat (length d) = f_size f" using payload_length [OF assms(2)] by simp
  ultimately show ?thesis
    using assms(1) by (simp add: send_buffer_to_device_thread_def bev_call_def pipe_enc_def call0_def call_def Let_def)
qed

lemma send_all:
  assumes "p \<in> w_bevs w" and "map (payload w) fs = map Some ds"
  shows "\<exists>w'. send_frames E p fs w = Some w' \<and> bev_outputs p (w_log w') = bev_outputs p (w_log w) @ concat (map pipe_enc ds)"
  using assms
proof (induction fs arbitrary: ds w)
  case (Cons f fs)
  then obtain d ds' where ds: "ds = d # ds'" "payload w f = Some d" "map (payload w) fs = map Some ds'" by (cases ds) auto
  from send_one [OF Cons.prems(1) ds(2)] obtain w1 where w1: "send_buffer_to_device_thread E p f w = Some w1" "w_bevs w1 = w_bevs w"
    "w_heap w1 = w_heap w" "bev_outputs p (w_log w1) = bev_outputs p (w_log w) @ pipe_enc d" by blast
  have "payload w1 = payload w" using b_load_heap [OF w1(3)] by (auto simp: payload_def)
  then have "map (payload w1) fs = map Some ds'" using ds(3) by simp
  from Cons.IH [OF _ this] w1 Cons.prems(1) ds(1) show ?case by auto
qed simp



lemma demo_libc_total [simp]: "alloc_total demo_libc"
  by (simp add: demo_libc_def alloc_total_def imsg_consts)

definition demo_tunframe :: frame where
  "demo_tunframe = \<lparr>f_size = 3, f_frame = Vptr 4 2, f_raw = Vptr 4 0\<rparr>"


section \<open>A completed write\<close>

lemma handle_frames_sends:
  assumes "alloc_total L" and "n \<le> length buf" and "n \<le> 2048"
  shows "\<exists>L'. handle_frames buf n L = Some (pipe_enc (take n buf), L') \<and> alloc_total L'"
proof -
  obtain b L' where m: "c_malloc (n + 2) L = (Some b, L')" "alloc_total L'"
    using c_malloc_total [OF assms(1), of "n + 2"] assms(3) by (auto simp: imsg_consts)
  have l: "length b = n + 2" using m(1) by (auto simp: c_malloc_def split: if_splits)
  have "sint (word_of_nat n :: u16) = int n" using assms(3) by (intro sint_short) simp
  then show ?thesis
    using m l assms(2) by (simp add: handle_frames_def mem_write_def mem_read_def pipe_enc_def min_def)
qed

text \<open>
  Claim C28. An error of the device thread: a write to the device that has ended is queued with the key of
  the device, and the thread takes it for a read. A frame \<open>d\<close> of the pipe is written to the
  device, and when that write has ended the thread sends to the server, as a packet of the device,
  as many bytes of its own read buffer as it has just written; no read has ended. A second read
  into the same buffer is then started in the next round.
\<close>

theorem write_taken_for_read:
  assumes "alloc_total L" and "length buf = 2048" and "length d \<le> 2046"
  shows "\<exists>Q. IOCPFunc [(buf, pipe_enc d, [(PIPE_KEY, length (pipe_enc d))]), (buf, [], [(DEVICE_KEY, length d)]), (buf, [], [])] (iocp_start L)
      = Some (Inr Q)
    \<and> q_written Q = [d] \<and> q_sent Q = pipe_enc (take (length d) buf) \<and> q_dev_reads Q = 2"
proof -
  let ?Q = "iocp_start L"
  from requests_ok [of ?Q] obtain L1 where Q1: "Option.bind (request_dev ?Q) request_pipe =
      Some (?Q\<lparr>q_need_dev := False, q_need_pipe := False, q_dev_reads := 1, q_pipe_reads := 1, q_libc := L1\<rparr>)" "alloc_total L1"
    using assms(1) by (auto simp: iocp_start_def)
  have "pipe_wf d" using assms(3) by (simp add: pipe_wf_def)
  then have "decode_all pipe_next (pipe_enc d) = ([d], [])"
    using pipes.decode_all_step [of d "[]"] pipes.decode_all_more [OF pipes.dec_nil] by simp
  with pipe_read_decodes [OF Q1(2), of "pipe_enc d"] obtain L2 where L2: "pipe_read (pipe_enc d) L1 = ([d], [], L2)" "alloc_total L2" by auto
  define Q2 where "Q2 = \<lparr>q_evb = [], q_need_dev = False, q_need_pipe = True, q_dev_reads = 1, q_pipe_reads = 1, q_sent = [],
      q_written = [d], q_libc = L2\<rparr>"
  have 1: "IOCPFunc ((buf, pipe_enc d, [(PIPE_KEY, length (pipe_enc d))]) # r) ?Q = IOCPFunc r Q2" for r
    using Q1(1) L2(1) by (simp add: iocp_entry_done_def DEVICE_KEY_def PIPE_KEY_def mem_read_def iocp_start_def Q2_def)
  from requests_ok [of Q2] obtain L3 where Q3: "Option.bind (request_dev Q2) request_pipe =
      Some (Q2\<lparr>q_need_dev := False, q_need_pipe := False, q_dev_reads := 1, q_pipe_reads := 2, q_libc := L3\<rparr>)" "alloc_total L3"
    using L2(2) by (auto simp: Q2_def)
  from handle_frames_sends [OF Q3(2), of "length d" buf] assms(2,3) obtain L4
    where L4: "handle_frames buf (length d) L3 = Some (pipe_enc (take (length d) buf), L4)" "alloc_total L4" by auto
  define Q4 where "Q4 = Q2\<lparr>q_need_dev := True, q_need_pipe := False, q_pipe_reads := 2, q_sent := pipe_enc (take (length d) buf), q_libc := L4\<rparr>"
  have 2: "IOCPFunc ((buf, [], [(DEVICE_KEY, length d)]) # r) Q2 = IOCPFunc r Q4" for r
    using Q3(1) L4(1) by (simp add: iocp_entry_done_def Q2_def Q4_def)
  show ?thesis unfolding 1 2 using requests_ok [of Q4] L4(2) by (auto simp: Q4_def Q2_def)
qed


theorem write_taken_for_read_witness:
  "\<exists>Q. IOCPFunc [(replicate 2048 7, pipe_enc [1, 2], [(PIPE_KEY, length (pipe_enc [1, 2]))]), (replicate 2048 7, [], [(DEVICE_KEY, length [1 :: byte, 2])]),
      (replicate 2048 7, [], [])] (iocp_start demo_libc) = Some (Inr Q)
    \<and> q_written Q = [[1, 2]] \<and> q_sent Q = pipe_enc (take (length [1 :: byte, 2]) (replicate 2048 7)) \<and> q_dev_reads Q = 2"
proof -
  have l: "length (replicate 2048 (7 :: byte)) = 2048" "length [1 :: byte, 2] \<le> 2046" by simp_all
  show ?thesis by (rule write_taken_for_read [OF demo_libc_total l])
qed

section \<open>From the device to the server\<close>

lemma pipe_cb_cut:
  assumes "2 \<le> length inp" and "sint (of_le16 inp) = int n" and "n \<le> length inp" and "length inp < n + 2"
  shows "pipe_cb_loop E stale inp tmp w = None"
proof -
  have "inp \<noteq> []" "length inp - 2 < n" using assms(1,4) by auto
  with assms show ?thesis
    by (subst pipe_cb_loop.simps) (cases "stale inp", simp_all add: Let_def split: prod.split)
qed

lemma pipe_cb_step:
  assumes "sint (of_le16 inp) = int (length d)" and "2 \<le> length inp" and "drop 2 inp = d @ r" and "stale inp = Some z"
    and "frame_alloc E tmp (scast z) w = (a, t, w1)" and "b_store (f_frame t) d w1 = Some w2"
  shows "pipe_cb_loop E stale inp tmp w =
    pipe_cb_loop E stale r (t\<lparr>f_size := word_of_nat (length d)\<rparr>) (push_frame E (t\<lparr>f_size := word_of_nat (length d)\<rparr>) w2)"
proof -
  have "length inp = length d + length r + 2" using arg_cong [OF assms(3), of length] assms(2) by simp
  moreover have "inp \<noteq> []" using assms(2) by auto
  ultimately show ?thesis
    using assms by (subst pipe_cb_loop.simps) (simp add: Let_def)
qed

text \<open>
  Claim C29. An error of \<open>pipe_read_cb\<close>: if the pipe delivers only the first byte of a frame, or all of it but the
  last one or two bytes, the callback is undefined: it reads through a null pointer.
\<close>

theorem pipe_cut_undefined:
  assumes "pipe_wf d" and "d \<noteq> []" and "k \<in> {1, length d, length d + 1}"
  shows "pipe_read_cb E stale (take k (pipe_enc d)) w = None"
proof (cases "k = 1")
  case True
  then show ?thesis by (subst pipe_read_cb_def, subst pipe_cb_loop.simps) (simp add: pipe_enc_def le16_def)
next
  case False
  moreover have "0 < length d" using assms(2) by simp
  moreover have "k = 1 \<or> k = length d \<or> k = length d + 1" using assms(3) by simp
  ultimately have k: "2 \<le> k" "k < length d + 2" "length d \<le> k" by linarith+
  let ?i = "take k (pipe_enc d)"
  have l: "length ?i = k" using k by (simp add: pipe_enc_def)
  have z: "sint (of_le16 ?i) = int (length d)"
    using k assms(1) by (simp add: pipe_enc_def of_le16_prefix pipe_wf_def sint_short del: take_append)
  from pipe_cb_cut [OF _ z, of E stale _ w] l k show ?thesis by (simp add: pipe_read_cb_def)
qed

theorem pipe_cut_undefined_witness:
  "pipe_read_cb demo_denv Map.empty (take 3 (pipe_enc [4, 5, 6])) demo_dworld = None"
proof (rule pipe_cut_undefined)
  show "pipe_wf [4, 5, 6]" by (simp add: pipe_wf_def)
qed simp_all

text \<open>
  Whole frames: each is copied to a block of its own and queued, if the drained bytes can still be read.
\<close>

definition still_there :: "(bytes \<Rightarrow> u16 option) \<Rightarrow> bool" where
  "still_there stale \<longleftrightarrow> (\<forall>inp. stale inp = Some (of_le16 inp))"

lemma pipe_cb_one:
  fixes w :: "'w uworld_scheme"
  assumes k: "\<forall>k. e_alloc E k" "vec_ok (e_vframe E)" "still_there stale" and d: "pipe_wf d" and q: "queue_in w"
  shows "\<exists>f w'. pipe_cb_loop E stale (pipe_enc d @ r) tmp w = pipe_cb_loop E stale r f w' \<and> queue_in w'
    \<and> w_frames w' = w_frames w @ [f] \<and> payload w' f = Some d \<and> (\<forall>g \<in> set (w_frames w). payload w' g = payload w g)
    \<and> w_udp w' = w_udp w \<and> w_fibers w' = w_fibers w \<and> w_log w' = w_log w"
proof -
  let ?i = "pipe_enc d @ r" and ?n = "length d"
  have n: "?n < 2 ^ 15" using d by (simp add: pipe_wf_def)
  have i: "2 \<le> length ?i" "drop 2 ?i = d @ r" "of_le16 ?i = word_of_nat ?n" "sint (of_le16 ?i) = int ?n"
    using n by (simp_all add: pipe_enc_def sint_short)
  have sc: "scast (word_of_nat ?n :: u16) = (word_of_nat ?n :: u32)"
    by (simp add: scast_eq sint_short [OF n])
  obtain a t w1 where a: "frame_alloc E tmp (word_of_nat ?n) w = (a, t, w1)" by (metis prod_cases3)
  have un: "unat (word_of_nat ?n :: u32) = ?n" "unat (word_of_nat ?n :: u16) = ?n"
    using n by (simp_all add: unat_of_nat take_bit_nat_eq_self)
  have al: "f_raw t = Vptr (w_next w) 0" "f_frame t = Vptr (w_next w) 2" "w_log w1 = w_log w" "world.more w1 = world.more w"
    "w_next w1 = Suc (w_next w)" "w_heap w1 = (w_heap w)(w_next w \<mapsto> block_junk E (w_next w) (?n + 2))"
    using frame_alloc_ok [OF a] k(1) un by simp_all
  define blk where "blk = take 2 (block_junk E (w_next w) (?n + 2)) @ d"
  define w2 where "w2 = w1\<lparr>w_heap := (w_heap w)(w_next w \<mapsto> if d = [] then block_junk E (w_next w) (?n + 2) else blk)\<rparr>"
  have st: "b_store (f_frame t) d w1 = Some w2"
    using al by (cases w1) (simp add: b_store_def mem_write_def blk_def w2_def)
  define f where "f = t\<lparr>f_size := word_of_nat ?n\<rparr>"
  have fo: "frame_ok w2 f" "payload w2 f = Some d"
    using al un by (auto simp: frame_ok_def f_def w2_def blk_def sizeof_packet_hdr_def payload_def b_load_def mem_read_def)
  have m: "w_frames w2 = w_frames w" "w_udp w2 = w_udp w" "w_fibers w2 = w_fibers w"
    using al(4) by (cases w1; cases w; simp add: w2_def)+
  have nb: "w_next w \<notin> blocks (w_frames w)" using q by (auto simp: queue_in_def)
  have q2: "queue_in w2" "\<forall>g \<in> set (w_frames w). payload w2 g = payload w g"
    using queue_grow [OF q m(1)] al(5) nb by (auto simp: w2_def)
  have n2: "w_next w < w_next w2" "w_next w \<notin> blocks (w_frames w2)" using al(5) nb m(1) by (simp_all add: w2_def)
  have "f_raw f = Vptr (w_next w) 0" using al(1) by (simp add: f_def)
  from queue_push(1) [OF q2(1) fo(1) this n2 k(2)] have q3: "queue_in (push_frame E f w2)" .
  have "pipe_cb_loop E stale ?i tmp w = pipe_cb_loop E stale r f (push_frame E f w2)"
    using pipe_cb_step [where z = "word_of_nat ?n" and stale = stale and E = E and tmp = tmp and w = w, OF i(4,1,2) _ _ st] i(3) k(3) a
    by (simp add: still_there_def sc f_def)
  moreover have "w_frames (push_frame E f w2) = w_frames w @ [f]" using k(2) m(1) by (simp add: push_frame_def vec_push)
  moreover have "payload (push_frame E f w2) = payload w2" by (auto simp: push_frame_def payload_def b_load_def cong: val.case_cong)
  ultimately show ?thesis
    using q3 q2(2) fo(2) m al(3) by (intro exI [of _ f] exI [of _ "push_frame E f w2"]) (simp add: push_frame_def w2_def)
qed


lemma pipe_cb_frames:
  fixes w :: "'w uworld_scheme"
  assumes k: "\<forall>k. e_alloc E k" "vec_ok (e_vframe E)" "still_there stale" and "\<forall>d \<in> set ds. pipe_wf d" and "queue_in w"
  shows "\<exists>fs w'. pipe_cb_loop E stale (concat (map pipe_enc ds)) tmp w = Some ([], w') \<and> queue_in w'
    \<and> w_frames w' = w_frames w @ fs \<and> map (payload w') fs = map Some ds \<and> (\<forall>g \<in> set (w_frames w). payload w' g = payload w g)
    \<and> w_udp w' = w_udp w \<and> w_fibers w' = w_fibers w \<and> w_log w' = w_log w"
  using assms(4-)
proof (induction ds arbitrary: tmp w)
  case Nil
  then show ?case by (subst pipe_cb_loop.simps) simp
next
  case (Cons d ds)
  have d: "pipe_wf d" using Cons.prems(1) by simp
  from pipe_cb_one [OF k d Cons.prems(2), of "concat (map pipe_enc ds)" tmp]
  obtain f w1 where x: "pipe_cb_loop E stale (concat (map pipe_enc (d # ds))) tmp w = pipe_cb_loop E stale (concat (map pipe_enc ds)) f w1"
    "queue_in w1" "w_frames w1 = w_frames w @ [f]" "payload w1 f = Some d" "\<forall>g \<in> set (w_frames w). payload w1 g = payload w g"
    "w_udp w1 = w_udp w" "w_fibers w1 = w_fibers w" "w_log w1 = w_log w"
    by auto
  from Cons.IH [OF _ x(2), of f] Cons.prems(1)
  obtain fs w' where y: "pipe_cb_loop E stale (concat (map pipe_enc ds)) f w1 = Some ([], w')" "queue_in w'" "w_frames w' = w_frames w1 @ fs"
    "map (payload w') fs = map Some ds" "\<forall>g \<in> set (w_frames w1). payload w' g = payload w1 g"
    "w_udp w' = w_udp w1" "w_fibers w' = w_fibers w1" "w_log w' = w_log w1"
    by auto
  show ?case
    using x y by (intro exI [of _ "f # fs"] exI [of _ w']) (simp del: concat.simps list.map(2) add: list.map(2) [of _ f fs] list.map(2) [of Some])
qed




end
