(* ===== verification/Win_String.thy ===== *)
theory Win_String
  imports Cstring
begin

text \<open>
  The string functions of the Windows port: \<open>strtonum\<close> (\<open>sys/wnt/winstrtonum.c\<close>) and the two
  versions of \<open>strndup\<close> (\<open>sys/wnt/winstrndup.c\<close>, \<open>sys/wnt/utils.c\<close>).
\<close>

section \<open>Code\<close>

definition EINVAL :: errno where "EINVAL = EOTHER 22"

text \<open>
  \<open>_strtoi64 (s, &ep, 10)\<close>: the number, clamped to 64 bits, what \<open>ep\<close> points to, and whether
  \<open>errno\<close> is set to \<open>ERANGE\<close>.
\<close>

definition strtoi64 :: "string \<Rightarrow> (int \<times> string \<times> bool) option" where
  "strtoi64 s =
     do { (ll, ep) \<leftarrow> c_strtol s;
          t \<leftarrow> skip_space s;
          (v, _) \<leftarrow> read_digits 0 (if hd t = CHR ''-'' \<or> hd t = CHR ''+'' then tl t else t);
          Some (ll, ep, length ep \<noteq> length s \<and> ll \<noteq> (if hd t = CHR ''-'' then - int v else int v)) }"

datatype errval = NO_ERROR | INVALID | TOOSMALL | TOOLARGE

fun ev_errstr :: "errval \<Rightarrow> string option" where
  "ev_errstr NO_ERROR = None"
| "ev_errstr INVALID = Some ''invalid''"
| "ev_errstr TOOSMALL = Some ''too small''"
| "ev_errstr TOOLARGE = Some ''too large''"

fun ev_err :: "errno \<Rightarrow> errval \<Rightarrow> errno" where
  "ev_err e NO_ERROR = e"
| "ev_err e INVALID = EINVAL"
| "ev_err e TOOSMALL = ERANGE"
| "ev_err e TOOLARGE = ERANGE"

text \<open>The number, the error text stored through \<open>errstrp\<close>, and \<open>errno\<close> after the call.\<close>

definition strtonum :: "string \<Rightarrow> int \<Rightarrow> int \<Rightarrow> errno \<Rightarrow> (int \<times> string option \<times> errno) option" where
  "strtonum numstr minval maxval errno =
     do { (ll, error) \<leftarrow>
            (if minval > maxval then Some (0, INVALID)
             else
               do { (ll, ep, range) \<leftarrow> strtoi64 numstr;
                    Some (ll,
                      if length ep = length numstr \<or> hd ep \<noteq> NUL then INVALID
                      else if ll = - LONG_MAX - 1 \<and> range \<or> ll < minval then TOOSMALL
                      else if ll = LONG_MAX \<and> range \<or> ll > maxval then TOOLARGE
                      else NO_ERROR) });
          Some (if error \<noteq> NO_ERROR then 0 else ll, ev_errstr error, ev_err errno error) }"

definition strnlen :: "string \<Rightarrow> nat \<Rightarrow> nat" where
  "strnlen s n = length (takeWhile (\<lambda>c. c \<noteq> NUL) (take n s))"

text \<open>Reading at most \<open>n\<close> characters of a string that has no terminator there is undefined.\<close>

definition readable :: "string \<Rightarrow> nat \<Rightarrow> bool" where
  "readable s n \<longleftrightarrow> n \<le> length s \<or> NUL \<in> set s"

definition strndup_win :: "string \<Rightarrow> nat \<Rightarrow> libc \<Rightarrow> (string option \<times> libc) option" where
  "strndup_win str maxlen L =
     (if \<not> readable str maxlen then None
      else
        let len = strnlen str maxlen in
        case c_malloc (len + 1) L of
          (None, L) \<Rightarrow> Some (None, L)
        | (Some _, L) \<Rightarrow> Some (Some (take len str @ [NUL]), L))"

text \<open>This version writes the terminator before the characters.\<close>

definition strndup_utils :: "string \<Rightarrow> nat \<Rightarrow> libc \<Rightarrow> (string option \<times> libc) option" where
  "strndup_utils s n L =
     (if \<not> readable s n then None
      else
        let len = strnlen s n in
        case c_malloc (len + 1) L of
          (None, L) \<Rightarrow> Some (None, L)
        | (Some tmp, L) \<Rightarrow>
            (let tmp = (map (\<lambda>b. char_of (unat b)) tmp)[len := NUL] in Some (Some (take len s @ drop len tmp), L)))"

section \<open>Copies\<close>

lemma strnlen_take: "take (strnlen s n) s = takeWhile (\<lambda>c. c \<noteq> NUL) (take n s)"
proof -
  have "takeWhile (\<lambda>c. c \<noteq> NUL) (take n s) = take (strnlen s n) (take n s)"
    unfolding strnlen_def by (rule takeWhile_eq_take)
  moreover have "strnlen s n \<le> n"
    unfolding strnlen_def using length_takeWhile_le [of "\<lambda>c. c \<noteq> NUL" "take n s"] by simp
  ultimately show ?thesis by (simp add: min_def)
qed

text \<open>Both versions are the standard function.\<close>

lemma drop_last_update: "length t = Suc n \<Longrightarrow> drop n (t[n := x]) = [x]"
  by (simp add: drop_update_swap Cons_nth_drop_Suc [symmetric])

lemma strndup_same: "strndup_utils s n L = strndup_win s n L"
proof (cases "c_malloc (Suc (strnlen s n)) L")
  case (Pair r L')
  then show ?thesis
    by (cases r) (auto simp: strndup_utils_def strndup_win_def Let_def drop_last_update dest: c_malloc_length)
qed

lemma strndup_win_ok:
  assumes "readable s n" and "c_malloc (strnlen s n + 1) L = (Some b, L')"
  shows "strndup_win s n L = Some (Some (cstr (c_strndup s n)), L')"
  using assms by (simp add: strndup_win_def c_strndup_def strnlen_take cstr_def)

section \<open>Numbers\<close>

lemma nul_no_digit [simp]: "\<not> is_digit NUL"
  by (simp add: is_digit_def NUL_def)

lemma show_nat_hd: "\<exists>d r. d < 10 \<and> show_nat n @ s = digit_char d # r"
proof -
  obtain c r where "show_nat n = c # r" by (cases "show_nat n") auto
  with show_nat_digits [of c n] show ?thesis by auto
qed

lemma strtoi64_show: "strtoi64 (cstr (show_int v)) = Some (clamp_long v, [NUL], clamp_long v \<noteq> v)"
proof (cases "v < 0")
  case True
  let ?s = "show_nat (nat (- v)) @ [NUL]"
  have r: "read_digits 0 ?s = Some (nat (- v), [NUL])" by (rule read_digits_show) simp
  have s: "skip_space (cstr (show_int v)) = Some (CHR ''-'' # ?s)" "cstr (show_int v) = CHR ''-'' # ?s"
    using True by (simp_all add: show_int_def cstr_def is_space_def)
  have "length [NUL] \<noteq> length ?s" by simp
  with s r True show ?thesis by (simp add: strtoi64_def c_strtol_def Let_def)
next
  case False
  let ?s = "show_nat (nat v) @ [NUL]"
  obtain d r where d: "d < 10" "?s = digit_char d # r" using show_nat_hd by blast
  have r: "read_digits 0 ?s = Some (nat v, [NUL])" by (rule read_digits_show) simp
  have s: "cstr (show_int v) = ?s" using False by (simp add: show_int_def cstr_def)
  have k: "skip_space ?s = Some ?s" "hd ?s \<noteq> CHR ''-''" "hd ?s \<noteq> CHR ''+''" using d by simp_all
  have "length [NUL] \<noteq> length ?s" by simp
  with s r k False show ?thesis by (simp add: strtoi64_def c_strtol_def Let_def)
qed

text \<open>
  Claim C38. \<open>strtonum\<close> reads exactly the decimal numbers of its interval: for every integer, however
  long, and all bounds of 64 bits, it returns the number and leaves \<open>errno\<close> alone if the number is
  within the bounds, and otherwise 0 with the reason and \<open>ERANGE\<close>.
\<close>

theorem strtonum_show:
  assumes "minval \<le> maxval" and "- LONG_MAX - 1 \<le> minval" and "maxval \<le> LONG_MAX"
  shows "strtonum (cstr (show_int v)) minval maxval e = Some
    (if v < minval then (0, Some ''too small'', ERANGE) else if maxval < v then (0, Some ''too large'', ERANGE) else (v, None, e))"
proof -
  have n: "length [NUL] \<noteq> length (cstr (show_int v))" by (simp add: cstr_def show_int_def)
  consider "v < - LONG_MAX - 1" | "LONG_MAX < v" | "clamp_long v = v" "- LONG_MAX - 1 \<le> v" "v \<le> LONG_MAX"
    by (simp add: clamp_long_def LONG_MAX_def) linarith
  then show ?thesis
  proof cases
    case 1
    then have "clamp_long v = - LONG_MAX - 1" by (simp add: clamp_long_def LONG_MAX_def)
    with 1 assms n show ?thesis by (simp add: strtonum_def strtoi64_show)
  next
    case 2
    then have "clamp_long v = LONG_MAX" by (simp add: clamp_long_def LONG_MAX_def)
    with 2 assms n show ?thesis by (simp add: strtonum_def strtoi64_show LONG_MAX_def)
  next
    case 3
    with assms n show ?thesis by (simp add: strtonum_def strtoi64_show)
  qed
qed

theorem strtonum_show_witness:
  "strtonum (cstr (show_int 70000)) 1 65535 E0 = Some (0, Some ''too large'', ERANGE)"
  using strtonum_show [of 1 65535 70000 E0] by (simp add: LONG_MAX_def)

end
