(* ===== verification/Hexdump.thy ===== *)
theory Hexdump
  imports Cstring
begin

text \<open>
  Dumping a block of memory (\<open>src/hexdump.c\<close>). The lines given to \<open>log_debug\<close> are the result. They
  are built byte by byte in buffers of fixed size; the reference definition cuts the block into
  rows of sixteen bytes.
\<close>

section \<open>Code\<close>

definition hex_digit :: "nat \<Rightarrow> char" where
  "hex_digit d = (if d < 10 then char_of (48 + d) else char_of (87 + d))"

definition hex_digit_upper :: "nat \<Rightarrow> char" where
  "hex_digit_upper d = (if d < 10 then char_of (48 + d) else char_of (55 + d))"

fun show_hex :: "nat \<Rightarrow> string" where
  "show_hex n = (if n < 16 then [hex_digit n] else show_hex (n div 16) @ [hex_digit (n mod 16)])"

declare show_hex.simps [simp del]

text \<open>\<open>snprintf (addrstr, 10, "%.4x", n)\<close>\<close>

definition addr_text :: "nat \<Rightarrow> string" where
  "addr_text n = take 9 (replicate (4 - length (show_hex (n mod 2 ^ 32))) (CHR ''0'') @ show_hex (n mod 2 ^ 32))"

text \<open>\<open>snprintf (bytestr, 4, "%02X ", b)\<close>\<close>

definition byte_text :: "byte \<Rightarrow> string" where
  "byte_text b = take 3 [hex_digit_upper (unat b div 16), hex_digit_upper (unat b mod 16), CHR '' '']"

definition isalnum :: "nat \<Rightarrow> bool" where
  "isalnum c \<longleftrightarrow> 48 \<le> c \<and> c \<le> 57 \<or> 65 \<le> c \<and> c \<le> 90 \<or> 97 \<le> c \<and> c \<le> 122"

definition char_text :: "byte \<Rightarrow> string" where
  "char_text b = [if isalnum (unat b) then char_of (unat b) else CHR ''.'']"

text \<open>\<open>strncat (dst, src, sz - strlen (dst) - 1)\<close> where \<open>sz\<close> is the size of the array \<open>dst\<close>.\<close>

definition strncat :: "nat \<Rightarrow> string \<Rightarrow> string \<Rightarrow> string" where
  "strncat sz dst src = dst @ take (sz - length dst - 1) src"

text \<open>\<open>"[%4.4s]   %-50.50s  %s"\<close>\<close>

definition dump_line :: "string \<Rightarrow> string \<Rightarrow> string \<Rightarrow> string" where
  "dump_line addrstr hexstr charstr =
     ''['' @ replicate (4 - length (take 4 addrstr)) (CHR '' '') @ take 4 addrstr @ '']   ''
     @ take 50 hexstr @ replicate (50 - length (take 50 hexstr)) (CHR '' '') @ ''  '' @ charstr"

text \<open>The loop, from the \<open>n\<close>-th byte on, and what is left when it ends.\<close>

fun dump_loop :: "nat \<Rightarrow> bytes \<Rightarrow> string \<Rightarrow> string \<Rightarrow> string \<Rightarrow> string list" where
  "dump_loop n [] addrstr hexstr charstr =
     (if length hexstr > 0 then [dump_line addrstr hexstr charstr] else [])"
| "dump_loop n (b # bs) addrstr hexstr charstr =
     (let addrstr = (if n mod 16 = 1 then addr_text (n - 1) else addrstr);
          hexstr = strncat 53 hexstr (byte_text b);
          charstr = strncat 21 charstr (char_text b)
      in if n mod 16 = 0 then dump_line addrstr hexstr charstr # dump_loop (Suc n) bs addrstr [] []
         else if n mod 8 = 0 then dump_loop (Suc n) bs addrstr (strncat 53 hexstr ''  '') (strncat 21 charstr '' '')
         else dump_loop (Suc n) bs addrstr hexstr charstr)"

definition hex_dump :: "bytes \<Rightarrow> int \<Rightarrow> string list option" where
  "hex_dump data sz =
     (if int (length data) < sz then None else Some (dump_loop 1 (take (nat sz) data) [] [] []))"

text \<open>The checksum adds signed numbers in an \<open>int\<close>, where an overflow is undefined.\<close>

definition add_int :: "int \<Rightarrow> int \<Rightarrow> int option" where
  "add_int a b = (if - (2 ^ 31) \<le> a + b \<and> a + b < 2 ^ 31 then Some (a + b) else None)"

fun cksum_loop :: "bytes \<Rightarrow> int \<Rightarrow> int option" where
  "cksum_loop [] acc = Some acc"
| "cksum_loop [a] acc = add_int acc (sint a)"
| "cksum_loop (a # b # r) acc = do { s \<leftarrow> add_int acc (sint (of_le16 [a, b])); cksum_loop r s }"

definition cksum :: "bytes \<Rightarrow> int \<Rightarrow> int option" where
  "cksum addr cnt =
     (if int (length addr) < cnt then None else map_option (\<lambda>s. - s - 1) (cksum_loop (take (nat cnt) addr) 0))"

definition hex_dump_chk :: "bytes \<Rightarrow> int \<Rightarrow> (string list \<times> int) option" where
  "hex_dump_chk data sz = do { ls \<leftarrow> hex_dump data sz; c \<leftarrow> cksum data sz; Some (ls, c) }"

section \<open>Rows\<close>

text \<open>A row of at most sixteen bytes, with a gap after the eighth.\<close>

definition hex_cols :: "bytes \<Rightarrow> string" where
  "hex_cols p = concat (map byte_text (take 8 p)) @ (if length p < 8 then [] else ''  '') @ concat (map byte_text (drop 8 p))"

definition char_cols :: "bytes \<Rightarrow> string" where
  "char_cols p = concat (map char_text (take 8 p)) @ (if length p < 8 then [] else '' '') @ concat (map char_text (drop 8 p))"

fun rows :: "nat \<Rightarrow> bytes \<Rightarrow> string list" where
  "rows a bs =
     (if bs = [] then []
      else dump_line (addr_text a) (hex_cols (take 16 bs)) (char_cols (take 16 bs)) # rows (a + 16) (drop 16 bs))"

declare rows.simps [simp del]

lemma length_texts [simp]: "length (byte_text b) = 3" "length (char_text b) = 1"
  by (simp_all add: byte_text_def char_text_def)

lemma length_concat_texts:
  "length (concat (map byte_text p)) = 3 * length p" "length (concat (map char_text p)) = length p"
  by (induction p) simp_all

lemma length_cols:
  "length (hex_cols p) = 3 * length p + (if length p < 8 then 0 else 2)"
  "length (char_cols p) = length p + (if length p < 8 then 0 else 1)"
  by (auto simp: hex_cols_def char_cols_def length_concat_texts)

lemma cols_snoc:
  "hex_cols (p @ [b]) = hex_cols p @ byte_text b @ (if length p = 7 then ''  '' else [])"
  "char_cols (p @ [b]) = char_cols p @ char_text b @ (if length p = 7 then '' '' else [])"
  by (cases "length p < 7"; cases "length p = 7"; simp add: hex_cols_def char_cols_def)+

lemma cols_nil [simp]: "hex_cols [] = []" "char_cols [] = []"
  by (simp_all add: hex_cols_def char_cols_def)

lemma strncat_fits: "length dst + length src < sz \<Longrightarrow> strncat sz dst src = dst @ src"
  by (simp add: strncat_def)

lemma cols_nonempty: "p \<noteq> [] \<Longrightarrow> hex_cols p \<noteq> []"
  using length_cols(1) [of p] by auto

lemma rows_nil [simp]: "rows a [] = []"
  by (subst rows.simps) simp

lemma rows_short: "p \<noteq> [] \<Longrightarrow> length p < 16 \<Longrightarrow> rows a p = [dump_line (addr_text a) (hex_cols p) (char_cols p)]"
  by (subst rows.simps) simp

lemma position_mod:
  assumes "l < 16"
  shows "(Suc (16 * k + l) mod 16 = 1 \<longleftrightarrow> l = 0) \<and> (Suc (16 * k + l) mod 16 = 0 \<longleftrightarrow> l = 15)
    \<and> (Suc (16 * k + l) mod 16 \<noteq> 0 \<longrightarrow> (Suc (16 * k + l) mod 8 = 0 \<longleftrightarrow> l = 7))"
proof -
  have "Suc (16 * k + l) mod 16 = Suc l mod 16"
    by (metis add_Suc_right mod_mult_self3 mult.commute)
  moreover have "Suc (16 * k + l) = Suc l + (2 * k) * 8" by simp
  then have "Suc (16 * k + l) mod 8 = Suc l mod 8" by (metis mod_mult_self1)
  moreover have "l \<in> {0, 1, 2, 3, 4, 5, 6, 7, 8, 9, 10, 11, 12, 13, 14, 15}" using assms by (simp add: numeral_eq_Suc less_Suc_eq)
  ultimately show ?thesis by (auto dest: dvd_imp_le)
qed

lemma dump_loop_rows:
  assumes "length p < 16" and "p \<noteq> [] \<Longrightarrow> addrstr = addr_text (16 * k)"
  shows "dump_loop (Suc (16 * k + length p)) bs addrstr (hex_cols p) (char_cols p) = rows (16 * k) (p @ bs)"
  using assms
proof (induction bs arbitrary: p k addrstr)
  case Nil
  then show ?case
    by (cases "p = []") (simp_all add: rows_short cols_nonempty)
next
  case (Cons b bs)
  let ?n = "Suc (16 * k + length p)" and ?q = "p @ [b]"
  have n16: "?n mod 16 = 1 \<longleftrightarrow> p = []" "?n mod 16 = 0 \<longleftrightarrow> length p = 15" "?n mod 16 \<noteq> 0 \<Longrightarrow> ?n mod 8 = 0 \<longleftrightarrow> length p = 7"
    using position_mod [OF Cons.prems(1), of k] by simp_all
  have a: "(if ?n mod 16 = 1 then addr_text (?n - 1) else addrstr) = addr_text (16 * k)"
    using Cons.prems(2) n16(1) by auto
  have f: "strncat 53 (hex_cols p) (byte_text b) = hex_cols p @ byte_text b" "strncat 21 (char_cols p) (char_text b) = char_cols p @ char_text b"
    using Cons.prems(1) by (simp_all add: strncat_fits length_cols)
  consider "length p = 15" | "length p = 7" | "length p \<noteq> 15" "length p \<noteq> 7" by blast
  then show ?case
  proof cases
    case 1
    then have "rows (16 * k) (p @ b # bs) = dump_line (addr_text (16 * k)) (hex_cols ?q) (char_cols ?q) # rows (16 * Suc k) bs"
      by (subst rows.simps) (simp add: add.commute)
    moreover have "dump_loop (Suc ?n) bs (addr_text (16 * k)) [] [] = rows (16 * Suc k) bs"
      using Cons.IH [of "[]" "addr_text (16 * k)" "Suc k"] 1 by simp
    ultimately show ?thesis using 1 a f n16 by (simp add: cols_snoc Let_def)
  next
    case 2
    have g: "strncat 53 (hex_cols p @ byte_text b) ''  '' = hex_cols ?q" "strncat 21 (char_cols p @ char_text b) '' '' = char_cols ?q"
      using 2 by (simp_all add: strncat_fits length_cols cols_snoc)
    show ?thesis using Cons.IH [of ?q "addr_text (16 * k)" k] 2 a f g n16 by (simp add: Let_def)
  next
    case 3
    then have "hex_cols ?q = hex_cols p @ byte_text b" "char_cols ?q = char_cols p @ char_text b" by (simp_all add: cols_snoc)
    with Cons.IH [of ?q "addr_text (16 * k)" k] Cons.prems(1) 3 a f n16 show ?thesis by (simp add: Let_def)
  qed
qed

text \<open>
  The dump of a block is the list of its rows of sixteen bytes: building the lines byte
  by byte in fixed buffers loses nothing and leaves nothing out, for every size.
\<close>

lemma hex_dump_rows:
  assumes "0 \<le> sz" and "sz \<le> int (length data)"
  shows "hex_dump data sz = Some (rows 0 (take (nat sz) data))"
  using assms dump_loop_rows [of "[]" "[]" 0] by (simp add: hex_dump_def)

lemma hex_dump_rows_witness:
  "hex_dump (replicate 17 0x41) 17 = Some [dump_line ''0000'' (hex_cols (replicate 16 0x41)) (char_cols (replicate 16 0x41)), dump_line ''0010'' ''41 '' ''A'']"
proof -
  have t: "rows 0 (replicate 17 0x41) = [dump_line (addr_text 0) (hex_cols (replicate 16 0x41)) (char_cols (replicate 16 0x41)),
      dump_line (addr_text 16) (hex_cols [0x41]) (char_cols [0x41])]"
    by (subst rows.simps) (simp add: rows_short)
  have "addr_text 0 = ''0000''" "addr_text 16 = ''0010''"
    by (simp_all add: addr_text_def show_hex.simps hex_digit_def) code_simp+
  moreover have "hex_cols [0x41] = ''41 ''" "char_cols [0x41] = ''A''"
    by (simp_all add: hex_cols_def byte_text_def hex_digit_upper_def char_cols_def char_text_def isalnum_def) code_simp+
  ultimately show ?thesis using t hex_dump_rows [of 17 "replicate 17 0x41"] by (simp del: replicate.simps)
qed

end
