(* ===== verification/Windows.thy ===== *)
theory Windows
  imports Pipe Startup Win_String Hexdump
begin

text \<open>
  The Windows port: reading the configuration (\<open>sys/wnt/conf.c\<close>), sockets (\<open>sys/wnt/tntsocket.c\<close>),
  synchronous reads and writes (\<open>sys/wnt/wincompat.c\<close>) and \<open>main\<close> (\<open>sys/wnt/main.c\<close>). Its two
  threads are in the theory \<open>Pipe\<close>.
\<close>

section \<open>Files and sockets\<close>

text \<open>
  \<open>tnt_parse_file\<close>: each piece that \<open>ReadFile\<close> returns, of at most 65000 bytes, is parsed as a whole
  configuration, until one is wrong. An error of the parser or of opening the file is not
  reported. \<open>pieces\<close> is what the reads of a path return; there is none if it cannot be opened.
\<close>

fun parse_pieces :: "cenv \<Rightarrow> (string \<Rightarrow> yevent list \<times> bool) \<Rightarrow> string list \<Rightarrow> options \<times> int \<Rightarrow> (options \<times> int) option" where
  "parse_pieces C yajl [] st = Some st"
| "parse_pieces C yajl (p # ps) st =
     (if p = [] then Some st
      else do { (ret, st) \<leftarrow> tnt_parse_buf C yajl p (snd st);
                if ret = -1 then Some st else parse_pieces C yajl ps st })"

definition tnt_parse_file_wnt ::
    "cenv \<Rightarrow> (string \<Rightarrow> yevent list \<times> bool) \<Rightarrow> (string \<Rightarrow> string list) \<Rightarrow> string option \<Rightarrow> options \<times> int \<Rightarrow> (int \<times> options \<times> int) option" where
  "tnt_parse_file_wnt C yajl pieces file st =
     do { let path = (case file of None \<Rightarrow> ''./'' | Some f \<Rightarrow> f);
          st \<leftarrow> parse_pieces C yajl (pieces path) st;
          Some (0, st) }"

text \<open>\<open>wsasocket\<close> is \<open>WSASocket\<close> for a family, a type and a protocol.\<close>

definition INVALID_SOCKET :: int where "INVALID_SOCKET = 2 ^ 64 - 1"

definition tnt_tcp_socket_wnt :: "(nat \<Rightarrow> string \<Rightarrow> string \<Rightarrow> int) \<Rightarrow> nat \<Rightarrow> int" where
  "tnt_tcp_socket_wnt wsasocket saf =
     (let sock = wsasocket saf ''SOCK_STREAM'' ''IPPROTO_TCP'' in if sock \<noteq> INVALID_SOCKET then sock else -1)"

definition tnt_udp_socket_wnt :: "(nat \<Rightarrow> string \<Rightarrow> string \<Rightarrow> int) \<Rightarrow> nat \<Rightarrow> int" where
  "tnt_udp_socket_wnt wsasocket saf =
     (let sock = wsasocket saf ''SOCK_DGRAM'' ''IPPROTO_UDP'' in if sock \<noteq> INVALID_SOCKET then sock else -1)"

text \<open>
  The result of \<open>WriteFile\<close> or \<open>ReadFile\<close>: whether it succeeded, the number of bytes and the error. A
  pending operation is waited for, but its number of bytes is not asked for: it stays 0.
\<close>

definition ERROR_IO_PENDING :: int where "ERROR_IO_PENDING = 997"

definition windows_fix_write :: "bool \<times> nat \<times> int \<Rightarrow> bytes \<Rightarrow> (int \<times> string list) option" where
  "windows_fix_write res buf =
     (let (ok, n, err) = res in
      if \<not> ok \<and> err \<noteq> ERROR_IO_PENDING then Some (-1, [])
      else
        do { dump \<leftarrow> (if buf \<noteq> [] then map_option fst (hex_dump_chk buf (int (length buf))) else Some []);
             Some (int n, dump) })"

definition windows_fix_read :: "bool \<times> nat \<times> int \<Rightarrow> bytes \<Rightarrow> (int \<times> string list) option" where
  "windows_fix_read res buf =
     (let (ok, n, err) = res in
      if \<not> ok \<and> err \<noteq> ERROR_IO_PENDING then Some (-1, [])
      else
        do { dump \<leftarrow> (if n > 0 then map_option fst (hex_dump_chk buf (int n)) else Some []);
             Some (int n, dump) })"

section \<open>Startup\<close>

datatype win_call =
    Event_config_new
  | Wsa_startup
  | Event_base_new int
  | Evutil_socketpair
  | Bufferevent_new int int
  | Bufferevent_setcb int
  | Bufferevent_enable int
  | Create_thread int int
  | Event_base_free int
  | Wait_thread int
  | Close_thread int
  | Wsa_cleanup

type_synonym win_log = "(win_call \<times> int) list"

record win =
  n_ret :: "win_log \<Rightarrow> win_call \<Rightarrow> int"
  n_pair :: "win_log \<Rightarrow> int \<times> int"
  n_appdata :: "string option"
  n_pieces :: "string \<Rightarrow> string list"

definition win_do :: "win \<Rightarrow> win_call \<Rightarrow> win_log \<Rightarrow> int \<times> win_log" where
  "win_do K c h = (n_ret K h c, h @ [(c, n_ret K h c)])"

definition win_do0 :: "win \<Rightarrow> win_call \<Rightarrow> win_log \<Rightarrow> win_log" where
  "win_do0 K c h = snd (win_do K c h)"

text \<open>\<open>log_err\<close> aborts, whatever code it is given.\<close>

definition log_err_wnt :: "'a outcome" where
  "log_err_wnt = Exit 3"

text \<open>\<open>cnf_file\<close> has 2048 bytes; \<open>APPDATA\<close> may not be set.\<close>

definition PATH_CONFIG_FILE_WNT :: string where
  "PATH_CONFIG_FILE_WNT = CHR 0x5C # ''tNETacle'' @ CHR 0x5C # ''tNETacle.conf''"

definition cnf_file :: "win \<Rightarrow> string option" where
  "cnf_file K =
     do { a \<leftarrow> n_appdata K;
          if length a + length PATH_CONFIG_FILE_WNT < 2048 then Some (a @ PATH_CONFIG_FILE_WNT) else None }"

text \<open>From the thread on: the interface is configured, the server attached, the loop run.\<close>

definition serve_wnt ::
    "win \<Rightarrow> 'e srvenv_scheme \<Rightarrow> ttc_lib \<Rightarrow> ttc \<Rightarrow> options \<Rightarrow> ('w srvworld_scheme \<Rightarrow> 'w srvworld_scheme option)
      \<Rightarrow> (nat \<Rightarrow> 'w srun) \<Rightarrow> libc \<Rightarrow> int \<Rightarrow> int \<Rightarrow> int \<Rightarrow> win_log \<Rightarrow> ttc_log \<Rightarrow> 'w srvworld_scheme
      \<Rightarrow> (int outcome \<times> win_log \<times> ttc_log \<times> 'w srvworld_scheme) option" where
  "serve_wnt K E B T opts loop co L evbase interfce pipe_fd h th w =
     (let (fd, th) = tnt_ttc_get_fd B T interfce th; (thread, h) = win_do K (Create_thread fd pipe_fd) h in
      if thread = 0 then Some (log_err_wnt, h, th, w)
      else
        do { addr \<leftarrow> o_addr opts;
             (r, th, L) \<leftarrow> tnt_ttc_set_ip B T interfce addr th L;
             if r = -1 then Some (log_err_wnt, h, th, w)
             else
               let (r, th) = tnt_ttc_up B T interfce th in
               if r \<noteq> 0 then Some (log_err_wnt, h, th, w)
               else
                 do { let (_, th) = tnt_ttc_get_fd B T interfce th;
                      w \<leftarrow> server_set_device_windows E co w;
                      w \<leftarrow> loop w;
                      let h = win_do0 K (Wait_thread thread) (win_do0 K (Event_base_free evbase) h);
                      let h = win_do0 K (Close_thread thread) h;
                      let th = tnt_ttc_close B T interfce th;
                      Some (Return TNT_OK, win_do0 K Wsa_cleanup h, th, w) } })"

definition main_wnt ::
    "win \<Rightarrow> 'e srvenv_scheme \<Rightarrow> ttc_lib \<Rightarrow> ttc \<Rightarrow> cenv \<Rightarrow> (string \<Rightarrow> yevent list \<times> bool)
      \<Rightarrow> (int \<Rightarrow> 'w srvworld_scheme \<Rightarrow> 'w srvworld_scheme option) \<Rightarrow> (nat \<Rightarrow> 'w srun) \<Rightarrow> val \<Rightarrow> libc \<Rightarrow> options \<times> int
      \<Rightarrow> win_log \<Rightarrow> ttc_log \<Rightarrow> 'w srvworld_scheme \<Rightarrow> (int outcome \<times> win_log \<times> ttc_log \<times> 'w srvworld_scheme) option" where
  "main_wnt K E B T C yajl loop co s L st h th w =
     do { let (cfg, h) = win_do K Event_config_new h;
          path \<leftarrow> cnf_file K;
          (errcode, opts, debug) \<leftarrow> tnt_parse_file_wnt C yajl (n_pieces K) (Some path) st;
          if errcode = -1 then Some (Exit 1, h, th, w)
          else
            let (r, h) = win_do K Wsa_startup h in
            if r \<noteq> 0 then Some (log_err_wnt, h, th, w)
            else
              do { (ctx, w) \<leftarrow> (if o_encryption opts \<noteq> 0 then evssl_init E opts w else Some (0, w));
                   let w = w\<lparr>w_ctx := ctx\<rparr>;
                   let (evbase, h) = win_do K (Event_base_new cfg) h;
                   if evbase = 0 then Some (log_err_wnt, h, th, w)
                   else
                     case tnt_ttc_open B T TNT_TUNMODE_ETHERNET th of
                       Exit n \<Rightarrow> Some (Exit n, h, th, w)
                     | Return (interfce, th) \<Rightarrow>
                         (if interfce = 0 then Some (log_err_wnt, h, th, w)
                          else
                            do { let h = win_do0 K Evutil_socketpair h;
                                 let (p0, p1) = n_pair K h;
                                 let (bev, h) = win_do K (Bufferevent_new evbase p0) h;
                                 let h = (if bev \<noteq> 0 then win_do0 K (Bufferevent_enable bev) (win_do0 K (Bufferevent_setcb bev) h) else h);
                                 let w = (if bev \<noteq> 0 then w\<lparr>w_bevs := insert bev (w_bevs w)\<rparr> else w);
                                 (r, w) \<leftarrow> server_init E opts s evbase w;
                                 if r = -1 then Some (log_err_wnt, h, th, w)
                                 else serve_wnt K E B T opts (loop bev) co L evbase interfce p1 h th w }) } }"

section \<open>Properties\<close>

text \<open>A configuration of one piece gives what the parser gives; the result is 0 even when it is wrong.\<close>

lemma parse_file_wnt_whole:
  assumes "pieces f = [p]" and "p \<noteq> []" and "tnt_parse_buf C yajl p (snd st) = Some (ret, st')"
  shows "tnt_parse_file_wnt C yajl pieces (Some f) st = Some (0, st')"
  using assms by (simp add: tnt_parse_file_wnt_def)

text \<open>Of a longer one only the last piece counts, since each piece starts from the default options.\<close>

lemma parse_file_wnt_last:
  assumes "pieces f = [p, q]" and "p \<noteq> []" and "q \<noteq> []" and "tnt_parse_buf C yajl p (snd st) = Some (0, opt, dbg)"
    and "tnt_parse_buf C yajl q dbg = Some (ret, opt', dbg')"
  shows "tnt_parse_file_wnt C yajl pieces (Some f) st = Some (0, opt', dbg')"
  using assms by (simp add: tnt_parse_file_wnt_def)

text \<open>A file that cannot be opened is not reported.\<close>

lemma parse_file_wnt_missing: "pieces f = [] \<Longrightarrow> tnt_parse_file_wnt C yajl pieces (Some f) st = Some (0, st)"
  by (simp add: tnt_parse_file_wnt_def)

text \<open>
  The event loop runs only when the address was set and the interface is up; afterwards the device is closed.
\<close>

definition up_call :: "ttc_lib \<Rightarrow> int \<Rightarrow> ttc_call" where
  "up_call B dev = (case B of USE_LIBTUNTAP \<Rightarrow> Tuntap_up dev | USE_TAPCFG \<Rightarrow> Tapcfg_set_status dev True)"

definition set_ip_call :: "ttc_lib \<Rightarrow> int \<Rightarrow> string \<Rightarrow> int \<Rightarrow> ttc_call" where
  "set_ip_call B dev ip n = (case B of USE_LIBTUNTAP \<Rightarrow> Tuntap_set_ip dev ip n | USE_TAPCFG \<Rightarrow> Tapcfg_set_ipv4 dev ip n)"

definition get_fd_call :: "ttc_lib \<Rightarrow> int \<Rightarrow> ttc_call" where
  "get_fd_call B dev = (case B of USE_LIBTUNTAP \<Rightarrow> Tuntap_get_fd dev | USE_TAPCFG \<Rightarrow> Tapcfg_get_fd dev)"

definition close_call :: "ttc_lib \<Rightarrow> int \<Rightarrow> ttc_call" where
  "close_call B dev = (case B of USE_LIBTUNTAP \<Rightarrow> Tuntap_destroy dev | USE_TAPCFG \<Rightarrow> Tapcfg_destroy dev)"

lemma set_ip_called:
  assumes "tnt_ttc_set_ip B T dev addr th L = Some (r, th', L')" and "r \<noteq> -1"
  shows "\<exists>n. th' = th @ [(set_ip_call B dev (takeWhile (\<lambda>c. c \<noteq> CHR ''/'') addr) n, r)]"
  using assms
  by (cases B) (auto simp: tnt_ttc_set_ip_def set_ip_call_def t_call_def Let_def split: prod.splits option.splits if_splits bind_splits)

lemma serve_wnt_ready:
  assumes "serve_wnt K E B T opts loop co L evbase dev p h th w = Some (Return n, h', th', w')"
  shows "n = TNT_OK \<and> (\<exists>addr bits w1. o_addr opts = Some addr \<and> loop w1 = Some w' \<and> (up_call B dev, 0) \<in> set th'
    \<and> map fst th' = map fst th @ [get_fd_call B dev, set_ip_call B dev (takeWhile (\<lambda>c. c \<noteq> CHR ''/'') addr) bits, up_call B dev,
        get_fd_call B dev, close_call B dev])"
proof -
  from assms obtain addr r L' th1 w1 where x: "o_addr opts = Some addr" "r \<noteq> -1"
    "tnt_ttc_set_ip B T dev addr (snd (tnt_ttc_get_fd B T dev th)) L = Some (r, th1, L')"
    "fst (tnt_ttc_up B T dev th1) = 0" "loop w1 = Some w'" "n = TNT_OK"
    "th' = tnt_ttc_close B T dev (snd (tnt_ttc_get_fd B T dev (snd (tnt_ttc_up B T dev th1))))"
    by (auto simp: serve_wnt_def log_err_wnt_def Let_def split: prod.splits if_splits bind_splits)
  obtain bits where b: "th1 = snd (tnt_ttc_get_fd B T dev th) @ [(set_ip_call B dev (takeWhile (\<lambda>c. c \<noteq> CHR ''/'') addr) bits, r)]"
    using set_ip_called [OF x(3,2)] by blast
  have "map fst th' = map fst th @ [get_fd_call B dev, set_ip_call B dev (takeWhile (\<lambda>c. c \<noteq> CHR ''/'') addr) bits, up_call B dev,
      get_fd_call B dev, close_call B dev]" "(up_call B dev, 0) \<in> set th'"
    using x(4,7) b
    by (simp_all add: tnt_ttc_get_fd_def tnt_ttc_up_def tnt_ttc_close_def t_call_def up_call_def get_fd_call_def close_call_def)
  with x(1,5,6) show ?thesis by blast
qed

end
