(* ===== verification/Gui.thy ===== *)
theory Gui
  imports Cstring Hexdump
begin

text \<open>
  The graphical client (\<open>client/qt\<close>): its models of contacts and settings, the controller that
  checks what the user enters, the connection to the daemon and the windows. Qt and libtclt are
  parameters; a \<open>QMap\<close> is a map and a \<open>QVariant\<close> one of the values the client puts into it.
\<close>

section \<open>Parameters\<close>

datatype qvariant = Invalid | QStr string | QMapVar "string \<Rightarrow> qvariant option"

type_synonym qmap = "string \<Rightarrow> qvariant option"

fun toString :: "qvariant \<Rightarrow> string" where
  "toString (QStr s) = s"
| "toString Invalid = []"
| "toString (QMapVar m) = []"

fun toMap :: "qvariant \<Rightarrow> qmap" where
  "toMap (QMapVar m) = m"
| "toMap Invalid = Map.empty"
| "toMap (QStr s) = Map.empty"

text \<open>
  What is used of Qt: splitting, the conversions to numbers, regular expressions, the order in which
  a map is visited.
\<close>

record qt =
  q_split :: "string \<Rightarrow> char \<Rightarrow> string list"
  q_toInt :: "string \<Rightarrow> int option"
  q_toUShort :: "string \<Rightarrow> nat option"
  q_contains :: "string \<Rightarrow> string \<Rightarrow> bool"
  q_keys :: "qmap \<Rightarrow> string list"

text \<open>The commands libtclt finds in a text and whether it found an error, and the commands it prints.\<close>

datatype gcommand = Add_peer string | Add_log string | Delete_peer string | Edit_peer

record gtclt =
  l_dispatch :: "string \<Rightarrow> gcommand list \<times> bool"
  l_add_peer :: "string \<Rightarrow> string \<Rightarrow> string \<Rightarrow> string"
  l_delete_peer :: "string \<Rightarrow> string"

section \<open>State\<close>

datatype client_state = CONNEXION | MAIN | ADDGROUP | ADDCONTACT

datatype body = BodyConnexion | BodyMain | BodyAddGroup | BodyAddContact

datatype socket_call = ConnectToHost string nat | SocketClose | SocketWrite string

text \<open>The fields of the window, the two forms, the list of peers, the models and the connection.\<close>

record gui =
  g_state :: client_state
  g_body :: body
  g_visible :: "body set"
  g_name :: string
  g_pubkey :: string
  g_ip :: string
  g_cname :: string
  g_cadress :: string
  g_cport :: string
  g_ckey :: string
  g_list :: "string list"
  g_contacts :: qmap
  g_details :: qmap
  g_infos :: qmap
  g_connected :: bool
  g_input :: string
  g_socket :: "socket_call list"

section \<open>The windows\<close>

definition show_body :: "client_state \<Rightarrow> body \<Rightarrow> gui \<Rightarrow> gui" where
  "show_body st b g = g\<lparr>g_state := st, g_body := b, g_visible := insert b (g_visible g - {g_body g})\<rparr>"

definition changeNextBody :: "client_state \<Rightarrow> gui \<Rightarrow> gui" where
  "changeNextBody newState g =
     (case g_state g of
        CONNEXION \<Rightarrow> show_body MAIN BodyMain g
      | MAIN \<Rightarrow>
          (if newState = ADDCONTACT then show_body ADDCONTACT BodyAddContact g
           else if newState = ADDGROUP then show_body ADDGROUP BodyAddGroup g
           else show_body MAIN (g_body g) g)
      | ADDGROUP \<Rightarrow> show_body MAIN BodyMain g
      | ADDCONTACT \<Rightarrow> show_body MAIN BodyMain g)"

definition changePrevBody :: "gui \<Rightarrow> gui" where
  "changePrevBody g =
     (case g_state g of
        MAIN \<Rightarrow> show_body CONNEXION BodyConnexion g
      | ADDGROUP \<Rightarrow> show_body MAIN BodyMain g
      | ADDCONTACT \<Rightarrow> show_body MAIN BodyMain g
      | CONNEXION \<Rightarrow> show_body CONNEXION (g_body g) g)"

definition QClient_connected :: "gui \<Rightarrow> gui" where
  "QClient_connected g = changeNextBody MAIN g"

definition QClient_disconnected :: "gui \<Rightarrow> gui" where
  "QClient_disconnected g = show_body CONNEXION BodyConnexion g"

definition addNewPeer :: "string \<Rightarrow> gui \<Rightarrow> gui" where
  "addNewPeer str g = g\<lparr>g_list := g_list g @ [str]\<rparr>"

definition cleanField :: "gui \<Rightarrow> gui" where
  "cleanField g = g\<lparr>g_name := [], g_pubkey := [], g_ip := []\<rparr>"

section \<open>The models\<close>

text \<open>An exception is its message.\<close>

definition ModelContact_addContact :: "string \<Rightarrow> string \<Rightarrow> string \<Rightarrow> qmap \<Rightarrow> string + qmap" where
  "ModelContact_addContact name ip key contacts =
     (if name = [] then Inl ''Error: No name''
      else if contacts name \<noteq> None then Inl ''Error: Name already exist''
      else Inr (contacts(name \<mapsto> QMapVar [''Key'' \<mapsto> QStr key, ''Ip'' \<mapsto> QStr ip])))"

definition q_at :: "qmap \<Rightarrow> string \<Rightarrow> qvariant" where
  "q_at m k = (case m k of None \<Rightarrow> Invalid | Some v \<Rightarrow> v)"

definition ModelContact_getKey :: "string \<Rightarrow> qmap \<Rightarrow> string + string" where
  "ModelContact_getKey name contacts =
     (if contacts name = None then Inl ''Error: Name does not exist''
      else Inr (toString (q_at (toMap (q_at contacts name)) ''Key'')))"

definition ModelContact_getIp :: "string \<Rightarrow> qmap \<Rightarrow> string + string" where
  "ModelContact_getIp name contacts =
     (if contacts name = None then Inl ''Error: Name does not exist''
      else Inr (toString (q_at (toMap (q_at contacts name)) ''Ip'')))"

definition ModelContact_delContact :: "string list \<Rightarrow> qmap \<Rightarrow> string + qmap" where
  "ModelContact_delContact param contacts =
     (if param = [] then Inl ''Error: missing parameter to delete a contact''
      else if contacts (hd param) = None then Inl (''Error: Name ('' @ hd param @ '') does not exist'')
      else Inr (contacts(hd param := None)))"

text \<open>The contact is deleted; adding it again is commented out.\<close>

definition ModelContact_editContact :: "string list \<Rightarrow> qmap \<Rightarrow> string + qmap" where
  "ModelContact_editContact param contacts =
     (if length param < 4 then Inl ''Error: missing parameters to edit contact''
      else ModelContact_delContact [param ! 3] contacts)"

definition ModelConnexion_init :: qmap where
  "ModelConnexion_init =
     [''Name'' \<mapsto> QStr ''Default'', ''Adress'' \<mapsto> QStr ''127.0.0.1'', ''Port'' \<mapsto> QStr ''4243'', ''Key'' \<mapsto> QStr ''key'']"

definition changeConnexionInfo :: "string \<Rightarrow> string \<Rightarrow> string \<Rightarrow> string \<Rightarrow> qmap \<Rightarrow> qmap" where
  "changeConnexionInfo name pubkey ip port infos =
     infos(''Name'' \<mapsto> QStr name, ''Key'' \<mapsto> QStr pubkey, ''Adress'' \<mapsto> QStr ip, ''Port'' \<mapsto> QStr port)"

definition ModelRootNode_init :: qmap where
  "ModelRootNode_init =
     [''name'' \<mapsto> QStr ''test'', ''pubkey'' \<mapsto> QStr ''pubkey'', ''ip'' \<mapsto> QStr ''127.0.0.1'', ''port'' \<mapsto> QStr ''4243'']"

definition RootNode_get :: "string \<Rightarrow> qmap \<Rightarrow> string" where
  "RootNode_get field details = (if details field = None then [] else toString (q_at details field))"

definition ModelRootNode_changeRootNode :: "string \<Rightarrow> string \<Rightarrow> string \<Rightarrow> string \<Rightarrow> qmap \<Rightarrow> qmap" where
  "ModelRootNode_changeRootNode name pubkey ip port details =
     details(''name'' \<mapsto> QStr name, ''pubkey'' \<mapsto> QStr pubkey, ''ip'' \<mapsto> QStr ip, ''port'' \<mapsto> QStr port)"

text \<open>The log that is handed to the controller, if any.\<close>

definition ModelLog_feedData :: "string \<Rightarrow> qvariant \<Rightarrow> string + string option" where
  "ModelLog_feedData command data =
     (if command = ''AddLog'' then
        let logs = toMap data; log = (if logs ''Log'' \<noteq> None then toString (q_at logs ''Log'') else [])
        in Inr (if log \<noteq> [] then Some log else None)
      else Inl ''Error: command does not exist!'')"

text \<open>
  \<open>toJson\<close>; the last character is replaced by a space, which is the bracket if there is no data.
\<close>

definition quote :: string where "quote = [CHR 0x22]"
definition newline :: string where "newline = [CHR 0x0A]"

definition toJson :: "qt \<Rightarrow> string \<Rightarrow> qmap option \<Rightarrow> string" where
  "toJson Q object datas =
     (let entry = (\<lambda>m k. ''{'' @ newline @ ''name:'' @ quote @ k @ quote @ newline @ ''key:'' @ quote @ toString (q_at m k)
                        @ quote @ newline @ ''}'' @ newline @ '','');
          json = ''{'' @ newline @ quote @ object @ quote @ '':['' @
                 (case datas of None \<Rightarrow> [] | Some m \<Rightarrow> concat (map (entry m) (q_keys Q m)))
      in butlast json @ '' ]'' @ newline @ ''}'')"

section \<open>Commands as text\<close>

definition Protocol_add :: "string \<Rightarrow> string list \<Rightarrow> string" where
  "Protocol_add object v =
     (if length v < 3 \<or> object = [] then []
      else ''{'' @ quote @ ''Add'' @ object @ quote @ '': {'' @ quote @ ''Name'' @ quote @ '':'' @ quote @ v ! 0 @ quote @ '',''
        @ quote @ ''Key'' @ quote @ '': '' @ quote @ v ! 1 @ quote @ '','' @ quote @ ''Ip'' @ quote @ '': '' @ quote @ v ! 2 @ quote
        @ ''}'' @ ''}'' @ newline)"

definition Protocol_delet :: "string \<Rightarrow> string list \<Rightarrow> string" where
  "Protocol_delet object v =
     (if v = [] \<or> object = [] then []
      else ''{'' @ quote @ ''Delete'' @ object @ quote @ '': {'' @ quote @ ''Name'' @ quote @ '': '' @ quote @ v ! 0 @ quote
        @ ''}'' @ ''}'' @ newline)"

section \<open>The connection\<close>

definition Network_write :: "string \<Rightarrow> gui \<Rightarrow> gui" where
  "Network_write buff g = (if \<not> g_connected g then g else g\<lparr>g_socket := g_socket g @ [SocketWrite buff]\<rparr>)"

definition setConnection :: "string \<Rightarrow> nat \<Rightarrow> gui \<Rightarrow> gui" where
  "setConnection ip port g = g\<lparr>g_socket := g_socket g @ [ConnectToHost ip port]\<rparr>"

definition resetConnection :: "string \<Rightarrow> nat \<Rightarrow> gui \<Rightarrow> gui" where
  "resetConnection ip port g = g\<lparr>g_socket := g_socket g @ [SocketClose, ConnectToHost ip port]\<rparr>"

definition Network_shutdown :: "gui \<Rightarrow> gui" where
  "Network_shutdown g = g\<lparr>g_socket := g_socket g @ [SocketClose]\<rparr>"

section \<open>The controller\<close>

text \<open>The callbacks of \<open>init_callback\<close>; all but the first only print.\<close>

fun controll :: "gcommand \<Rightarrow> gui \<Rightarrow> gui" where
  "controll (Add_peer name) g = addNewPeer name g"
| "controll (Add_log str) g = g"
| "controll (Delete_peer str) g = g"
| "controll Edit_peer g = g"

definition c_text :: "string \<Rightarrow> string" where
  "c_text s = takeWhile (\<lambda>c. c \<noteq> NUL) s"

definition Network_read :: "gtclt \<Rightarrow> gui \<Rightarrow> gui" where
  "Network_read T g =
     (if \<not> g_connected g then g
      else
        let (cmds, err) = l_dispatch T (c_text (g_input g)); g = fold controll cmds g
        in if err then g else g\<lparr>g_input := []\<rparr>)"

definition Controller_connected :: "gui \<Rightarrow> gui" where
  "Controller_connected g = QClient_connected g"

definition Controller_disconnected :: "gui \<Rightarrow> gui" where
  "Controller_disconnected g = (QClient_disconnected g)\<lparr>g_contacts := Map.empty\<rparr>"

definition Network_connected :: "gui \<Rightarrow> gui" where
  "Network_connected g = Controller_connected (g\<lparr>g_connected := True\<rparr>)"

definition Network_disconnected :: "gui \<Rightarrow> gui" where
  "Network_disconnected g = Controller_disconnected (g\<lparr>g_connected := False\<rparr>)"

definition getIp :: "gui \<Rightarrow> string" where
  "getIp g = RootNode_get ''ip'' (g_details g)"

text \<open>A conversion that fails gives 0.\<close>

definition toUShort0 :: "qt \<Rightarrow> string \<Rightarrow> nat" where
  "toUShort0 Q s = (case q_toUShort Q s of None \<Rightarrow> 0 | Some n \<Rightarrow> n)"

definition getPort :: "qt \<Rightarrow> gui \<Rightarrow> nat" where
  "getPort Q g = toUShort0 Q (RootNode_get ''port'' (g_details g))"

definition checkIPv4 :: "qt \<Rightarrow> string \<Rightarrow> bool" where
  "checkIPv4 Q str =
     (let elements = q_split Q str CHR ''.'' in
      length elements = 4 \<and>
      list_all (\<lambda>e. case q_toInt Q e of None \<Rightarrow> False | Some nb \<Rightarrow> \<not> (nb < 0 \<or> nb > 255)) elements)"

definition checkIPv6 :: "qt \<Rightarrow> string \<Rightarrow> bool" where
  "checkIPv6 Q str = (length (q_split Q str CHR '':'') = 6)"

definition NAME_RX :: string where "NAME_RX = ''^[a-zA-Z0-9_]+$''"

definition HOST_RX :: string where
  "HOST_RX = ''^[a-zA-Z][a-zA-Z'' @ CHR 0x5C # ''-'' @ CHR 0x5C # ''.0-9]*[a-zA-Z]$''"

definition checkName :: "qt \<Rightarrow> string \<Rightarrow> bool" where
  "checkName Q str = q_contains Q NAME_RX str"

definition checkHostNameFormat :: "qt \<Rightarrow> string \<Rightarrow> bool" where
  "checkHostNameFormat Q str = q_contains Q HOST_RX str"

definition checkIP :: "qt \<Rightarrow> string \<Rightarrow> bool" where
  "checkIP Q str = (checkIPv4 Q str \<or> checkIPv6 Q str \<or> checkHostNameFormat Q str)"

text \<open>The contact is not taken out of the model.\<close>

definition Controller_deleteContact :: "gtclt \<Rightarrow> string \<Rightarrow> gui \<Rightarrow> gui" where
  "Controller_deleteContact T name g = Network_write (l_delete_peer T (c_text name)) g"

text \<open>\<open>BodyMain::deleteContact\<close>; the selected items by their positions.\<close>

definition BodyMain_deleteContact :: "gtclt \<Rightarrow> nat list \<Rightarrow> gui \<Rightarrow> gui" where
  "BodyMain_deleteContact T selected g =
     (let names = map ((!) (g_list g)) selected; g = fold (Controller_deleteContact T) names g
      in g\<lparr>g_list := map ((!) (g_list g)) (filter (\<lambda>i. i \<notin> set selected) [0 ..< length (g_list g)])\<rparr>)"

text \<open>\<open>dup\<close>: the three copies could be made. An exception after them leaves them allocated.\<close>

definition Controller_addContact :: "qt \<Rightarrow> gtclt \<Rightarrow> bool \<Rightarrow> gui \<Rightarrow> bool \<times> gui" where
  "Controller_addContact Q T dup g =
     (if g_body g \<noteq> BodyAddContact then (False, g)
      else if g_name g = [] \<or> g_pubkey g = [] \<or> g_ip g = [] then (False, g)
      else if \<not> checkName Q (g_name g) then (False, g)
      else if \<not> dup then (False, g)
      else
        let name = c_text (g_name g); ip = c_text (g_ip g); key = c_text (g_pubkey g) in
        case ModelContact_addContact name ip key (g_contacts g) of
          Inl message \<Rightarrow> (False, g)
        | Inr contacts \<Rightarrow>
            (let g = Network_write (l_add_peer T name ip key) (g\<lparr>g_contacts := contacts\<rparr>)
             in (True, changePrevBody (cleanField g))))"

text \<open>The body is used without a check that it is the form.\<close>

definition Controller_changeRootNode :: "qt \<Rightarrow> gui \<Rightarrow> (bool \<times> gui) option" where
  "Controller_changeRootNode Q g =
     (if g_body g \<noteq> BodyConnexion then None
      else
        let name = g_cname g; ip = g_cadress g; pubkey = g_ckey g in
        case q_toUShort Q (g_cport g) of
          None \<Rightarrow> Some (False, g)
        | Some port \<Rightarrow>
            (if ip = [] \<or> name = [] \<or> pubkey = [] then Some (False, g)
             else if \<not> checkName Q name then Some (False, g)
             else if \<not> checkIP Q ip then Some (False, g)
             else
               let g = g\<lparr>g_infos := changeConnexionInfo name pubkey ip (g_cport g) (g_infos g)\<rparr>
               in Some (True, if \<not> g_connected g then setConnection ip port g else g)))"

definition Controller_restart :: "qt \<Rightarrow> gui \<Rightarrow> gui" where
  "Controller_restart Q g = resetConnection (getIp g) (getPort Q g) g"

text \<open>The form of the connection is filled from the model.\<close>

definition setConnexionParam :: "gui \<Rightarrow> gui option" where
  "setConnexionParam g =
     (if g_body g \<noteq> BodyConnexion then None
      else
        let f = (\<lambda>k. toString (q_at (g_infos g) k))
        in Some (g\<lparr>g_cname := f ''Name'', g_cadress := f ''Adress'', g_cport := f ''Port'', g_ckey := f ''Key''\<rparr>))"

definition viewAddContact :: "gui \<Rightarrow> gui" where
  "viewAddContact g = changeNextBody ADDCONTACT g"

definition unuseAddContact :: "gui \<Rightarrow> gui" where
  "unuseAddContact g = changePrevBody g"

text \<open>The window and the controller when \<open>main\<close> has made them, and \<open>main\<close> until its event loop.\<close>

definition gui_init :: gui where
  "gui_init =
     \<lparr>g_state = CONNEXION, g_body = BodyConnexion, g_visible = {BodyConnexion}, g_name = [], g_pubkey = [], g_ip = [],
      g_cname = [], g_cadress = [], g_cport = [], g_ckey = [], g_list = [], g_contacts = Map.empty,
      g_details = ModelRootNode_init, g_infos = ModelConnexion_init, g_connected = False, g_input = [], g_socket = []\<rparr>"

definition gui_main :: "gui option" where
  "gui_main = setConnexionParam gui_init"

section \<open>What the user and the network do\<close>

text \<open>
  The forms and buttons of a body can be used while it is shown; the socket reports a connection only
  when there was none and its end only when there was one.
\<close>

inductive gui_step :: "qt \<Rightarrow> gtclt \<Rightarrow> gui \<Rightarrow> gui \<Rightarrow> bool" for Q T where
  edit_contact: "BodyAddContact \<in> g_visible g \<Longrightarrow> gui_step Q T g (g\<lparr>g_name := n, g_pubkey := k, g_ip := i\<rparr>)"
| edit_connexion: "BodyConnexion \<in> g_visible g \<Longrightarrow> gui_step Q T g (g\<lparr>g_cname := n, g_cadress := a, g_cport := p, g_ckey := k\<rparr>)"
| accept_contact: "BodyAddContact \<in> g_visible g \<Longrightarrow> Controller_addContact Q T dup g = (r, g') \<Longrightarrow> gui_step Q T g g'"
| reject_contact: "BodyAddContact \<in> g_visible g \<Longrightarrow> gui_step Q T g (unuseAddContact g)"
| click_add: "BodyMain \<in> g_visible g \<Longrightarrow> gui_step Q T g (viewAddContact g)"
| click_delete: "BodyMain \<in> g_visible g \<Longrightarrow> set sel \<subseteq> {..< length (g_list g)} \<Longrightarrow> gui_step Q T g (BodyMain_deleteContact T sel g)"
| accept_connexion: "BodyConnexion \<in> g_visible g \<Longrightarrow> Controller_changeRootNode Q g = Some (r, g') \<Longrightarrow> gui_step Q T g g'"
| net_connected: "\<not> g_connected g \<Longrightarrow> gui_step Q T g (Network_connected g)"
| net_disconnected: "g_connected g \<Longrightarrow> gui_step Q T g (Network_disconnected g)"
| net_data: "gui_step Q T g (Network_read T (g\<lparr>g_input := g_input g @ d\<rparr>))"
| restart: "gui_step Q T g (Controller_restart Q g)"
| shutdown: "gui_step Q T g (Network_shutdown g)"

fun body_of :: "client_state \<Rightarrow> body" where
  "body_of CONNEXION = BodyConnexion"
| "body_of MAIN = BodyMain"
| "body_of ADDGROUP = BodyAddGroup"
| "body_of ADDCONTACT = BodyAddContact"

definition name_char :: "char \<Rightarrow> bool" where
  "name_char c \<longleftrightarrow> isalnum (of_char c) \<or> c = CHR ''_''"

text \<open>What Qt says about the expression for names.\<close>

definition names_ok :: "qt \<Rightarrow> bool" where
  "names_ok Q \<longleftrightarrow> (\<forall>s. q_contains Q NAME_RX s \<longleftrightarrow> s \<noteq> [] \<and> list_all name_char s)"

definition contact :: "string \<Rightarrow> string \<Rightarrow> qvariant" where
  "contact key ip = QMapVar [''Key'' \<mapsto> QStr key, ''Ip'' \<mapsto> QStr ip]"

definition contacts_ok :: "qmap \<Rightarrow> bool" where
  "contacts_ok m \<longleftrightarrow> (\<forall>n v. m n = Some v \<longrightarrow> n \<noteq> [] \<and> list_all name_char n \<and> (\<exists>k i. v = contact k i))"

definition infos_ok :: "qmap \<Rightarrow> bool" where
  "infos_ok m \<longleftrightarrow> (\<forall>k \<in> {''Name'', ''Adress'', ''Port'', ''Key''}. \<exists>s. m k = Some (QStr s))"

text \<open>
  Exactly the body of the state is shown, the connection is up exactly when it is not the form of
  the connection, without a connection there are no contacts, and the models have their shapes.
\<close>

definition gui_inv :: "gui \<Rightarrow> bool" where
  "gui_inv g \<longleftrightarrow> g_body g = body_of (g_state g) \<and> g_visible g = {g_body g} \<and> (g_connected g \<longleftrightarrow> g_state g \<noteq> CONNEXION)
     \<and> (g_connected g \<or> g_contacts g = Map.empty) \<and> contacts_ok (g_contacts g) \<and> infos_ok (g_infos g)"

lemma name_char_nul [simp]: "\<not> name_char NUL"
  by (simp add: name_char_def isalnum_def NUL_def)

lemma c_text_name: "list_all name_char s \<Longrightarrow> c_text s = s"
  unfolding c_text_def by (subst takeWhile_eq_all_conv) (auto simp: list_all_iff)

lemma contacts_ok_add:
  assumes "contacts_ok m" and "n \<noteq> []" and "list_all name_char n"
  shows "contacts_ok (m(n \<mapsto> contact k i))"
  using assms by (auto simp: contacts_ok_def)

lemma infos_ok_change: "infos_ok m \<Longrightarrow> infos_ok (changeConnexionInfo n k i p m)"
  by (simp add: infos_ok_def changeConnexionInfo_def)

text \<open>What the commands of the daemon and writing to the socket leave alone.\<close>

definition same_view :: "gui \<Rightarrow> gui \<Rightarrow> bool" where
  "same_view g g' \<longleftrightarrow> g_state g' = g_state g \<and> g_body g' = g_body g \<and> g_visible g' = g_visible g \<and> g_connected g' = g_connected g
     \<and> g_contacts g' = g_contacts g \<and> g_infos g' = g_infos g"

lemma same_view_refl [simp]: "same_view g g"
  by (simp add: same_view_def)

lemma same_view_inv: "same_view g g' \<Longrightarrow> gui_inv g \<Longrightarrow> gui_inv g'"
  by (auto simp: same_view_def gui_inv_def)

lemma visible_body: "gui_inv g \<Longrightarrow> b \<in> g_visible g \<Longrightarrow> g_body g = b"
  by (simp add: gui_inv_def)

lemma same_view_fold:
  assumes "\<forall>x g. same_view g (f x g)"
  shows "same_view g (fold f xs g)"
  using assms by (induction xs arbitrary: g) (auto simp: same_view_def)

lemma controll_view: "same_view g (controll c g)"
  by (cases c) (simp_all add: same_view_def addNewPeer_def)

lemma read_view: "same_view g (Network_read T g)"
  using same_view_fold [of controll] controll_view
  by (auto simp: Network_read_def same_view_def Let_def split: prod.split)

lemma delete_view: "same_view g (BodyMain_deleteContact T sel g)"
proof -
  have "\<forall>x g. same_view g (Controller_deleteContact T x g)"
    by (simp add: Controller_deleteContact_def Network_write_def same_view_def)
  from same_view_fold [OF this] show ?thesis by (simp add: BodyMain_deleteContact_def same_view_def Let_def)
qed

lemma bodies_inv:
  assumes "gui_inv g"
  shows "g_body g = BodyAddContact \<Longrightarrow> gui_inv (changePrevBody g)" "g_body g = BodyMain \<Longrightarrow> gui_inv (viewAddContact g)"
  using assms
  by (cases "g_state g"; auto simp: gui_inv_def changePrevBody_def viewAddContact_def changeNextBody_def show_body_def)+

lemma add_contact_inv:
  assumes "gui_inv g" and "names_ok Q" and "Controller_addContact Q T dup g = (r, g')"
  shows "gui_inv g'"
proof (cases "g' = g")
  case False
  let ?n = "c_text (g_name g)" and ?i = "c_text (g_ip g)" and ?k = "c_text (g_pubkey g)"
  let ?g = "cleanField (Network_write (l_add_peer T ?n ?i ?k) (g\<lparr>g_contacts := (g_contacts g)(?n \<mapsto> contact ?k ?i)\<rparr>))"
  have x: "g_body g = BodyAddContact" "checkName Q (g_name g)" "g' = changePrevBody ?g"
    using False assms(3)
    by (auto simp: Controller_addContact_def ModelContact_addContact_def contact_def Let_def split: if_splits sum.splits)
  have n: "g_name g \<noteq> []" "list_all name_char (g_name g)" using x(2) assms(2) by (simp_all add: checkName_def names_ok_def)
  have "g_connected g" using assms(1) x(1) by (cases "g_state g") (auto simp: gui_inv_def)
  then have "gui_inv ?g" "g_body ?g = BodyAddContact"
    using assms(1) x(1) contacts_ok_add [OF _ n] by (simp_all add: gui_inv_def c_text_name [OF n(2)] Network_write_def cleanField_def)
  then show ?thesis using bodies_inv(1) x(3) by blast
qed (use assms in simp)

lemma change_root_inv:
  assumes "gui_inv g" and "Controller_changeRootNode Q g = Some (r, g')"
  shows "gui_inv g'"
  using assms infos_ok_change
  by (auto simp: Controller_changeRootNode_def Let_def setConnection_def gui_inv_def split: if_splits option.splits)

lemma step_inv:
  assumes "gui_step Q T g g'" and "names_ok Q" and "gui_inv g"
  shows "gui_inv g'"
  using assms
proof cases
  case (accept_contact dup r)
  then show ?thesis using add_contact_inv assms by blast
next
  case (accept_connexion r)
  then show ?thesis using change_root_inv assms by blast
next
  case reject_contact
  then show ?thesis using bodies_inv(1) [OF assms(3) visible_body [OF assms(3)]] by (simp add: unuseAddContact_def)
next
  case click_add
  then show ?thesis using bodies_inv(2) [OF assms(3) visible_body [OF assms(3)]] by simp
next
  case (net_data d)
  moreover have "gui_inv (g\<lparr>g_input := g_input g @ d\<rparr>)" using assms(3) by (auto simp: gui_inv_def)
  ultimately show ?thesis using same_view_inv [OF read_view] by blast
next
  case (click_delete sel)
  then show ?thesis using same_view_inv [OF delete_view] assms(3) by blast
next
  case net_connected
  then show ?thesis using assms(3)
    by (simp add: gui_inv_def Network_connected_def Controller_connected_def QClient_connected_def changeNextBody_def show_body_def
      contacts_ok_def)
next
  case net_disconnected
  then show ?thesis using assms(3)
    by (simp add: gui_inv_def Network_disconnected_def Controller_disconnected_def QClient_disconnected_def show_body_def contacts_ok_def)
qed (auto simp: gui_inv_def Controller_restart_def resetConnection_def Network_shutdown_def)

lemma start_inv: "gui_main = Some g \<Longrightarrow> gui_inv g"
  by (auto simp: gui_main_def setConnexionParam_def gui_init_def gui_inv_def contacts_ok_def infos_ok_def ModelConnexion_init_def Let_def)

text \<open>
  Claim C32. The client is well-formed whatever the user and the daemon do: exactly one body is shown, the
  one of the state; the connection is up exactly when that is not the form of the connection; there are
  contacts only while it is up; and the models keep their shapes, so that the key and the address of a
  contact are there whenever the contact is.
\<close>

theorem client_well_formed:
  assumes "names_ok Q" and "gui_main = Some g0" and "(gui_step Q T)\<^sup>*\<^sup>* g0 g"
  shows "gui_inv g \<and> (g_contacts g n \<noteq> None \<longrightarrow> (\<exists>k i. g_contacts g n = Some (contact k i)
    \<and> ModelContact_getKey n (g_contacts g) = Inr k \<and> ModelContact_getIp n (g_contacts g) = Inr i))"
proof -
  have "gui_inv g" using assms(3) start_inv [OF assms(2)] by (induction rule: rtranclp_induct) (auto intro: step_inv [OF _ assms(1)])
  moreover from this have "\<exists>k i. v = contact k i" if "g_contacts g n = Some v" for v
    using that by (auto simp: gui_inv_def contacts_ok_def)
  ultimately show ?thesis
    by (fastforce simp: ModelContact_getKey_def ModelContact_getIp_def q_at_def contact_def)
qed

section \<open>What is accepted\<close>

fun split_on :: "char \<Rightarrow> string \<Rightarrow> string list" where
  "split_on c [] = [[]]"
| "split_on c (x # xs) =
     (if x = c then [] # split_on c xs
      else (case split_on c xs of [] \<Rightarrow> [[x]] | y # ys \<Rightarrow> (x # y) # ys))"

text \<open>What Qt says about splitting and about decimal numbers.\<close>

definition qt_ok :: "qt \<Rightarrow> bool" where
  "qt_ok Q \<longleftrightarrow> names_ok Q \<and> (\<forall>s c. q_split Q s c = split_on c s)
     \<and> (\<forall>n \<le> 2147483647. q_toInt Q (show_nat n) = Some (int n)) \<and> (\<forall>n \<le> 65535. q_toUShort Q (show_nat n) = Some n)"

definition dotted :: "nat \<Rightarrow> nat \<Rightarrow> nat \<Rightarrow> nat \<Rightarrow> string" where
  "dotted a b c d = show_nat a @ CHR ''.'' # show_nat b @ CHR ''.'' # show_nat c @ CHR ''.'' # show_nat d"

lemma split_on_one: "c \<notin> set a \<Longrightarrow> split_on c a = [a]"
  by (induction a) auto

lemma split_on_first: "c \<notin> set a \<Longrightarrow> split_on c (a @ c # r) = a # split_on c r"
  by (induction a) auto

lemma show_nat_dot: "CHR ''.'' \<notin> set (show_nat n)"
proof
  assume "CHR ''.'' \<in> set (show_nat n)"
  then obtain d where d: "d < 10" "CHR ''.'' = digit_char d" using show_nat_digits by blast
  then have "(of_char (CHR ''.'') :: nat) = 48 + d" by (simp add: digit_char_def)
  then show False by simp
qed

lemma check_dotted:
  assumes "qt_ok Q" and "a \<le> 255" and "b \<le> 255" and "c \<le> 255" and "d \<le> 255"
  shows "checkIP Q (dotted a b c d)"
proof -
  have "split_on CHR ''.'' (dotted a b c d) = [show_nat a, show_nat b, show_nat c, show_nat d]"
    by (simp add: dotted_def split_on_first split_on_one show_nat_dot)
  with assms show ?thesis by (simp add: checkIP_def checkIPv4_def qt_ok_def Let_def)
qed

text \<open>
  Claim C39. The form of the connection: a name of letters, digits and underscores, a key, four bytes as an address
  and a port below 65536 are accepted; they are stored in the model, and without a connection the socket
  is told to connect to exactly that address and port.
\<close>

theorem connexion_accepted:
  assumes "qt_ok Q" and "g_body g = BodyConnexion" and "\<not> g_connected g"
    and "g_cname g \<noteq> []" and "list_all name_char (g_cname g)" and "g_ckey g \<noteq> []"
    and "a \<le> 255" and "b \<le> 255" and "c \<le> 255" and "d \<le> 255" and "g_cadress g = dotted a b c d"
    and "p \<le> 65535" and "g_cport g = show_nat p"
  shows "\<exists>g'. Controller_changeRootNode Q g = Some (True, g') \<and> g_socket g' = g_socket g @ [ConnectToHost (dotted a b c d) p]
    \<and> g_infos g' ''Name'' = Some (QStr (g_cname g)) \<and> g_infos g' ''Adress'' = Some (QStr (g_cadress g))
    \<and> g_infos g' ''Port'' = Some (QStr (g_cport g)) \<and> g_infos g' ''Key'' = Some (QStr (g_ckey g))
    \<and> g_contacts g' = g_contacts g \<and> g_state g' = g_state g"
proof -
  have "checkIP Q (dotted a b c d)" using check_dotted assms(1,7-10) by blast
  moreover have "dotted a b c d \<noteq> []" by (simp add: dotted_def)
  moreover have "checkName Q (g_cname g)" "q_toUShort Q (show_nat p) = Some p"
    using assms(1,4,5,12) by (simp_all add: checkName_def qt_ok_def names_ok_def)
  ultimately show ?thesis
    using assms(2-6,11,13) by (simp add: Controller_changeRootNode_def setConnection_def changeConnexionInfo_def Let_def)
qed

text \<open>
  Claim C40. An error of the client: deleting a contact asks the daemon to delete the peer but keeps it in the
  model, so a contact that was added and then deleted cannot be added again.
\<close>

theorem deleted_contact_refused:
  assumes "Controller_addContact Q T dup g = (True, g1)" and "g2 = Controller_deleteContact T (g_name g) g1"
    and "g_contacts g3 = g_contacts g2" and "g_name g3 = g_name g"
  shows "Controller_addContact Q T dup' g3 = (False, g3)"
proof -
  have "c_text (g_name g) \<noteq> [] \<and> g_contacts g1 (c_text (g_name g)) \<noteq> None"
    using assms(1)
    by (auto simp: Controller_addContact_def ModelContact_addContact_def Let_def changePrevBody_def show_body_def cleanField_def
      Network_write_def split: if_splits sum.splits client_state.splits)
  then have "g_contacts g3 (c_text (g_name g3)) \<noteq> None"
    using assms(2-4) by (simp add: Controller_deleteContact_def Network_write_def)
  then show ?thesis by (auto simp: Controller_addContact_def ModelContact_addContact_def Let_def)
qed

text \<open>No address of eight groups passes the check for version 6, which asks for six.\<close>

lemma ipv6_refused: "qt_ok Q \<Longrightarrow> length (split_on CHR '':'' s) = 8 \<Longrightarrow> \<not> checkIPv6 Q s"
  by (simp add: checkIPv6_def qt_ok_def)

text \<open>Without data the bracket is lost.\<close>

lemma toJson_no_data: "toJson Q ob None = ''{'' @ newline @ quote @ ob @ quote @ '': ]'' @ newline @ ''}''"
  by (simp add: toJson_def butlast_append)

section \<open>A concrete client\<close>

definition demo_qt :: qt where
  "demo_qt = \<lparr>q_split = (\<lambda>s c. split_on c s), q_toInt = (\<lambda>s. c_atoi (cstr s)), q_toUShort = (\<lambda>s. map_option nat (c_atoi (cstr s))),
     q_contains = (\<lambda>rx s. s \<noteq> [] \<and> list_all name_char s), q_keys = (\<lambda>m. [])\<rparr>"

definition demo_gtclt :: gtclt where
  "demo_gtclt = \<lparr>l_dispatch = (\<lambda>s. ([], False)), l_add_peer = (\<lambda>n i k. n), l_delete_peer = (\<lambda>n. n)\<rparr>"

lemma demo_qt_ok [simp]: "qt_ok demo_qt" "names_ok demo_qt"
  by (simp_all add: qt_ok_def names_ok_def demo_qt_def atoi_show)

definition demo_gui :: gui where
  "demo_gui = gui_init\<lparr>g_cname := ''Default'', g_cadress := dotted 127 0 0 1, g_cport := show_nat 4243, g_ckey := ''key''\<rparr>"

theorem client_well_formed_witness:
  "gui_inv (Network_connected demo_gui)"
proof -
  have s: "dotted 127 0 0 1 = ''127.0.0.1''" "show_nat 4243 = ''4243''"
    by (simp_all add: dotted_def show_nat.simps digit_char_def char_of_def bit_Suc_0_iff)
  have m: "gui_main = Some demo_gui"
    by (simp add: gui_main_def setConnexionParam_def demo_gui_def gui_init_def ModelConnexion_init_def q_at_def Let_def s del: One_nat_def)
  have "gui_step demo_qt demo_gtclt demo_gui (Network_connected demo_gui)"
    by (rule net_connected) (simp add: demo_gui_def gui_init_def)
  then have "(gui_step demo_qt demo_gtclt)\<^sup>*\<^sup>* demo_gui (Network_connected demo_gui)" by simp
  from client_well_formed [OF demo_qt_ok(2) m this] show ?thesis by blast
qed

theorem connexion_accepted_witness:
  "\<exists>g'. Controller_changeRootNode demo_qt demo_gui = Some (True, g') \<and> g_socket g' = [ConnectToHost (dotted 127 0 0 1) 4243]"
proof -
  have h: "g_body demo_gui = BodyConnexion" "\<not> g_connected demo_gui" "g_cname demo_gui \<noteq> []" "list_all name_char (g_cname demo_gui)"
    "g_ckey demo_gui \<noteq> []" "g_cadress demo_gui = dotted 127 0 0 1" "g_cport demo_gui = show_nat 4243" "g_socket demo_gui = []"
    by (simp_all add: demo_gui_def gui_init_def name_char_def isalnum_def)
  from connexion_accepted [OF demo_qt_ok(1) h(1-5) _ _ _ _ h(6) _ h(7)] h(8) show ?thesis by auto
qed

definition demo_form :: gui where
  "demo_form = gui_init\<lparr>g_state := ADDCONTACT, g_body := BodyAddContact, g_connected := True, g_name := ''bob'', g_pubkey := ''k'', g_ip := ''1.2.3.4''\<rparr>"

theorem deleted_contact_refused_witness:
  "\<exists>g1 g3. Controller_addContact demo_qt demo_gtclt True demo_form = (True, g1)
     \<and> g_contacts g3 = g_contacts (Controller_deleteContact demo_gtclt ''bob'' g1) \<and> g_name g3 = ''bob'' \<and> g_body g3 = BodyAddContact
     \<and> Controller_addContact demo_qt demo_gtclt True g3 = (False, g3)"
proof -
  have n: "g_name demo_form = ''bob''" "list_all name_char ''bob''"
    by (simp_all add: demo_form_def name_char_def isalnum_def)
  define g1 where "g1 = snd (Controller_addContact demo_qt demo_gtclt True demo_form)"
  have a: "Controller_addContact demo_qt demo_gtclt True demo_form = (True, g1)"
    using n(2) by (simp add: g1_def Controller_addContact_def demo_form_def gui_init_def checkName_def demo_qt_def
      ModelContact_addContact_def Let_def c_text_def NUL_def)
  define g3 where "g3 = demo_form\<lparr>g_contacts := g_contacts (Controller_deleteContact demo_gtclt (g_name demo_form) g1)\<rparr>"
  have g3: "g_contacts g3 = g_contacts (Controller_deleteContact demo_gtclt (g_name demo_form) g1)" "g_name g3 = g_name demo_form" "g_body g3 = BodyAddContact"
    by (simp_all add: g3_def demo_form_def)
  from deleted_contact_refused [OF a refl g3(1,2)] a g3 show ?thesis unfolding n(1) by blast
qed

end
