(* ===== verification/Broadcast.thy ===== *)
theory Broadcast
  imports Unpriv "HOL-Library.Sublist"
begin

text \<open>
  The announcer (\<open>client/tnt_broadcast/main.cpp\<close>): it broadcasts the address of its daemon every five
  seconds and asks the daemon to add the peers whose announcements it hears. Boost is a parameter: how
  an endpoint is printed, and the text of a property tree.
\<close>

record boost =
  x_endpoint :: "string \<Rightarrow> int \<Rightarrow> string"
  x_json :: "(string \<times> string) list \<Rightarrow> string"

text \<open>
  The fields of \<open>broadcaster\<close>: the buffer, the addresses, whether the stream to the daemon works, and what
  was sent to the network and to the daemon. \<open>r_receiving\<close> and \<open>r_timer\<close>: an operation is pending.
\<close>

record broadcaster =
  r_buffer :: bytes
  r_tnt_ip :: string
  r_tnt_port :: int
  r_stream :: bool
  r_sent :: "string list"
  r_requests :: "string list"
  r_receiving :: bool
  r_timer :: "nat option"

text \<open>The buffer has 150 zeroed bytes. The stream goes to port 4243 whatever port is asked for.\<close>

definition new_broadcaster :: "bool \<Rightarrow> string \<Rightarrow> string \<Rightarrow> broadcaster option" where
  "new_broadcaster stream tnt_ip tnt_port =
     do { port \<leftarrow> c_atoi (cstr tnt_port);
          Some \<lparr>r_buffer = replicate 150 0, r_tnt_ip = tnt_ip, r_tnt_port = port, r_stream = stream, r_sent = [], r_requests = [],
                r_receiving = False, r_timer = None\<rparr> }"

text \<open>The text in the buffer; without a zero in it the read leaves the buffer.\<close>

definition buffer_text :: "bytes \<Rightarrow> string option" where
  "buffer_text buf = (if 0 \<in> set buf then Some (map byte_char (takeWhile (\<lambda>b. b \<noteq> 0) buf)) else None)"

definition async_receive_from :: "broadcaster \<Rightarrow> broadcaster" where
  "async_receive_from b = b\<lparr>r_receiving := True\<rparr>"

text \<open>A datagram overwrites the beginning of the buffer.\<close>

definition received_into :: "bytes \<Rightarrow> broadcaster \<Rightarrow> broadcaster" where
  "received_into d b = b\<lparr>r_buffer := take 150 (d @ drop (length d) (r_buffer b)), r_receiving := False\<rparr>"

definition handl_recv :: "boost \<Rightarrow> bool \<Rightarrow> broadcaster \<Rightarrow> broadcaster option" where
  "handl_recv X err b =
     do { b \<leftarrow> (if r_stream b \<and> \<not> err then
                  do { data \<leftarrow> buffer_text (r_buffer b);
                       Some (if \<not> sublist (r_tnt_ip b) data
                             then b\<lparr>r_requests := r_requests b @
                                    [x_json X [(''AddContact.Ip'', data), (''AddContact.Name'', ''bite''), (''AddContact.Key'', ''bitebitebite'')]]\<rparr>
                             else b) }
                else Some b);
          Some (async_receive_from b) }"

definition announce_now :: "boost \<Rightarrow> broadcaster \<Rightarrow> broadcaster" where
  "announce_now X b = b\<lparr>r_sent := r_sent b @ [x_endpoint X (r_tnt_ip b) (r_tnt_port b)]\<rparr>"

definition handle_announce :: "boost \<Rightarrow> bool \<Rightarrow> broadcaster \<Rightarrow> broadcaster" where
  "handle_announce X err b = (if \<not> err then (announce_now X b)\<lparr>r_timer := Some 5\<rparr> else b)"

definition broadcaster_start :: "boost \<Rightarrow> broadcaster \<Rightarrow> broadcaster" where
  "broadcaster_start X b = (async_receive_from (announce_now X b))\<lparr>r_timer := Some 5\<rparr>"

text \<open>\<open>main\<close> until its event loop; the options are given or have their defaults.\<close>

definition broadcast_main :: "boost \<Rightarrow> bool \<Rightarrow> bool \<Rightarrow> string option \<Rightarrow> string option \<Rightarrow> broadcaster option option" where
  "broadcast_main X stream help ip port =
     (if help then Some None
      else
        do { b \<leftarrow> new_broadcaster stream (case ip of None \<Rightarrow> ''127.0.0.1'' | Some s \<Rightarrow> s) (case port of None \<Rightarrow> ''4242'' | Some s \<Rightarrow> s);
             Some (Some (broadcaster_start X b)) })"

section \<open>Properties\<close>

text \<open>What endpoints look like: the address is in front.\<close>

definition endpoints_ok :: "boost \<Rightarrow> bool" where
  "endpoints_ok X \<longleftrightarrow> (\<forall>ip port. \<exists>r. x_endpoint X ip port = ip @ r)"

lemma buffer_text_of:
  assumes "NUL \<notin> set s" and "0 \<in> set r"
  shows "buffer_text (str_bytes s @ r) = Some (s @ map byte_char (takeWhile (\<lambda>b. b \<noteq> 0) r))"
proof -
  have "takeWhile (\<lambda>b. b \<noteq> 0) (str_bytes s @ r) = str_bytes s @ takeWhile (\<lambda>b. b \<noteq> 0) r"
    using str_bytes_nonzero [OF assms(1)] by (subst takeWhile_append2) (auto simp: takeWhile_eq_all_conv)
  then show ?thesis using assms(2) byte_char_str [of s] by (simp add: buffer_text_def)
qed

text \<open>
  An announcer ignores its own announcements, whatever was in the buffer before, as long as a zero is left in it.
\<close>

lemma own_announcement_ignored:
  assumes "endpoints_ok X" and "e = x_endpoint X (r_tnt_ip b) (r_tnt_port b)" and "NUL \<notin> set e" and "length (r_buffer b) = 150"
    and "0 \<in> set (drop (length e) (r_buffer b))"
  shows "\<exists>b'. handl_recv X False (received_into (str_bytes e) b) = Some b' \<and> r_requests b' = r_requests b \<and> r_receiving b'"
proof -
  have l: "length (str_bytes e) = length e" by (simp add: str_bytes_def)
  have "length e < 150" using assms(4,5) by (cases "length e < 150") simp_all
  then have t: "r_buffer (received_into (str_bytes e) b) = str_bytes e @ drop (length e) (r_buffer b)"
    using assms(4) l by (simp add: received_into_def)
  obtain r where r: "e = r_tnt_ip b @ r" using assms(1,2) by (auto simp: endpoints_ok_def)
  have "sublist (r_tnt_ip b) (e @ map byte_char (takeWhile (\<lambda>b. b \<noteq> 0) (drop (length e) (r_buffer b))))"
    unfolding r by (metis append.assoc append_Nil sublist_appendI)
  then show ?thesis
    using buffer_text_of [OF assms(3,5)] t by (auto simp: handl_recv_def async_receive_from_def received_into_def)
qed

text \<open>
  After a longer datagram a shorter one is read with the end of the longer one behind it.
\<close>

lemma stale_tail:
  assumes "NUL \<notin> set (s @ t)" and "length s = length u" and "NUL \<notin> set u" and "length (s @ t) < 150"
  shows "buffer_text (r_buffer (received_into (str_bytes u) (received_into (str_bytes (s @ t)) (b\<lparr>r_buffer := replicate 150 0\<rparr>)))) = Some (u @ t)"
proof -
  have l: "length (str_bytes v) = length v" for v by (simp add: str_bytes_def)
  let ?z = "replicate (150 - length (s @ t)) (0 :: byte)"
  have "r_buffer (received_into (str_bytes (s @ t)) (b\<lparr>r_buffer := replicate 150 0\<rparr>)) = str_bytes (s @ t) @ ?z"
    using assms(4) by (simp add: received_into_def l)
  moreover have "str_bytes (s @ t) @ ?z = str_bytes s @ str_bytes t @ ?z" by (simp add: str_bytes_def)
  moreover have "take 150 (str_bytes u @ str_bytes t @ ?z) = str_bytes (u @ t) @ ?z"
    using assms(2,4) by (simp add: l str_bytes_def)
  ultimately have "r_buffer (received_into (str_bytes u) (received_into (str_bytes (s @ t)) (b\<lparr>r_buffer := replicate 150 0\<rparr>))) = str_bytes (u @ t) @ ?z"
    using assms(2) by (simp add: received_into_def l)
  moreover have "0 \<in> set ?z" "takeWhile (\<lambda>b. b \<noteq> 0) ?z = []" using assms(4) by (cases "150 - length (s @ t)"; simp)+
  ultimately show ?thesis using buffer_text_of [of "u @ t" ?z] assms(1,3) by simp
qed

end
